(* ===== verification/Prelude.thy ===== *)
theory Prelude
  imports Main "HOL-Library.Word"
begin

text \<open>
  Shared vocabulary of the development: the fallible, stateful computations in which every
  handler of the chat application is written, and the generic facts on lists and options
  the components use.

  A C++ member function that may throw is modelled as a function of the state that returns a
  pair: the outcome (\<open>Inl\<close> a failure, \<open>Inr\<close> a value) and the state at that moment. The state
  is returned on the failure side too, because an exception does not undo the writes made
  before it.
\<close>

named_theorems outcome_simps \<open>evaluation of sequenced fallible computations\<close>
named_theorems outcome_elims \<open>inversion of sequenced fallible computations\<close>

type_synonym ('e, 'a, 's) outcome = "('e + 'a) \<times> 's"

definition bindE ::
  "('e, 'a, 's) outcome \<Rightarrow> ('a \<Rightarrow> 's \<Rightarrow> ('e, 'b, 's) outcome) \<Rightarrow> ('e, 'b, 's) outcome" where
  "bindE r f = (case r of (Inl e, s) \<Rightarrow> (Inl e, s) | (Inr a, s) \<Rightarrow> f a s)"

definition handleE ::
  "('e, 'a, 's) outcome \<Rightarrow> ('e \<Rightarrow> 's \<Rightarrow> ('e, 'a, 's) outcome) \<Rightarrow> ('e, 'a, 's) outcome" where
  "handleE r h = (case r of (Inl e, s) \<Rightarrow> h e s | (Inr a, s) \<Rightarrow> (Inr a, s))"

definition liftE :: "'e + 'a \<Rightarrow> 's \<Rightarrow> ('e, 'a, 's) outcome" where
  "liftE r s = (r, s)"

lemma bindE_Inl [simp, outcome_simps]: "bindE (Inl e, s) f = (Inl e, s)"
  by (simp add: bindE_def)

lemma bindE_Inr [simp, outcome_simps]: "bindE (Inr a, s) f = f a s"
  by (simp add: bindE_def)

lemma handleE_Inl [simp, outcome_simps]: "handleE (Inl e, s) h = h e s"
  by (simp add: handleE_def)

lemma handleE_Inr [simp, outcome_simps]: "handleE (Inr a, s) h = (Inr a, s)"
  by (simp add: handleE_def)

lemma liftE_Inl [simp, outcome_simps]: "liftE (Inl e) s = (Inl e, s)"
  and liftE_Inr [simp, outcome_simps]: "liftE (Inr a) s = (Inr a, s)"
  by (simp_all add: liftE_def)

lemma bindE_eq_Inr:
  "bindE r f = (Inr b, t) \<longleftrightarrow> (\<exists>a s. r = (Inr a, s) \<and> f a s = (Inr b, t))"
  by (auto simp: bindE_def split: prod.splits sum.splits)

lemma bindE_InrE [outcome_elims]:
  assumes "bindE r f = (Inr b, t)"
  obtains a s where "r = (Inr a, s)" and "f a s = (Inr b, t)"
  using assms by (auto simp: bindE_eq_Inr)

text \<open>The workhorse of the invariant proofs: sequencing keeps what both parts keep.\<close>

lemma bindE_preserves:
  assumes "P (snd r)" and "\<And>a s. r = (Inr a, s) \<Longrightarrow> P s \<Longrightarrow> P (snd (f a s))"
  shows "P (snd (bindE r f))"
  using assms by (auto simp: bindE_def split: prod.splits sum.splits)

lemma handleE_preserves:
  assumes "P (snd r)" and "\<And>e s. r = (Inl e, s) \<Longrightarrow> P s \<Longrightarrow> P (snd (h e s))"
  shows "P (snd (handleE r h))"
  using assms by (auto simp: handleE_def split: prod.splits sum.splits)

lemma liftE_eq_Inr: "liftE r s = (Inr a, t) \<longleftrightarrow> r = Inr a \<and> t = s"
  by (auto simp: liftE_def)

lemma snd_liftE [simp]: "snd (liftE r s) = s"
  by (simp add: liftE_def)


subsection \<open>Arrays of optional slots\<close>

text \<open>
  The program keeps its clients and its worker threads in fixed arrays of
  \<^verbatim>\<open>std::optional\<close>. \<open>find_index\<close> is \<^verbatim>\<open>std::find_if\<close> over such an array: the position of the first
  element that satisfies the predicate, or \<open>None\<close> for \<^verbatim>\<open>end()\<close>.
\<close>

fun find_index :: "('a \<Rightarrow> bool) \<Rightarrow> 'a list \<Rightarrow> nat option" where
  "find_index P [] = None"
| "find_index P (x # xs) = (if P x then Some 0 else map_option Suc (find_index P xs))"

lemma find_index_None: "find_index P xs = None \<longleftrightarrow> (\<forall>x \<in> set xs. \<not> P x)"
  by (induction xs) auto

lemma find_index_SomeD:
  assumes "find_index P xs = Some i"
  shows "i < length xs \<and> P (xs ! i) \<and> (\<forall>j < i. \<not> P (xs ! j))"
  using assms
proof (induction xs arbitrary: i)
  case (Cons x xs)
  show ?case
  proof (cases "P x")
    case False
    with Cons.prems obtain k where k: "find_index P xs = Some k" "i = Suc k" by auto
    with Cons.IH [OF k(1)] False show ?thesis by (auto simp: less_Suc_eq_0_disj)
  qed (use Cons.prems in auto)
qed simp

lemma find_index_SomeI:
  assumes "i < length xs" and "P (xs ! i)"
  shows "\<exists>k \<le> i. find_index P xs = Some k"
  using assms
proof (induction xs arbitrary: i)
  case (Cons x xs)
  show ?case
  proof (cases "P x")
    case False
    with Cons.prems obtain j where j: "i = Suc j" by (cases i) auto
    with Cons.prems Cons.IH [of j] False show ?thesis by auto
  qed auto
qed simp

lemma find_index_update:
  "i < length xs \<Longrightarrow> P y \<longleftrightarrow> P (xs ! i) \<Longrightarrow> find_index P (xs[i := y]) = find_index P xs"
  by (induction xs arbitrary: i) (auto simp: nth_Cons split: nat.splits)

definition occupied :: "'a option list \<Rightarrow> nat" where
  "occupied xs = length (filter (\<lambda>x. x \<noteq> None) xs)"

lemma occupied_Nil [simp]: "occupied [] = 0"
  and occupied_Cons [simp]: "occupied (x # xs) = (if x = None then 0 else 1) + occupied xs"
  by (simp_all add: occupied_def)

lemma occupied_replicate_None [simp]: "occupied (replicate n None) = 0"
  by (induction n) simp_all

lemma occupied_le_length: "occupied xs \<le> length xs"
  by (simp add: occupied_def)

lemma occupied_fill:
  "i < length xs \<Longrightarrow> xs ! i = None \<Longrightarrow> occupied (xs[i := Some v]) = Suc (occupied xs)"
  by (induction xs arbitrary: i) (auto simp: nth_Cons split: nat.splits)

lemma occupied_free:
  "i < length xs \<Longrightarrow> xs ! i = Some v \<Longrightarrow> Suc (occupied (xs[i := None])) = occupied xs"
  by (induction xs arbitrary: i) (auto simp: nth_Cons split: nat.splits)

lemma occupied_replace:
  "i < length xs \<Longrightarrow> xs ! i = Some v \<Longrightarrow> occupied (xs[i := Some w]) = occupied xs"
  by (induction xs arbitrary: i) (auto simp: nth_Cons split: nat.splits)

lemma occupied_full_iff: "occupied xs = length xs \<longleftrightarrow> None \<notin> set xs"
proof (induction xs)
  case (Cons x xs)
  then show ?case using occupied_le_length [of xs] by auto
qed simp

lemma occupied_zero_iff: "occupied xs = 0 \<longleftrightarrow> (\<forall>x \<in> set xs. x = None)"
  by (induction xs) auto

lemma occupied_less_ex_None: "occupied xs < length xs \<Longrightarrow> \<exists>i < length xs. xs ! i = None"
  using occupied_full_iff [of xs] by (metis in_set_conv_nth less_irrefl)

lemma option_eqI: "(\<And>x. a = Some x \<longleftrightarrow> b = Some x) \<Longrightarrow> a = b"
  by (cases a; cases b) auto

lemma takeWhile_append_delim [simp]:
  "c \<notin> set xs \<Longrightarrow> takeWhile (\<lambda>x. x \<noteq> c) (xs @ c # ys) = xs"
  by (induction xs) auto

lemma dropWhile_append_delim [simp]:
  "c \<notin> set xs \<Longrightarrow> dropWhile (\<lambda>x. x \<noteq> c) (xs @ c # ys) = c # ys"
  by (induction xs) auto

end
