(* ===== verification/Cxx_Strings.thy ===== *)
theory Cxx_Strings
  imports Prelude
begin

text \<open>
  What the application uses of the C++ standard library's strings: \<^verbatim>\<open>std::to_string\<close> on \<^verbatim>\<open>int\<close>,
  \<^verbatim>\<open>std::stoi\<close>, \<^verbatim>\<open>std::getline\<close> with a delimiter on a string stream, and the conversion of a
  character array to \<^verbatim>\<open>std::string\<close>. Also the failures a call can end in: the exception
  classes the program throws or that the library throws into it, undefined behaviour, and
  a wait that never returns.
\<close>

datatype failure =
    Runtime_error string
  | Server_full string
  | Queue_exception string
  | Client_connection string
  | Thread_managing string
  | Invalid_argument string
  | Out_of_range string
  | Undefined_behaviour string
  | Blocked string

definition INT_MAX :: int where "INT_MAX = 2147483647"
definition INT_MIN :: int where "INT_MIN = - 2147483648"

subsection \<open>Numbers as text\<close>

definition digit_char :: "nat \<Rightarrow> char" where
  "digit_char d = char_of (48 + d)"

definition is_digit :: "char \<Rightarrow> bool" where
  "is_digit c \<longleftrightarrow> 48 \<le> (of_char c :: nat) \<and> (of_char c :: nat) \<le> 57"

definition digit_val :: "char \<Rightarrow> nat" where
  "digit_val c = of_char c - 48"

fun show_nat :: "nat \<Rightarrow> string" where
  "show_nat n = (if n < 10 then [digit_char n] else show_nat (n div 10) @ [digit_char (n mod 10)])"

declare show_nat.simps [simp del]

definition to_string :: "int \<Rightarrow> string" where
  "to_string n = (if n < 0 then CHR ''-'' # show_nat (nat (- n)) else show_nat (nat n))"

text \<open>\<^verbatim>\<open>isspace\<close> in the C locale: blank, and the codes 9 to 13.\<close>

definition is_space :: "char \<Rightarrow> bool" where
  "is_space c \<longleftrightarrow> c = CHR '' '' \<or> (9 \<le> (of_char c :: nat) \<and> (of_char c :: nat) \<le> 13)"

fun read_digits :: "nat \<Rightarrow> string \<Rightarrow> nat" where
  "read_digits acc [] = acc"
| "read_digits acc (c # cs) =
     (if is_digit c then read_digits (10 * acc + digit_val c) cs else acc)"

text \<open>
  \<^verbatim>\<open>std::stoi\<close>: leading white space, an optional sign, then the longest run of digits; what
  follows is ignored. No digit is \<^verbatim>\<open>std::invalid_argument\<close>, a value outside \<^verbatim>\<open>int\<close> is
  \<^verbatim>\<open>std::out_of_range\<close>.
\<close>

definition stoi_sign :: "string \<Rightarrow> bool \<times> string" where
  "stoi_sign s = (case s of
       [] \<Rightarrow> (False, [])
     | c # cs \<Rightarrow> (if c = CHR ''-'' then (True, cs)
                 else if c = CHR ''+'' then (False, cs) else (False, s)))"

definition stoi :: "string \<Rightarrow> failure + int" where
  "stoi s = (let (neg, ds) = stoi_sign (dropWhile is_space s) in
     if ds = [] \<or> \<not> is_digit (hd ds) then Inl (Invalid_argument ''stoi'')
     else let v = (if neg then - int (read_digits 0 ds) else int (read_digits 0 ds)) in
       if v < INT_MIN \<or> INT_MAX < v then Inl (Out_of_range ''stoi'') else Inr v)"

subsection \<open>Streams and character arrays\<close>

text \<open>
  A string stream is the text not yet read and whether the stream is still good.
  \<^verbatim>\<open>std::getline\<close> on a stream that is not good leaves its target alone; otherwise it replaces
  the target by the text up to the delimiter, and running into the end clears the good state.
\<close>

type_synonym istream = "string \<times> bool"

definition getline_delim :: "char \<Rightarrow> istream \<Rightarrow> string \<Rightarrow> string \<times> istream" where
  "getline_delim d st old = (case st of (rest, good) \<Rightarrow>
     if \<not> good then (old, (rest, False))
     else if d \<in> set rest
       then (takeWhile (\<lambda>c. c \<noteq> d) rest, (tl (dropWhile (\<lambda>c. c \<noteq> d) rest), True))
       else (rest, ([], False)))"

text \<open>
  \<^verbatim>\<open>std::string(const char*)\<close> reads up to the first zero byte. An array without one is read
  past its end, which is undefined.
\<close>

definition string_of_array :: "char list \<Rightarrow> failure + string" where
  "string_of_array buf =
     (if CHR 0x00 \<in> set buf then Inr (takeWhile (\<lambda>c. c \<noteq> CHR 0x00) buf)
      else Inl (Undefined_behaviour ''read past the end of a character array''))"

subsection \<open>Lemmas\<close>

lemma of_char_digit_char: "d < 10 \<Longrightarrow> of_char (digit_char d) = 48 + d"
  by (simp add: digit_char_def)

lemma is_digit_digit_char [simp]: "d < 10 \<Longrightarrow> is_digit (digit_char d)"
  by (simp add: is_digit_def of_char_digit_char)

lemma digit_val_digit_char [simp]: "d < 10 \<Longrightarrow> digit_val (digit_char d) = d"
  by (simp add: digit_val_def of_char_digit_char)

lemma show_nat_digits: "c \<in> set (show_nat n) \<Longrightarrow> is_digit c"
proof (induction n rule: show_nat.induct)
  case (1 n)
  then show ?case by (cases "n < 10") (auto simp: show_nat.simps [of n])
qed

lemma show_nat_nonempty [simp]: "show_nat n \<noteq> []"
  by (simp add: show_nat.simps [of n])

lemma hd_show_nat [simp]: "is_digit (hd (show_nat n))"
  by (rule show_nat_digits [of _ n]) simp

lemma read_digits_append:
  "(\<And>c. c \<in> set ds \<Longrightarrow> is_digit c) \<Longrightarrow>
   read_digits acc (ds @ rest) = read_digits (read_digits acc ds) rest"
  by (induction ds arbitrary: acc) auto

lemma read_digits_show_nat: "read_digits 0 (show_nat n) = n"
proof (induction n rule: show_nat.induct)
  case (1 n)
  show ?case
  proof (cases "n < 10")
    case True
    then show ?thesis by (simp add: show_nat.simps [of n])
  next
    case False
    have "read_digits 0 (show_nat (n div 10) @ [digit_char (n mod 10)])
        = read_digits (read_digits 0 (show_nat (n div 10))) [digit_char (n mod 10)]"
      by (rule read_digits_append) (rule show_nat_digits)
    with False "1" show ?thesis by (simp add: show_nat.simps [of n])
  qed
qed

lemma read_digits_stop:
  "(rest = [] \<or> \<not> is_digit (hd rest)) \<Longrightarrow> read_digits acc rest = acc"
  by (cases rest) auto

lemma digit_not_space: "is_digit c \<Longrightarrow> \<not> is_space c"
  by (auto simp: is_digit_def is_space_def)

lemma digit_not_sign: "is_digit c \<Longrightarrow> c \<noteq> CHR ''-'' \<and> c \<noteq> CHR ''+''"
  by (auto simp: is_digit_def)

lemma dropWhile_hd_False: "xs \<noteq> [] \<Longrightarrow> \<not> P (hd xs) \<Longrightarrow> dropWhile P xs = xs"
  by (cases xs) auto

text \<open>
  Reading back what was written, with any text after it that does not start with a digit.
\<close>

lemma stoi_to_string_all:
  assumes rest: "rest = [] \<or> \<not> is_digit (hd rest)"
  shows "stoi (to_string n @ rest) =
     (if n < INT_MIN \<or> INT_MAX < n then Inl (Out_of_range ''stoi'') else Inr n)"
proof -
  let ?ds = "show_nat (nat \<bar>n\<bar>)"
  have rd: "read_digits 0 (?ds @ rest) = nat \<bar>n\<bar>"
    using rest by (simp add: read_digits_append show_nat_digits read_digits_show_nat read_digits_stop)
  have hd: "is_digit (hd (?ds @ rest))" by simp
  show ?thesis
  proof (cases "n < 0")
    case True
    then have ab: "\<bar>n\<bar> = - n" by simp
    have "\<not> is_space CHR ''-''" by (simp add: is_space_def)
    with True rd hd show ?thesis
      by (simp add: stoi_def to_string_def stoi_sign_def ab)
  next
    case False
    have ne: "?ds @ rest \<noteq> []" by simp
    have ds: "dropWhile is_space (?ds @ rest) = ?ds @ rest"
      using ne hd by (intro dropWhile_hd_False) (auto simp del: hd_append2 dest: digit_not_space)
    have "stoi_sign (?ds @ rest) = (False, ?ds @ rest)"
      using ne hd by (cases "?ds @ rest") (auto simp: stoi_sign_def dest: digit_not_sign)
    with False rd hd ds ne show ?thesis
      by (simp add: stoi_def to_string_def)
  qed
qed

lemma stoi_to_string_rest:
  assumes "INT_MIN \<le> n" "n \<le> INT_MAX" "rest = [] \<or> \<not> is_digit (hd rest)"
  shows "stoi (to_string n @ rest) = Inr n"
  using assms by (simp add: stoi_to_string_all)

lemma stoi_to_string_InrD: "stoi (to_string n) = Inr k \<Longrightarrow> k = n"
  using stoi_to_string_all [of "[]" n] by (simp split: if_splits)

lemma stoi_to_string:
  "INT_MIN \<le> n \<Longrightarrow> n \<le> INT_MAX \<Longrightarrow> stoi (to_string n) = Inr n"
  using stoi_to_string_rest [of n "[]"] by simp

lemma to_string_chars: "c \<in> set (to_string n) \<Longrightarrow> is_digit c \<or> c = CHR ''-''"
  by (auto simp: to_string_def dest: show_nat_digits split: if_splits)

lemma to_string_no_nul [simp]: "CHR 0x00 \<notin> set (to_string n)"
  by (auto dest: to_string_chars simp: is_digit_def)

lemma to_string_inj:
  assumes "to_string m = to_string n"
    and "INT_MIN \<le> m" "m \<le> INT_MAX" "INT_MIN \<le> n" "n \<le> INT_MAX"
  shows "m = n"
  using assms stoi_to_string by (metis sum.inject(2))

lemma stoi_bounds: "stoi s = Inr n \<Longrightarrow> INT_MIN \<le> n \<and> n \<le> INT_MAX"
  by (auto simp: stoi_def Let_def split: prod.splits if_splits)

lemma getline_delim_field [simp]:
  "d \<notin> set f \<Longrightarrow> getline_delim d (f @ d # rest, True) old = (f, (rest, True))"
  by (simp add: getline_delim_def)

end
