(* ===== verification/Resources.thy ===== *)
theory Resources
  imports Cxx_Strings
begin

text \<open>
  The constants, actions and colours of \<^verbatim>\<open>include/resources.h\<close>, its exception texts and the
  functions of its namespace \<^verbatim>\<open>utils\<close> that print. What a function writes to the terminal is
  returned as a list of \<open>out_item\<close>s in the order of the writes.
\<close>

subsection \<open>Namespace constants\<close>

definition SERVER_NAME :: string where "SERVER_NAME = ''SERVER''"
definition MAX_LEN :: nat where "MAX_LEN = 512"
definition MAX_NR_OF_THREADS :: nat where "MAX_NR_OF_THREADS = 2"
definition MAX_CLIENTS_PER_THREAD :: nat where "MAX_CLIENTS_PER_THREAD = 3"
definition PORT :: int where "PORT = 8080"
definition LOCALHOST :: string where "LOCALHOST = ''127.0.0.1''"
definition MAX_EVENTS :: nat where "MAX_EVENTS = 20"
definition QUEUE_SIZE :: nat where "QUEUE_SIZE = 128"
definition MAX_CLIENTS :: nat where "MAX_CLIENTS = MAX_NR_OF_THREADS * MAX_CLIENTS_PER_THREAD"
definition NAME_UNINITIALIZED :: string where "NAME_UNINITIALIZED = ''name_uninitialized''"
definition ID_UNINITIALIZED :: string where "ID_UNINITIALIZED = ''id_uninitialized''"
definition ANY_THREAD :: string where "ANY_THREAD = ''any_thread''"
definition QUIT_MSG :: string where "QUIT_MSG = ''#quit''"

datatype actions =
    ACCEPT | ACCEPTED | INIT_REQ | INIT_DONE
  | UNICAST_REPEATED | SV_DISCONNECTED | THR_DISCONNECTED | CL_DISCONNECTED

fun action_index :: "actions \<Rightarrow> nat" where
  "action_index ACCEPT = 0"
| "action_index ACCEPTED = 1"
| "action_index INIT_REQ = 2"
| "action_index INIT_DONE = 3"
| "action_index UNICAST_REPEATED = 4"
| "action_index SV_DISCONNECTED = 5"
| "action_index THR_DISCONNECTED = 6"
| "action_index CL_DISCONNECTED = 7"

definition ACTIONS_ARR :: "string list" where
  "ACTIONS_ARR = [''ACCEPT'', ''ACCEPTED'', ''INIT_REQ'', ''INIT_DONE'', ''UNICAST_REPEATED'',
     ''SV_DISCONNECTED'', ''THR_DISCONNECTED'', ''CL_DISCONNECTED'']"

text \<open>
  The stages of a client's initialisation, integers in the source. \<^verbatim>\<open>constants::INIT_DONE\<close>, the
  stage, is written \<open>INIT_DONE_STATE\<close> here to tell it from the action of the same name.
\<close>

definition MARKED_DISCONNECT :: int where "MARKED_DISCONNECT = - 2"
definition DISCONNECT_STATE :: int where "DISCONNECT_STATE = - 1"
definition INITIAL_STATE :: int where "INITIAL_STATE = 0"
definition REQUESTED_INIT :: int where "REQUESTED_INIT = 1"
definition SENT_INIT_CONFIRMATION :: int where "SENT_INIT_CONFIRMATION = 2"
definition INIT_DONE_STATE :: int where "INIT_DONE_STATE = 3"
definition FINAL_INIT_STAGE :: int where "FINAL_INIT_STAGE = 3"

lemmas size_constants [simp] =
  MAX_LEN_def MAX_NR_OF_THREADS_def MAX_CLIENTS_PER_THREAD_def MAX_EVENTS_def QUEUE_SIZE_def
  MAX_CLIENTS_def

lemmas state_constants =
  MARKED_DISCONNECT_def DISCONNECT_STATE_def INITIAL_STATE_def REQUESTED_INIT_def
  SENT_INIT_CONFIRMATION_def INIT_DONE_STATE_def FINAL_INIT_STAGE_def

subsection \<open>Namespace colors\<close>

datatype colors =
    COL_END | RED | GREEN | YELLOW | BLUE | MAGENTA | CYAN | WHITE
  | BRIGHT_RED | BRIGHT_GREEN | BRIGHT_YELLOW | BRIGHT_BLUE | BRIGHT_MAGENTA | BRIGHT_CYAN
  | BRIGHT_WHITE

fun color_index :: "colors \<Rightarrow> nat" where
  "color_index COL_END = 0"
| "color_index RED = 1"
| "color_index GREEN = 2"
| "color_index YELLOW = 3"
| "color_index BLUE = 4"
| "color_index MAGENTA = 5"
| "color_index CYAN = 6"
| "color_index WHITE = 7"
| "color_index BRIGHT_RED = 8"
| "color_index BRIGHT_GREEN = 9"
| "color_index BRIGHT_YELLOW = 10"
| "color_index BRIGHT_BLUE = 11"
| "color_index BRIGHT_MAGENTA = 12"
| "color_index BRIGHT_CYAN = 13"
| "color_index BRIGHT_WHITE = 14"

definition esc :: "string \<Rightarrow> string" where
  "esc s = CHR 0x1B # s"

definition COLOR_ARR :: "string list" where
  "COLOR_ARR = [esc ''[0m'',
     esc ''[31m'', esc ''[32m'', esc ''[33m'', esc ''[34m'', esc ''[35m'', esc ''[36m'', esc ''[37m'',
     esc ''[91m'', esc ''[92m'', esc ''[93m'', esc ''[94m'', esc ''[95m'', esc ''[96m'', esc ''[97m'']"

subsection \<open>Namespace utils\<close>

text \<open>A text that ends in a line break, as most of the program's messages do.\<close>

definition ln :: "string \<Rightarrow> string" where
  "ln s = s @ [CHR 0x0A]"

datatype out_item = Cout string | Cerr string

text \<open>\<^verbatim>\<open>e.what()\<close> of the exceptions; the last two failures are not exceptions.\<close>

fun what :: "failure \<Rightarrow> string" where
  "what (Runtime_error s) = s"
| "what (Server_full s) = s"
| "what (Queue_exception s) = s"
| "what (Client_connection s) = s"
| "what (Thread_managing s) = s"
| "what (Invalid_argument s) = s"
| "what (Out_of_range s) = s"
| "what (Undefined_behaviour s) = s"
| "what (Blocked s) = s"

fun is_std_exception :: "failure \<Rightarrow> bool" where
  "is_std_exception (Undefined_behaviour _) = False"
| "is_std_exception (Blocked _) = False"
| "is_std_exception _ = True"

definition get_color :: "colors \<Rightarrow> string" where
  "get_color c = COLOR_ARR ! color_index c"

text \<open>The overload on \<^verbatim>\<open>int\<close> indexes the array without a check.\<close>

definition get_color_int :: "int \<Rightarrow> failure + string" where
  "get_color_int i =
     (if 0 \<le> i \<and> i < int (length COLOR_ARR) then Inr (COLOR_ARR ! nat i)
      else Inl (Undefined_behaviour ''COLOR_ARR index out of range''))"

definition get_action :: "actions \<Rightarrow> string" where
  "get_action a = ACTIONS_ARR ! action_index a"

definition cerr_out_err :: "string \<Rightarrow> out_item" where
  "cerr_out_err msg = Cerr (get_color BRIGHT_RED @ msg @ get_color COL_END @ [CHR 0x0A])"

definition cerr_out_warning :: "string \<Rightarrow> out_item" where
  "cerr_out_warning msg = Cerr (get_color YELLOW @ msg @ get_color COL_END @ [CHR 0x0A])"

definition clog_out_notif :: "string \<Rightarrow> out_item" where
  "clog_out_notif msg = Cerr (get_color GREEN @ msg @ get_color COL_END @ [CHR 0x0A])"

subsection \<open>Lemmas\<close>

lemma length_ACTIONS_ARR [simp]: "length ACTIONS_ARR = 8"
  by (simp add: ACTIONS_ARR_def)

lemma length_COLOR_ARR [simp]: "length COLOR_ARR = 15"
  by (simp add: COLOR_ARR_def)

lemma action_index_less: "action_index a < length ACTIONS_ARR"
  by (cases a) simp_all

lemma get_action_simps [simp]:
  "get_action ACCEPT = ''ACCEPT''" "get_action ACCEPTED = ''ACCEPTED''"
  "get_action INIT_REQ = ''INIT_REQ''" "get_action INIT_DONE = ''INIT_DONE''"
  "get_action UNICAST_REPEATED = ''UNICAST_REPEATED''"
  "get_action SV_DISCONNECTED = ''SV_DISCONNECTED''"
  "get_action THR_DISCONNECTED = ''THR_DISCONNECTED''"
  "get_action CL_DISCONNECTED = ''CL_DISCONNECTED''"
  by (simp_all add: get_action_def ACTIONS_ARR_def)

lemma get_action_inj: "get_action a = get_action b \<longleftrightarrow> a = b"
  by (cases a; cases b) simp_all

lemma color_index_less: "color_index c < length COLOR_ARR"
  by (cases c) simp_all

lemma get_color_int_index: "get_color_int (int (color_index c)) = Inr (get_color c)"
  by (cases c) (simp_all add: get_color_int_def get_color_def)

lemma get_color_int_Inr: "0 \<le> i \<Longrightarrow> i \<le> 14 \<Longrightarrow> get_color_int i = Inr (COLOR_ARR ! nat i)"
  by (simp add: get_color_int_def)

end
