(* ===== verification/Messages.thy ===== *)
theory Messages
  imports Resources
begin

text \<open>
  The wire format: \<^verbatim>\<open>struct Server_Message\<close> (\<^verbatim>\<open>include/Messages/Server_Message.h\<close>), eight text
  fields each closed by a separator, the receive buffer \<^verbatim>\<open>struct MessageFrame\<close>
  (\<^verbatim>\<open>include/Messages/MessageFrame.h\<close>) and the printing of a received message.
\<close>

subsection \<open>Server\_Message\<close>

definition split_token :: char where
  "split_token = CHR ''`''"

definition nr_of_separations :: int where
  "nr_of_separations = 8"

record server_message =
  sm_thread_number :: string
  sm_action :: string
  sm_fd :: string
  sm_id :: string
  sm_name :: string
  sm_color_id :: string
  sm_init_done :: string
  sm_msg_content :: string

definition empty_message :: server_message where
  "empty_message = \<lparr>sm_thread_number = [], sm_action = [], sm_fd = [], sm_id = [], sm_name = [],
     sm_color_id = [], sm_init_done = [], sm_msg_content = []\<rparr>"

definition get_concatenated_msg :: "server_message \<Rightarrow> string" where
  "get_concatenated_msg m =
     sm_thread_number m @ split_token # sm_action m @ split_token # sm_fd m @ split_token #
     sm_id m @ split_token # sm_name m @ split_token # sm_color_id m @ split_token #
     sm_init_done m @ split_token # sm_msg_content m @ [split_token]"

definition reset_msg :: "server_message \<Rightarrow> server_message" where
  "reset_msg m = m\<lparr>sm_thread_number := [], sm_action := [], sm_fd := [], sm_id := [], sm_name := [],
     sm_color_id := [], sm_init_done := [], sm_msg_content := []\<rparr>"

definition init_all_fields ::
  "string \<Rightarrow> string \<Rightarrow> string \<Rightarrow> string \<Rightarrow> string \<Rightarrow> string \<Rightarrow> string \<Rightarrow> string \<Rightarrow>
   server_message \<Rightarrow> server_message" where
  "init_all_fields thr_nr action fd cid name color init_done msg_content m =
     m\<lparr>sm_thread_number := thr_nr, sm_action := action, sm_fd := fd, sm_id := cid, sm_name := name,
       sm_color_id := color, sm_init_done := init_done, sm_msg_content := msg_content\<rparr>"

text \<open>\<^verbatim>\<open>std::accumulate\<close> over the text, counting separators.\<close>

definition count_separators :: "string \<Rightarrow> int" where
  "count_separators str = foldl (\<lambda>a b. if b = split_token then a + 1 else a) 0 str"

text \<open>The check comes before the first field is written, so a rejected text changes nothing.\<close>

definition construct_from_string :: "string \<Rightarrow> server_message \<Rightarrow> failure + server_message" where
  "construct_from_string str m =
     (if count_separators str \<noteq> nr_of_separations
      then Inl (Runtime_error (ln ''Error in message construction. Invalid Msg format''))
      else
        let (f1, s) = getline_delim split_token (str, True) (sm_thread_number m);
            (f2, s) = getline_delim split_token s (sm_action m);
            (f3, s) = getline_delim split_token s (sm_fd m);
            (f4, s) = getline_delim split_token s (sm_id m);
            (f5, s) = getline_delim split_token s (sm_name m);
            (f6, s) = getline_delim split_token s (sm_color_id m);
            (f7, s) = getline_delim split_token s (sm_init_done m);
            (f8, s) = getline_delim split_token s (sm_msg_content m)
        in Inr (m\<lparr>sm_thread_number := f1, sm_action := f2, sm_fd := f3, sm_id := f4, sm_name := f5,
                  sm_color_id := f6, sm_init_done := f7, sm_msg_content := f8\<rparr>))"

subsection \<open>MessageFrame\<close>

text \<open>
  The buffer has \<open>MAX_LEN\<close> bytes. It is never initialised where it is declared, so its first
  contents are arbitrary. \<open>recv_into\<close> is what \<^verbatim>\<open>recv(fd, &msg, msg_len, 0)\<close> does to it when it
  delivers the bytes \<open>data\<close>: the front is overwritten and nothing is appended.
\<close>

record message_frame =
  mf_msg :: "char list"
  mf_msg_len :: int

definition clear_msg :: "message_frame \<Rightarrow> message_frame" where
  "clear_msg f = f\<lparr>mf_msg := replicate (length (mf_msg f)) (CHR 0x00)\<rparr>"

definition recv_into :: "string \<Rightarrow> message_frame \<Rightarrow> message_frame" where
  "recv_into data f = f\<lparr>mf_msg := data @ drop (length data) (mf_msg f)\<rparr>"

definition frame_wf :: "message_frame \<Rightarrow> bool" where
  "frame_wf f \<longleftrightarrow> length (mf_msg f) = MAX_LEN \<and> mf_msg_len f = int MAX_LEN"

subsection \<open>Printing a message\<close>

text \<open>
  \<^verbatim>\<open>utils::stdout_formatted_msg\<close>. Both colours are looked up before anything is printed; a
  \<^verbatim>\<open>stoi\<close> exception is caught and reported, an index outside the colour table is not.
\<close>

definition stdout_formatted_msg :: "server_message \<Rightarrow> int \<Rightarrow> failure + out_item list" where
  "stdout_formatted_msg msg old_color_code =
     (if sm_action msg = get_action UNICAST_REPEATED then
        (case stoi (sm_color_id msg) of
           Inl e \<Rightarrow> Inr [cerr_out_err (what e)]
         | Inr c \<Rightarrow>
            (case get_color_int c of
               Inl e \<Rightarrow> Inl e
             | Inr col \<Rightarrow>
                (case get_color_int old_color_code of
                   Inl e \<Rightarrow> Inl e
                 | Inr old_col \<Rightarrow>
                     let C_E = get_color COL_END in
                     Inr ((if sm_name msg \<noteq> SERVER_NAME
                           then [Cout (C_E @ col @ sm_id msg @ ''-'' @ C_E @ old_col)] else [])
                          @ [Cout (C_E @ col @ sm_name msg @ '': '' @ sm_msg_content msg @ C_E
                                   @ old_col @ [CHR 0x0A])]))))
      else Inr [])"

subsection \<open>Counting separators\<close>

lemma foldl_count:
  "foldl (\<lambda>a b. if b = d then a + 1 else a) (k::int) s = k + int (count_list s d)"
  by (induction s arbitrary: k) auto

lemma count_separators_eq: "count_separators s = int (count_list s split_token)"
  by (simp add: count_separators_def foldl_count)

text \<open>The fields of a message, and the messages a field can be sent in.\<close>

definition fields :: "server_message \<Rightarrow> string list" where
  "fields m = [sm_thread_number m, sm_action m, sm_fd m, sm_id m, sm_name m, sm_color_id m,
     sm_init_done m, sm_msg_content m]"

definition sendable :: "server_message \<Rightarrow> bool" where
  "sendable m \<longleftrightarrow> (\<forall>f \<in> set (fields m). split_token \<notin> set f)"

lemma sendable_iff:
  "sendable m \<longleftrightarrow>
     split_token \<notin> set (sm_thread_number m) \<and> split_token \<notin> set (sm_action m) \<and>
     split_token \<notin> set (sm_fd m) \<and> split_token \<notin> set (sm_id m) \<and>
     split_token \<notin> set (sm_name m) \<and> split_token \<notin> set (sm_color_id m) \<and>
     split_token \<notin> set (sm_init_done m) \<and> split_token \<notin> set (sm_msg_content m)"
  by (simp add: sendable_def fields_def)

lemma count_concatenated:
  "count_list (get_concatenated_msg m) split_token
     = 8 + sum_list (map (\<lambda>f. count_list f split_token) (fields m))"
  by (simp add: get_concatenated_msg_def fields_def)

lemma concatenated_sum_zero_iff:
  "sum_list (map (\<lambda>f. count_list f split_token) (fields m)) = 0 \<longleftrightarrow> sendable m"
  by (simp add: sendable_iff fields_def count_list_0_iff)

lemma construct_rejects_iff:
  "(\<exists>e. construct_from_string s m = Inl e) \<longleftrightarrow> count_list s split_token \<noteq> 8"
  by (auto simp: construct_from_string_def count_separators_eq nr_of_separations_def Let_def
      split: prod.splits)

lemma construct_concatenated:
  assumes "sendable m" and "split_token \<notin> set junk"
  shows "construct_from_string (get_concatenated_msg m @ junk) m0 = Inr m"
proof -
  from assms have "count_list (get_concatenated_msg m @ junk) split_token = 8"
    using concatenated_sum_zero_iff [of m] by (simp add: count_concatenated count_list_0_iff)
  with assms(1) show ?thesis
    by (simp add: construct_from_string_def count_separators_eq nr_of_separations_def
        get_concatenated_msg_def sendable_iff)
qed

lemma construct_of_concatenated:
  "construct_from_string (get_concatenated_msg m) m0 =
     (if sendable m then Inr m
      else Inl (Runtime_error (ln ''Error in message construction. Invalid Msg format'')))"
proof (cases "sendable m")
  case True
  with construct_concatenated [of m "[]" m0] show ?thesis by simp
next
  case False
  then have "count_list (get_concatenated_msg m) split_token \<noteq> 8"
    using concatenated_sum_zero_iff [of m] by (simp add: count_concatenated)
  with False show ?thesis
    by (simp add: construct_from_string_def count_separators_eq nr_of_separations_def)
qed

lemma get_concatenated_inj:
  assumes "sendable m" "sendable n" "get_concatenated_msg m = get_concatenated_msg n"
  shows "m = n"
  using construct_concatenated [OF assms(1), of "[]" m] construct_concatenated [OF assms(2), of "[]" m]
    assms(3) by simp

lemma reset_msg_empty: "reset_msg m = empty_message"
  by (simp add: reset_msg_def empty_message_def)

lemma split_token_simps: "split_token \<notin> set (to_string n)" "split_token \<notin> set (get_action a)"
proof -
  have "\<not> (is_digit split_token \<or> split_token = CHR ''-'')"
    by (simp add: split_token_def is_digit_def)
  then show "split_token \<notin> set (to_string n)" using to_string_chars by blast
  show "split_token \<notin> set (get_action a)" by (cases a) (simp_all add: split_token_def)
qed

text \<open>Reading fields off a text with enough separators: the text splits at the first one.\<close>

lemma split_at_token:
  assumes "count_list s d = Suc n"
  obtains f r where "s = f @ d # r" and "d \<notin> set f" and "count_list r d = n"
proof -
  from assms have "d \<in> set s" using count_list_0_iff [of s d] by auto
  then obtain f r where s: "s = f @ d # r" "d \<notin> set f" by (metis split_list_first)
  with assms have "count_list r d = n" by (simp add: count_list_0_iff [THEN iffD2])
  with s show thesis using that by blast
qed

lemma split_into_fields:
  "count_list s d = n \<Longrightarrow>
   \<exists>fs junk. length fs = n \<and> (\<forall>f \<in> set fs. d \<notin> set f) \<and> d \<notin> set junk \<and>
     s = concat (map (\<lambda>f. f @ [d]) fs) @ junk"
proof (induction n arbitrary: s)
  case 0
  then show ?case by (intro exI [of _ "[]"] exI [of _ s]) (simp add: count_list_0_iff)
next
  case (Suc n)
  from Suc.prems obtain f r where s: "s = f @ d # r" "d \<notin> set f" "count_list r d = n"
    by (rule split_at_token)
  from Suc.IH [OF s(3)] obtain fs junk where "length fs = n" "\<forall>g \<in> set fs. d \<notin> set g"
    "d \<notin> set junk" "r = concat (map (\<lambda>f. f @ [d]) fs) @ junk" by blast
  with s show ?case by (intro exI [of _ "f # fs"] exI [of _ junk]) simp
qed

lemma construct_splits:
  assumes "count_list s split_token = 8"
  obtains m junk where "sendable m" and "split_token \<notin> set junk"
    and "s = get_concatenated_msg m @ junk"
proof -
  obtain fs junk where fs: "length fs = 8" "\<forall>f \<in> set fs. split_token \<notin> set f"
    and junk: "split_token \<notin> set junk" "s = concat (map (\<lambda>f. f @ [split_token]) fs) @ junk"
    using split_into_fields [OF assms] by blast
  from fs(1) obtain f1 f2 f3 f4 f5 f6 f7 f8 where e: "fs = [f1, f2, f3, f4, f5, f6, f7, f8]"
    by (auto simp: numeral_eq_Suc length_Suc_conv)
  let ?m = "\<lparr>sm_thread_number = f1, sm_action = f2, sm_fd = f3, sm_id = f4, sm_name = f5,
     sm_color_id = f6, sm_init_done = f7, sm_msg_content = f8\<rparr>"
  have "sendable ?m" using fs(2) by (simp add: sendable_iff e)
  moreover have "s = get_concatenated_msg ?m @ junk"
    using junk(2) by (simp add: e get_concatenated_msg_def)
  ultimately show thesis using junk(1) that by blast
qed

lemma construct_Inr_iff:
  "construct_from_string s m0 = Inr m \<longleftrightarrow>
     sendable m \<and> (\<exists>junk. split_token \<notin> set junk \<and> s = get_concatenated_msg m @ junk)"
proof
  assume r: "construct_from_string s m0 = Inr m"
  then have "count_list s split_token = 8" using construct_rejects_iff [of s m0] by auto
  then obtain n junk where n: "sendable n" "split_token \<notin> set junk"
    "s = get_concatenated_msg n @ junk" by (rule construct_splits)
  with r construct_concatenated [OF n(1,2), of m0] have "n = m" by simp
  with n show "sendable m \<and> (\<exists>junk. split_token \<notin> set junk \<and> s = get_concatenated_msg m @ junk)"
    by blast
qed (auto simp: construct_concatenated)

subsection \<open>The receive buffer\<close>

lemma frame_wf_clear [simp]: "frame_wf f \<Longrightarrow> frame_wf (clear_msg f)"
  by (simp add: frame_wf_def clear_msg_def)

lemma frame_wf_recv [simp]:
  "frame_wf f \<Longrightarrow> length data \<le> MAX_LEN \<Longrightarrow> frame_wf (recv_into data f)"
  by (simp add: frame_wf_def recv_into_def)

lemma string_of_zeros:
  assumes "CHR 0x00 \<notin> set data" and "0 < n"
  shows "string_of_array (data @ replicate n (CHR 0x00)) = Inr data"
  using assms by (cases n) (simp_all add: string_of_array_def)

lemma string_of_cleared:
  assumes "frame_wf f" and "CHR 0x00 \<notin> set data" and "length data < MAX_LEN"
  shows "string_of_array (mf_msg (recv_into data (clear_msg f))) = Inr data"
  using assms by (simp add: recv_into_def clear_msg_def frame_wf_def string_of_zeros)

text \<open>
  The frame of a thread is not initialised, so what stands behind the first bytes read into it can
  be anything. The text taken from the frame is the bytes read and what follows up to the first
  zero byte; \<open>clean_behind\<close> says that there is one and that no separator comes before it.
\<close>

definition clean_behind :: "nat \<Rightarrow> message_frame \<Rightarrow> bool" where
  "clean_behind n f \<longleftrightarrow> CHR 0x00 \<in> set (drop n (mf_msg f)) \<and>
     split_token \<notin> set (takeWhile (\<lambda>c. c \<noteq> CHR 0x00) (drop n (mf_msg f)))"

lemma clean_behind_cleared: "frame_wf f \<Longrightarrow> n < MAX_LEN \<Longrightarrow> clean_behind n (clear_msg f)"
  by (simp add: clean_behind_def clear_msg_def frame_wf_def takeWhile_eq_Nil_iff)

lemma frame_text:
  assumes "CHR 0x00 \<notin> set b"
  shows "string_of_array (mf_msg (recv_into b f)) =
    (if CHR 0x00 \<in> set (drop (length b) (mf_msg f))
     then Inr (b @ takeWhile (\<lambda>c. c \<noteq> CHR 0x00) (drop (length b) (mf_msg f)))
     else Inl (Undefined_behaviour ''read past the end of a character array''))"
  using assms by (auto simp: string_of_array_def recv_into_def takeWhile_append)

text \<open>What the parser makes of the bytes of one message read into a frame: the message if the frame
  is clean behind them, a failure otherwise.\<close>

definition frame_message :: "string \<Rightarrow> message_frame \<Rightarrow> failure + server_message" where
  "frame_message b f = (case string_of_array (mf_msg (recv_into b f)) of
      Inl e \<Rightarrow> Inl e | Inr str \<Rightarrow> construct_from_string str empty_message)"

lemma frame_message_outcome:
  assumes "sendable m" "CHR 0x00 \<notin> set (get_concatenated_msg m)"
  shows "frame_message (get_concatenated_msg m) f =
    (if clean_behind (length (get_concatenated_msg m)) f then Inr m
     else if CHR 0x00 \<in> set (drop (length (get_concatenated_msg m)) (mf_msg f))
     then Inl (Runtime_error (ln ''Error in message construction. Invalid Msg format''))
     else Inl (Undefined_behaviour ''read past the end of a character array''))"
proof -
  let ?b = "get_concatenated_msg m" and ?junk = "takeWhile (\<lambda>c. c \<noteq> CHR 0x00) (drop (length (get_concatenated_msg m)) (mf_msg f))"
  have "construct_from_string (?b @ ?junk) empty_message = Inl (Runtime_error (ln ''Error in message construction. Invalid Msg format''))"
    if "split_token \<in> set ?junk"
  proof -
    have "count_list ?b split_token = 8"
      using construct_rejects_iff [of ?b m] assms(1) by (auto simp: construct_of_concatenated)
    moreover have "count_list ?junk split_token \<noteq> 0" using that by (simp add: count_list_0_iff)
    ultimately show ?thesis
      by (simp add: construct_from_string_def count_separators_eq nr_of_separations_def)
  qed
  then show ?thesis
    using assms construct_concatenated [OF assms(1), of ?junk empty_message]
    by (auto simp: frame_message_def frame_text clean_behind_def)
qed

subsection \<open>Properties of the wire format\<close>

text \<open>C8: what one side sends the other side reads back field by field exactly when no field
  holds the separator; a field with a separator in it (a name or a chat line typed with a
  back-quote) makes the receiver throw, whatever message object it parses into.\<close>

theorem message_roundtrip:
  "construct_from_string (get_concatenated_msg m) m0 =
     (if sendable m then Inr m
      else Inl (Runtime_error (ln ''Error in message construction. Invalid Msg format'')))"
  by (rule construct_of_concatenated)

text \<open>The parser accepts exactly the texts that are a sendable message followed by any
  text without a separator, and returns that message: the fields are never mixed up and
  nothing of the previous object survives.\<close>

theorem parser_accepts_iff:
  "construct_from_string s m0 = Inr m \<longleftrightarrow>
     sendable m \<and> (\<exists>junk. split_token \<notin> set junk \<and> s = get_concatenated_msg m @ junk)"
  by (rule construct_Inr_iff)

text \<open>C27: TCP keeps no message boundaries. Two messages delivered by one \<open>recv\<close> are
  rejected together, and so is a message cut anywhere before its last byte: no message is
  ever taken apart wrongly, but coalesced and split messages are lost.\<close>

theorem coalesced_or_cut_rejected:
  assumes "sendable m" and "k < length (get_concatenated_msg m)"
  shows "(\<exists>e. construct_from_string (get_concatenated_msg m @ get_concatenated_msg n) m0 = Inl e)
    \<and> (\<exists>e. construct_from_string (take k (get_concatenated_msg m)) m0 = Inl e)"
proof -
  let ?w = "get_concatenated_msg m"
  have "?w \<noteq> []" and last: "last ?w = split_token" by (simp_all add: get_concatenated_msg_def)
  then obtain w where w: "?w = w @ [split_token]" by (metis append_butlast_last_id)
  from assms(1) have eight: "count_list ?w split_token = 8"
    using concatenated_sum_zero_iff [of m] by (simp add: count_concatenated)
  from w assms(2) have "take k ?w = take k w" by simp
  moreover have "count_list (take k w) split_token \<le> count_list w split_token"
    by (metis append_take_drop_id count_list_append le_add1)
  ultimately have "count_list (take k ?w) split_token \<noteq> 8" using eight w by simp
  moreover have "count_list (?w @ get_concatenated_msg n) split_token \<noteq> 8"
    using eight by (simp add: count_concatenated)
  ultimately show ?thesis by (simp add: construct_rejects_iff)
qed

definition sample_message :: server_message where
  "sample_message = empty_message\<lparr>sm_action := ''UNICAST_REPEATED'', sm_id := ''3'',
     sm_name := ''ann'', sm_color_id := ''4'', sm_msg_content := ''hi''\<rparr>"

theorem coalesced_or_cut_rejected_witness:
  "(\<exists>e. construct_from_string
      (get_concatenated_msg sample_message @ get_concatenated_msg empty_message) empty_message = Inl e)
   \<and> (\<exists>e. construct_from_string (take 5 (get_concatenated_msg sample_message)) empty_message = Inl e)"
  by (rule coalesced_or_cut_rejected)
    (simp_all add: sample_message_def empty_message_def sendable_iff split_token_def
      get_concatenated_msg_def)

text \<open>C28: a frame that was cleared delivers exactly the received bytes when they fit with
  their terminator (fewer than \<open>MAX_LEN\<close> bytes, none of them zero); when a read fills the
  whole buffer with nonzero bytes the conversion reads past the end of the array.\<close>

theorem frame_delivers_or_overreads:
  assumes "frame_wf f" and "CHR 0x00 \<notin> set data" and "length data \<le> MAX_LEN"
  shows "string_of_array (mf_msg (recv_into data (clear_msg f))) =
     (if length data < MAX_LEN then Inr data
      else Inl (Undefined_behaviour ''read past the end of a character array''))"
proof (cases "length data < MAX_LEN")
  case False
  with assms have "mf_msg (recv_into data (clear_msg f)) = data"
    by (simp add: recv_into_def clear_msg_def frame_wf_def)
  with False assms(2) show ?thesis by (simp add: string_of_array_def)
qed (use assms string_of_cleared in simp)

theorem frame_delivers_or_overreads_witness:
  "string_of_array (mf_msg (recv_into (replicate 512 CHR ''x'')
      (clear_msg \<lparr>mf_msg = replicate 512 CHR ''?'', mf_msg_len = 512\<rparr>)))
     = Inl (Undefined_behaviour ''read past the end of a character array'')"
  by (subst frame_delivers_or_overreads) (simp_all add: frame_wf_def)

end
