(* ===== verification/Queue_Index.thy ===== *)
theory Queue_Index
  imports Prelude
begin

unbundle bit_operations_syntax

text \<open>
  The index arithmetic of the lock-free queue (\<^verbatim>\<open>namespace details\<close> of
  \<^verbatim>\<open>include/Atomic_queue/atomic_queue.h\<close>): the bit swap that spreads neighbouring slots over
  cache lines, and the rounding of a size to a power of two. \<^verbatim>\<open>unsigned\<close> is a 32-bit word.
\<close>

type_synonym u32 = "32 word"
type_synonym u64 = "64 word"

definition CACHE_LINE_SIZE :: nat where
  "CACHE_LINE_SIZE = 64"

definition GetCacheLineIndexBits :: "nat \<Rightarrow> nat" where
  "GetCacheLineIndexBits elements_per_cache_line =
     (if elements_per_cache_line = 256 then 8
      else if elements_per_cache_line = 128 then 7
      else if elements_per_cache_line = 64 then 6
      else if elements_per_cache_line = 32 then 5
      else if elements_per_cache_line = 16 then 4
      else if elements_per_cache_line = 8 then 3
      else if elements_per_cache_line = 4 then 2
      else if elements_per_cache_line = 2 then 1
      else 0)"

definition GetIndexShuffleBits :: "bool \<Rightarrow> u32 \<Rightarrow> nat \<Rightarrow> nat" where
  "GetIndexShuffleBits minimize_contention array_size elements_per_cache_line =
     (if minimize_contention then
        let bits = GetCacheLineIndexBits elements_per_cache_line;
            min_size = push_bit (bits * 2) 1
        in if array_size < min_size then 0 else bits
      else 0)"

definition remap_index :: "nat \<Rightarrow> u32 \<Rightarrow> u32" where
  "remap_index BITS index =
     (if BITS = 0 then index
      else let mix_mask = push_bit BITS 1 - 1;
               mix = (index XOR drop_bit BITS index) AND mix_mask
           in index XOR mix XOR push_bit BITS mix)"

definition decrement :: "'n::len word \<Rightarrow> 'n word" where
  "decrement x = x - 1"

definition increment :: "'n::len word \<Rightarrow> 'n word" where
  "increment x = x + 1"

fun or_equal :: "'n::len word \<Rightarrow> nat list \<Rightarrow> 'n word" where
  "or_equal x [] = x"
| "or_equal x (u # rest) = or_equal (x OR drop_bit u x) rest"

definition round_up_to_power_of_2 :: "u32 \<Rightarrow> u32" where
  "round_up_to_power_of_2 a = increment (or_equal (decrement a) [1, 2, 4, 8, 16])"

definition round_up_to_power_of_2_64 :: "u64 \<Rightarrow> u64" where
  "round_up_to_power_of_2_64 a = increment (or_equal (decrement a) [1, 2, 4, 8, 16, 32])"

subsection \<open>The bit swap\<close>

lemma bit_remap_index:
  assumes "2 * b \<le> 32"
  shows "bit (remap_index b i) n \<longleftrightarrow>
     (if n < b then bit i (n + b) else if n < 2 * b then bit i (n - b) else bit i n)"
proof -
  have m: "2 ^ b - 1 = (mask b :: u32)" by (simp add: mask_eq_exp_minus_1)
  show ?thesis
  proof (cases "n < 32")
    case True
    then show ?thesis using assms
      by (auto simp: remap_index_def Let_def m bit_xor_iff bit_and_iff bit_push_bit_iff
          bit_drop_bit_eq bit_mask_iff add.commute)
  next
    case False
    then have "\<not> bit (remap_index b i) n" using bit_imp_le_length [of "remap_index b i" n] by auto
    moreover have "\<not> bit i n" using False bit_imp_le_length [of i n] by auto
    ultimately show ?thesis using assms False by auto
  qed
qed

lemma remap_index_involution: "2 * b \<le> 32 \<Longrightarrow> remap_index b (remap_index b i) = i"
  by (rule bit_eqI) (auto simp: bit_remap_index)

lemma word_less_exp_iff_bits:
  fixes i :: u32
  assumes "k < 32"
  shows "unat i < 2 ^ k \<longleftrightarrow> (\<forall>n \<ge> k. \<not> bit i n)"
proof
  assume "unat i < 2 ^ k"
  then have "take_bit k i = i"
    by (metis take_bit_nat_eq_self unsigned_take_bit_eq word_unat_eq_iff)
  then show "\<forall>n \<ge> k. \<not> bit i n" by (metis bit_take_bit_iff not_le)
next
  assume "\<forall>n \<ge> k. \<not> bit i n"
  then have "take_bit k i = i" by (intro bit_word_eqI) (metis bit_take_bit_iff not_le)
  then show "unat i < 2 ^ k" by (metis take_bit_nat_less_exp unsigned_take_bit_eq)
qed

lemma remap_index_less:
  assumes "k < 32" "2 * b \<le> k" "unat i < 2 ^ k"
  shows "unat (remap_index b i) < 2 ^ k"
  using assms by (auto simp: word_less_exp_iff_bits bit_remap_index)

lemma remap_index_inj:
  "2 * b \<le> 32 \<Longrightarrow> remap_index b i = remap_index b j \<longleftrightarrow> i = j"
  by (metis remap_index_involution)

subsection \<open>Rounding up\<close>

text \<open>\<open>smeared j x y\<close>: every bit of \<open>y\<close> is the disjunction of the \<open>j\<close> bits of \<open>x\<close> from there up.\<close>

definition smeared :: "nat \<Rightarrow> 'n::len word \<Rightarrow> 'n word \<Rightarrow> bool" where
  "smeared j x y \<longleftrightarrow> (\<forall>n. bit y n \<longleftrightarrow> (\<exists>m < j. bit x (n + m)))"

lemma smeared_start: "smeared 1 x x"
  by (simp add: smeared_def)

lemma smeared_double:
  assumes "smeared j x y"
  shows "smeared (2 * j) x (y OR drop_bit j y)"
  unfolding smeared_def
proof (intro allI)
  fix n
  have "(\<exists>m < 2 * j. bit x (n + m)) \<longleftrightarrow>
      (\<exists>m < j. bit x (n + m)) \<or> (\<exists>m < j. bit x (n + j + m))" (is "?L \<longleftrightarrow> ?R")
  proof
    assume ?L
    then obtain m where m: "m < 2 * j" "bit x (n + m)" by blast
    show ?R
    proof (cases "m < j")
      case False
      with m show ?thesis by (intro disjI2 exI [of _ "m - j"]) auto
    qed (use m in blast)
  next
    assume ?R
    then show ?L
    proof (elim disjE exE conjE)
      fix m assume "m < j" "bit x (n + m)"
      then show ?L by (intro exI [of _ m]) simp
    next
      fix m assume "m < j" "bit x (n + j + m)"
      then show ?L by (intro exI [of _ "j + m"]) (simp add: add.assoc)
    qed
  qed
  with assms show "bit (y OR drop_bit j y) n \<longleftrightarrow> (\<exists>m < 2 * j. bit x (n + m))"
    by (simp add: smeared_def bit_or_iff bit_drop_bit_eq add.commute)
qed

lemma smeared_or_equal_32: "smeared 32 x (or_equal x [1, 2, 4, 8, 16])"
  using smeared_double [OF smeared_double [OF smeared_double [OF smeared_double
        [OF smeared_double [OF smeared_start]]]]] by simp

lemma smeared_or_equal_64: "smeared 64 x (or_equal x [1, 2, 4, 8, 16, 32])"
  using smeared_double [OF smeared_double [OF smeared_double [OF smeared_double
        [OF smeared_double [OF smeared_double [OF smeared_start]]]]]] by simp

lemma top_bit:
  fixes x :: "'n::len word"
  assumes "x \<noteq> 0"
  obtains k where "k < LENGTH('n)" "bit x k" "\<And>n. bit x n \<Longrightarrow> n \<le> k"
    "2 ^ k \<le> unat x" "unat x < 2 ^ Suc k"
proof -
  let ?B = "{n. bit x n}"
  have fin: "finite ?B"
    by (rule finite_subset [of _ "{..<LENGTH('n)}"]) (auto dest: bit_imp_le_length)
  have ne: "?B \<noteq> {}" using assms by (auto simp: bit_eq_iff)
  define k where "k = Max ?B"
  have k: "bit x k" using Max_in [OF fin ne] by (simp add: k_def)
  have above: "n \<le> k" if "bit x n" for n using Max_ge [OF fin] that by (simp add: k_def)
  have len: "k < LENGTH('n)" using k by (rule bit_imp_le_length)
  have "take_bit (Suc k) x = x" using above by (intro bit_eqI) (auto simp: bit_take_bit_iff less_Suc_eq_le)
  then have up: "unat x < 2 ^ Suc k" by (metis take_bit_nat_less_exp unsigned_take_bit_eq)
  have "bit (unat x) k" using k by (simp add: bit_unsigned_iff)
  then have "\<not> unat x < 2 ^ k" by (metis bit_take_bit_iff less_irrefl take_bit_nat_eq_self)
  with k above len up that show thesis by force
qed

lemma smeared_mask:
  fixes x :: "'n::len word"
  assumes "smeared LENGTH('n) x y" "bit x k" "\<And>n. bit x n \<Longrightarrow> n \<le> k"
  shows "y = mask (Suc k)"
proof (rule bit_word_eqI)
  fix n
  assume "n < LENGTH('n)"
  have "k < LENGTH('n)" using assms(2) by (rule bit_imp_le_length)
  have "bit y n \<longleftrightarrow> n \<le> k"
  proof
    assume "bit y n"
    then show "n \<le> k" using assms(1,3) by (fastforce simp: smeared_def)
  next
    assume "n \<le> k"
    with \<open>k < LENGTH('n)\<close> assms(2) have "\<exists>m < LENGTH('n). bit x (n + m)"
      by (intro exI [of _ "k - n"]) auto
    then show "bit y n" using assms(1) by (simp add: smeared_def)
  qed
  with \<open>n < LENGTH('n)\<close> show "bit y n \<longleftrightarrow> bit (mask (Suc k) :: 'n word) n"
    by (simp add: bit_mask_iff less_Suc_eq_le)
qed

lemma increment_smeared:
  fixes a :: "'n::len word"
  assumes a: "2 \<le> unat a" and sm: "smeared LENGTH('n) (a - 1) y"
  obtains k where "k < LENGTH('n)" "2 ^ k < unat a" "unat a \<le> 2 ^ Suc k" "y + 1 = 2 ^ Suc k"
proof -
  have ua: "unat (a - 1) = unat a - 1" using a by (subst unat_minus_one) auto
  then have "a - 1 \<noteq> 0" using a by (metis One_nat_def diff_is_0_eq not_less_eq_eq numeral_2_eq_2 unat_0)
  then obtain k where k: "k < LENGTH('n)" "bit (a - 1) k" "\<And>n. bit (a - 1) n \<Longrightarrow> n \<le> k"
    "2 ^ k \<le> unat (a - 1)" "unat (a - 1) < 2 ^ Suc k" by (rule top_bit) blast
  have "y = mask (Suc k)" using sm k(2,3) by (rule smeared_mask)
  then have "y + 1 = 2 ^ Suc k" by (simp add: mask_eq_exp_minus_1)
  with k ua a that show thesis by force
qed

end
