(* ===== verification/Os_Model.thy ===== *)
theory Os_Model
  imports Messages Queue_Index
begin

text \<open>
  The system calls the program makes. None of them is code of the repository, so each is a
  parameter: a field of the record \<open>os\<close>, a function of the history of events so far and of the
  call's arguments. A result may therefore differ between two equal calls, and any behaviour
  of the kernel is one value of the record. Every state of the model carries the history
  \<open>hist\<close> of the calls and prints made, oldest first, which is also what an observer sees.
\<close>

datatype errno = EAGAIN | EWOULDBLOCK | OTHER_ERRNO

datatype os_event =
    Ev_socket int
  | Ev_close int
  | Ev_send int string int
  | Ev_recv int int
  | Ev_accept4 int
  | Ev_fcntl int
  | Ev_setfl int int
  | Ev_setup
  | Ev_eventfd int
  | Ev_write_evfd int int
  | Ev_read_evfd int int
  | Ev_epoll_create int
  | Ev_epoll_add int int u32
  | Ev_epoll_wait int
  | Ev_random int
  | Ev_stdin "string option"
  | Ev_print out_item
  | Ev_spawn_worker int int int int int
  | Ev_join_worker nat
  | Ev_kill int
  | Ev_signal
  | Ev_fork int
  | Ev_exec "string list"
  | Ev_popen string
  | Ev_getifaddrs int

text \<open>A network interface: without an address, of another family, or with an IPv4 address, as the
  text the conversion gives for it, if it gives one.\<close>

datatype iface = No_address | Other_family | Ipv4 "string option"

type_synonym history = "os_event list"

record os =
  sys_inet_pton :: "history \<Rightarrow> string \<Rightarrow> int"
  sys_socket :: "history \<Rightarrow> int"
  sys_setsockopt :: "history \<Rightarrow> int"
  sys_bind :: "history \<Rightarrow> int"
  sys_listen :: "history \<Rightarrow> int"
  sys_connect :: "history \<Rightarrow> int"
  sys_accept4 :: "history \<Rightarrow> int \<Rightarrow> int \<times> errno"
  sys_fcntl_getfl :: "history \<Rightarrow> int \<Rightarrow> int"
  sys_fcntl_setfl :: "history \<Rightarrow> int \<Rightarrow> int \<Rightarrow> int"
  sys_send :: "history \<Rightarrow> int \<Rightarrow> string \<Rightarrow> int"
  sys_recv :: "history \<Rightarrow> int \<Rightarrow> int \<Rightarrow> int \<times> string \<times> errno"
  sys_eventfd :: "history \<Rightarrow> int"
  sys_write_evfd :: "history \<Rightarrow> int \<Rightarrow> int"
  sys_read_evfd :: "history \<Rightarrow> int \<Rightarrow> int \<times> errno"
  sys_epoll_create1 :: "history \<Rightarrow> int"
  sys_epoll_ctl_add :: "history \<Rightarrow> int \<Rightarrow> int \<Rightarrow> u32 \<Rightarrow> int"
  sys_epoll_wait :: "history \<Rightarrow> int \<Rightarrow> int \<Rightarrow> int \<times> (int \<times> u32) list"
  sys_random_color :: "history \<Rightarrow> int"
  sys_stdin_line :: "history \<Rightarrow> string option"
  sys_stdin_word :: "history \<Rightarrow> string"
  sys_kill :: "history \<Rightarrow> int \<Rightarrow> int"
  sys_signal :: "history \<Rightarrow> bool"
  sys_fork :: "history \<Rightarrow> int"
  sys_execlp :: "history \<Rightarrow> string list \<Rightarrow> bool"
  sys_popen :: "history \<Rightarrow> string \<Rightarrow> string list option"
  sys_getifaddrs :: "history \<Rightarrow> int \<times> iface list"

record os_state =
  hist :: history

definition emit :: "os_event \<Rightarrow> 'z os_state_scheme \<Rightarrow> 'z os_state_scheme" where
  "emit e s = s\<lparr>hist := hist s @ [e]\<rparr>"

definition emit_print :: "out_item \<Rightarrow> 'z os_state_scheme \<Rightarrow> 'z os_state_scheme" where
  "emit_print x s = emit (Ev_print x) s"

definition close_fd :: "int \<Rightarrow> 'z os_state_scheme \<Rightarrow> 'z os_state_scheme" where
  "close_fd fd s = emit (Ev_close fd) s"

definition call_send :: "os \<Rightarrow> int \<Rightarrow> string \<Rightarrow> 'z os_state_scheme \<Rightarrow> int \<times> 'z os_state_scheme" where
  "call_send os fd bytes s = (let r = sys_send os (hist s) fd bytes in (r, emit (Ev_send fd bytes r) s))"

definition call_recv ::
  "os \<Rightarrow> int \<Rightarrow> int \<Rightarrow> 'z os_state_scheme \<Rightarrow> (int \<times> string \<times> errno) \<times> 'z os_state_scheme" where
  "call_recv os fd len s = (let r = sys_recv os (hist s) fd len in (r, emit (Ev_recv fd (fst r)) s))"

definition call_write_evfd :: "os \<Rightarrow> int \<Rightarrow> 'z os_state_scheme \<Rightarrow> int \<times> 'z os_state_scheme" where
  "call_write_evfd os fd s = (let r = sys_write_evfd os (hist s) fd in (r, emit (Ev_write_evfd fd r) s))"

definition call_read_evfd ::
  "os \<Rightarrow> int \<Rightarrow> 'z os_state_scheme \<Rightarrow> (int \<times> errno) \<times> 'z os_state_scheme" where
  "call_read_evfd os fd s =
     (let r = sys_read_evfd os (hist s) fd in (r, emit (Ev_read_evfd fd (fst r)) s))"

text \<open>\<^verbatim>\<open>utils::get_evfd\<close> of \<^verbatim>\<open>resources.h\<close> and \<^verbatim>\<open>utils::getRandomColorID\<close>.\<close>

definition get_evfd :: "os \<Rightarrow> 'z os_state_scheme \<Rightarrow> (failure, int, 'z os_state_scheme) outcome" where
  "get_evfd os s =
     (let evfd = sys_eventfd os (hist s); s = emit (Ev_eventfd evfd) s in
      if evfd < 0 then (Inl (Runtime_error (ln ''eventfd error'')), s) else (Inr evfd, s))"

definition getRandomColorID :: "os \<Rightarrow> 'z os_state_scheme \<Rightarrow> int \<times> 'z os_state_scheme" where
  "getRandomColorID os s = (let r = sys_random_color os (hist s) in (r, emit (Ev_random r) s))"

text \<open>
  What the documentation of the calls promises and some properties rely on: the distribution
  on 1 to 14, an event counter that a write adds one to and a read takes back to zero, and a
  read of a socket that delivers as many bytes as it reports, at most as many as asked for.
\<close>

definition random_color_spec :: "os \<Rightarrow> bool" where
  "random_color_spec os \<longleftrightarrow> (\<forall>h. 1 \<le> sys_random_color os h \<and> sys_random_color os h \<le> 14)"

definition event_size :: int where
  "event_size = 8"

text \<open>Adding one to a counter, with the exception the caller throws when that fails.\<close>

definition write_one ::
  "os \<Rightarrow> int \<Rightarrow> failure \<Rightarrow> 'z os_state_scheme \<Rightarrow> (failure, unit, 'z os_state_scheme) outcome" where
  "write_one os evfd err s =
     (let (r, s) = call_write_evfd os evfd s in if r \<noteq> event_size then (Inl err, s) else (Inr (), s))"

definition STDIN_FILENO :: int where
  "STDIN_FILENO = 0"

definition O_NONBLOCK :: int where
  "O_NONBLOCK = 2048"

fun evfd_step :: "int \<Rightarrow> os_event \<Rightarrow> nat \<Rightarrow> nat" where
  "evfd_step fd (Ev_write_evfd f r) n = (if f = fd \<and> r = event_size then Suc n else n)"
| "evfd_step fd (Ev_read_evfd f r) n = (if f = fd \<and> r = event_size then 0 else n)"
| "evfd_step fd e n = n"

definition evfd_count :: "history \<Rightarrow> int \<Rightarrow> nat" where
  "evfd_count h fd = fold (evfd_step fd) h 0"

definition evfd_spec :: "os \<Rightarrow> bool" where
  "evfd_spec os \<longleftrightarrow> (\<forall>h fd. 0 \<le> fd \<longrightarrow>
     sys_write_evfd os h fd = event_size \<and>
     (if 0 < evfd_count h fd then fst (sys_read_evfd os h fd) = event_size
      else sys_read_evfd os h fd = (- 1, EAGAIN)))"

definition recv_spec :: "os \<Rightarrow> bool" where
  "recv_spec os \<longleftrightarrow> (\<forall>h fd len r d e. sys_recv os h fd len = (r, d, e) \<longrightarrow> 0 \<le> len \<longrightarrow>
     r \<le> len \<and> length d = nat r)"

subsection \<open>Lemmas\<close>

lemma hist_emit [simp]: "hist (emit e s) = hist s @ [e]"
  by (simp add: emit_def)

lemma hist_emit_print [simp]: "hist (emit_print x s) = hist s @ [Ev_print x]"
  by (simp add: emit_print_def)

lemma hist_close_fd [simp]: "hist (close_fd fd s) = hist s @ [Ev_close fd]"
  by (simp add: close_fd_def)

lemma evfd_count_Nil [simp]: "evfd_count [] fd = 0"
  by (simp add: evfd_count_def)

lemma evfd_count_snoc [simp]: "evfd_count (h @ [e]) fd = evfd_step fd e (evfd_count h fd)"
  by (simp add: evfd_count_def)

lemma get_evfd_Inr: "get_evfd os s = (Inr e, t) \<Longrightarrow> 0 \<le> e \<and> t = emit (Ev_eventfd e) s"
  by (auto simp: get_evfd_def Let_def split: if_splits)

end
