(* ===== verification/Epoll.thy ===== *)
theory Epoll
  imports Os_Model
begin

unbundle bit_operations_syntax

text \<open>
  \<^verbatim>\<open>class EpollManager\<close> (\<^verbatim>\<open>include/Polling/Epoll.h\<close>, \<^verbatim>\<open>src/Polling/Epoll.cpp\<close>): an epoll descriptor
  and an array of \<open>MAX_EVENTS\<close> reported events, each a descriptor with its event mask.
\<close>

definition EPOLLIN :: u32 where "EPOLLIN = 1"
definition EPOLLOUT :: u32 where "EPOLLOUT = 4"

type_synonym epoll_event = "int \<times> u32"

record epoll_pair =
  ep_fd :: int
  ep_event :: u32

record epoll_manager =
  epfd :: int
  events :: "epoll_event list"

text \<open>
  The constructor leaves the array uninitialised: its first contents \<open>junk\<close> are arbitrary.
\<close>

definition EpollManager_new ::
  "os \<Rightarrow> epoll_event list \<Rightarrow> 'z os_state_scheme \<Rightarrow> (failure, epoll_manager, 'z os_state_scheme) outcome" where
  "EpollManager_new os junk s =
     (let fd = sys_epoll_create1 os (hist s); s = emit (Ev_epoll_create fd) s in
      if fd < 0 then (Inl (Runtime_error (ln ''Failed to initialize epfd'')), s)
      else (Inr \<lparr>epfd = fd, events = junk\<rparr>, s))"

text \<open>Assignment; the flag tells a self-assignment. The copy constructor is the same.\<close>

definition EpollManager_copy :: "bool \<Rightarrow> epoll_manager \<Rightarrow> epoll_manager \<Rightarrow> epoll_manager" where
  "EpollManager_copy same this other =
     (if same then this else this\<lparr>epfd := epfd other, events := events other\<rparr>)"

definition EpollManager_move ::
  "bool \<Rightarrow> epoll_manager \<Rightarrow> epoll_manager \<Rightarrow> epoll_manager \<times> epoll_manager" where
  "EpollManager_move same this other =
     (if same then (this, this)
      else (this\<lparr>epfd := epfd other, events := events other\<rparr>, other\<lparr>epfd := - 1\<rparr>))"

definition EpollManager_destroy :: "epoll_manager \<Rightarrow> 'z os_state_scheme \<Rightarrow> 'z os_state_scheme" where
  "EpollManager_destroy em s = close_fd (epfd em) s"

definition add_monitored_fd ::
  "os \<Rightarrow> epoll_manager \<Rightarrow> epoll_pair \<Rightarrow> 'z os_state_scheme \<Rightarrow> (failure, unit, 'z os_state_scheme) outcome" where
  "add_monitored_fd os em ep s =
     (if 0 < epfd em then
        (let r = sys_epoll_ctl_add os (hist s) (epfd em) (ep_fd ep) (ep_event ep);
             s = emit (Ev_epoll_add (epfd em) (ep_fd ep) (ep_event ep)) s
         in if r < 0 then (Inl (Runtime_error (ln ''Failed to initialize epoll ctl'')), s)
            else (Inr (), s))
      else (Inl (Runtime_error (ln ''EPFD not initialized'')), s))"

text \<open>The kernel overwrites as many entries of the array as it reports.\<close>

definition wait_events ::
  "os \<Rightarrow> epoll_manager \<Rightarrow> 'z os_state_scheme \<Rightarrow> (failure, int \<times> epoll_manager, 'z os_state_scheme) outcome" where
  "wait_events os em s =
     (if 0 \<le> epfd em then
        (let (ret, evs) = sys_epoll_wait os (hist s) (epfd em) (int (length (events em))); s = emit (Ev_epoll_wait ret) s in
         if ret < 0 then (Inl (Runtime_error (ln ''Failed to do epoll_wait'')), s)
         else (Inr (ret, em\<lparr>events := take (nat ret) evs @ drop (nat ret) (events em)\<rparr>), s))
      else (Inl (Runtime_error (ln ''EPFD not initialized'')), s))"

definition event_matches :: "int \<Rightarrow> u32 \<Rightarrow> epoll_event \<Rightarrow> bool" where
  "event_matches fd event_type ev \<longleftrightarrow> fst ev = fd \<and> snd ev AND event_type \<noteq> 0"

definition check_event :: "epoll_manager \<Rightarrow> int \<Rightarrow> u32 \<Rightarrow> int \<Rightarrow> failure + bool" where
  "check_event em fd event_type events_nr =
     (if epfd em < 0 then Inl (Runtime_error (ln ''EPFD not initialized''))
      else if fd < 0 then Inl (Invalid_argument (ln ''Bad passed FD''))
      else if events_nr < 0 then Inl (Invalid_argument (ln ''Bad event nr passed''))
      else if events_nr = 0 then Inr False
      else if list_ex (event_matches fd event_type) (take (nat events_nr) (events em)) then Inr True
      else if length (events em) < nat events_nr
        then Inl (Undefined_behaviour ''read past the end of the event array'')
      else Inr False)"

definition clear_events :: "epoll_manager \<Rightarrow> epoll_manager" where
  "clear_events em = em\<lparr>events := replicate (length (events em)) (0, 0)\<rparr>"

text \<open>What \<open>epoll_wait\<close> promises: at most as many events as it is told the array holds, and that many.\<close>

definition epoll_spec :: "os \<Rightarrow> bool" where
  "epoll_spec os \<longleftrightarrow> (\<forall>h fd n ret evs. 0 < n \<longrightarrow> sys_epoll_wait os h fd n = (ret, evs) \<longrightarrow>
     ret \<le> n \<and> (0 \<le> ret \<longrightarrow> length evs = nat ret))"

definition em_wf :: "epoll_manager \<Rightarrow> bool" where
  "em_wf em \<longleftrightarrow> 0 \<le> epfd em \<and> length (events em) = MAX_EVENTS"

subsection \<open>Lemmas\<close>

lemma wait_events_InrD:
  assumes "wait_events os em s = (Inr (ret, em'), t)"
  shows "\<exists>evs. sys_epoll_wait os (hist s) (epfd em) (int (length (events em))) = (ret, evs) \<and> 0 \<le> ret \<and>
     em' = em\<lparr>events := take (nat ret) evs @ drop (nat ret) (events em)\<rparr> \<and>
     t = emit (Ev_epoll_wait ret) s"
  using assms by (auto simp: wait_events_def Let_def split: if_splits prod.splits)

lemma wait_events_wf:
  assumes "epoll_spec os" "em_wf em" "wait_events os em s = (Inr (ret, em'), t)"
  shows "em_wf em' \<and> 0 \<le> ret \<and> ret \<le> int MAX_EVENTS \<and> epfd em' = epfd em"
proof -
  obtain evs where w: "sys_epoll_wait os (hist s) (epfd em) (int (length (events em))) = (ret, evs)" "0 \<le> ret"
    "em' = em\<lparr>events := take (nat ret) evs @ drop (nat ret) (events em)\<rparr>"
    using wait_events_InrD [OF assms(3)] by blast
  moreover from assms(1,2) w have "length evs = nat ret" "ret \<le> 20"
    by (force simp: epoll_spec_def em_wf_def)+
  ultimately show ?thesis using assms(2) by (simp add: em_wf_def)
qed

text \<open>After a wait, asking for an event on a valid descriptor answers without failing, and
  the answer is exactly whether the kernel reported that descriptor with that event in this
  wait: entries left over from earlier waits never count.\<close>

theorem check_event_after_wait:
  assumes "epoll_spec os" and "em_wf em" and "wait_events os em s = (Inr (ret, em'), t)" and "0 \<le> fd"
  shows "check_event em' fd ty ret =
     Inr (\<exists>ev \<in> set (snd (sys_epoll_wait os (hist s) (epfd em) (int (length (events em))))). event_matches fd ty ev)"
proof -
  obtain evs where w: "sys_epoll_wait os (hist s) (epfd em) (int (length (events em))) = (ret, evs)"
    and em': "em' = em\<lparr>events := take (nat ret) evs @ drop (nat ret) (events em)\<rparr>" and ret: "0 \<le> ret"
    using wait_events_InrD [OF assms(3)] by blast
  from assms(1,2) w ret have len: "length evs = nat ret" "ret \<le> 20"
    by (force simp: epoll_spec_def em_wf_def)+
  from len have "take (nat ret) (events em') = evs" by (simp add: em')
  moreover have "length (events em') = 20" using len assms(2) by (simp add: em' em_wf_def)
  moreover have "0 \<le> epfd em'" using assms(2) by (simp add: em' em_wf_def)
  ultimately show ?thesis
    using assms(4) ret len w by (auto simp: check_event_def list_ex_iff)
qed

definition quiet_os :: os where
  "quiet_os = \<lparr>sys_inet_pton = (\<lambda>h a. 1), sys_socket = (\<lambda>h. 3), sys_setsockopt = (\<lambda>h. 0),
     sys_bind = (\<lambda>h. 0), sys_listen = (\<lambda>h. 0), sys_connect = (\<lambda>h. 0),
     sys_accept4 = (\<lambda>h fd. (10 + int (length h), EAGAIN)),
     sys_fcntl_getfl = (\<lambda>h fd. 0), sys_fcntl_setfl = (\<lambda>h fd fl. 0),
     sys_send = (\<lambda>h fd b. int (length b)), sys_recv = (\<lambda>h fd len. (- 1, [], EAGAIN)),
     sys_eventfd = (\<lambda>h. 7), sys_write_evfd = (\<lambda>h fd. 8),
     sys_read_evfd = (\<lambda>h fd. if 0 < evfd_count h fd then (8, EAGAIN) else (- 1, EAGAIN)),
     sys_epoll_create1 = (\<lambda>h. 5), sys_epoll_ctl_add = (\<lambda>h e fd ev. if fd < 0 then - 1 else 0),
     sys_epoll_wait = (\<lambda>h fd n. (1, [(4, 1)])), sys_random_color = (\<lambda>h. 6),
     sys_stdin_line = (\<lambda>h. None), sys_stdin_word = (\<lambda>h. ''ann''), sys_kill = (\<lambda>h pid. 0),
     sys_signal = (\<lambda>h. True), sys_fork = (\<lambda>h. 99), sys_execlp = (\<lambda>h args. True),
     sys_popen = (\<lambda>h cmd. None), sys_getifaddrs = (\<lambda>h. (0, []))\<rparr>"

lemma quiet_os_specs: "epoll_spec quiet_os" "evfd_spec quiet_os" "random_color_spec quiet_os"
  "recv_spec quiet_os"
  by (simp_all add: quiet_os_def epoll_spec_def evfd_spec_def random_color_spec_def recv_spec_def
      event_size_def)

theorem check_event_after_wait_witness:
  "check_event (\<lparr>epfd = 5, events = (4, 1) # replicate 19 (9, 5)\<rparr>) 4 EPOLLIN 1 = Inr True"
  using check_event_after_wait [OF quiet_os_specs(1), of "\<lparr>epfd = 5, events = replicate 20 (9, 5)\<rparr>"
      "\<lparr>hist = []\<rparr>" 1 "\<lparr>epfd = 5, events = (4, 1) # replicate 19 (9, 5)\<rparr>" "\<lparr>hist = [Ev_epoll_wait 1]\<rparr>"
      4 EPOLLIN]
  by (simp add: em_wf_def wait_events_def quiet_os_def event_matches_def EPOLLIN_def emit_def)

text \<open>An \<open>EpollManager\<close> that was moved from holds no descriptor, so the pair closes it once;
  a copied one shares the descriptor, and destroying both closes the same descriptor twice.\<close>

theorem copy_closes_twice:
  "hist (EpollManager_destroy (EpollManager_copy False a b) (EpollManager_destroy b s))
     = hist s @ [Ev_close (epfd b), Ev_close (epfd b)] \<and>
   (case EpollManager_move False a b of (a', b') \<Rightarrow>
      hist (EpollManager_destroy a' (EpollManager_destroy b' s))
        = hist s @ [Ev_close (- 1), Ev_close (epfd b)])"
  by (simp add: EpollManager_destroy_def EpollManager_copy_def EpollManager_move_def)

end
