(* ===== verification/Chat_Client.thy ===== *)
theory Chat_Client
  imports Epoll
begin

unbundle bit_operations_syntax

text \<open>
  \<^verbatim>\<open>class Client\<close> (\<^verbatim>\<open>include/Client/Client.h\<close>, \<^verbatim>\<open>src/Client/Client.cpp\<close>): the program a user runs. One thread
  sends what the user types, the other prints what the server sends; they share the members
  of the class, which are the state here. The mutex around single assignments does not show.
  The names that the server uses too carry the prefix \<open>client\<close>.
\<close>

record client = os_state +
  is_initialized_flag :: bool
  cl_event_fd :: int
  cl_name :: string
  cl_color_id :: int
  cl_id :: string
  cl_init_req :: bool
  cl_init_done :: bool
  cl_socket :: int
  client_done :: bool

text \<open>The members before the constructor runs. The event descriptor is not initialised there.\<close>

definition client_members :: "int \<Rightarrow> history \<Rightarrow> client" where
  "client_members junk h = \<lparr>hist = h, is_initialized_flag = False, cl_event_fd = junk, cl_name = [],
     cl_color_id = int (color_index WHITE), cl_id = [], cl_init_req = False, cl_init_done = False,
     cl_socket = - 1, client_done = False\<rparr>"

definition set_name :: "string \<Rightarrow> 'z client_scheme \<Rightarrow> 'z client_scheme" where
  "set_name name s = s\<lparr>cl_name := takeWhile (\<lambda>c. c \<noteq> CHR 0x00) name\<rparr>"

definition set_id :: "string \<Rightarrow> 'z client_scheme \<Rightarrow> 'z client_scheme" where
  "set_id cid s = s\<lparr>cl_id := takeWhile (\<lambda>c. c \<noteq> CHR 0x00) cid\<rparr>"

definition get_name :: "'z client_scheme \<Rightarrow> string" where
  "get_name s = (if cl_name s = [] then NAME_UNINITIALIZED else cl_name s)"

definition get_id :: "'z client_scheme \<Rightarrow> string" where
  "get_id s = (if cl_id s = [] then ID_UNINITIALIZED else cl_id s)"

definition is_initialized :: "'z client_scheme \<Rightarrow> bool" where
  "is_initialized s \<longleftrightarrow> cl_id s \<noteq> [] \<and> cl_name s \<noteq> []"

definition check_init :: "'z client_scheme \<Rightarrow> bool" where
  "check_init s = is_initialized_flag s"

definition set_init :: "'z client_scheme \<Rightarrow> 'z client_scheme" where
  "set_init s = s\<lparr>is_initialized_flag := True\<rparr>"

definition get_cl_socket :: "'z client_scheme \<Rightarrow> int" where
  "get_cl_socket s = cl_socket s"

text \<open>
  The constructor asks for the name before it opens anything. An exception leaves it without
  running the destructor.
\<close>

definition Client_new ::
  "os \<Rightarrow> string \<Rightarrow> int \<Rightarrow> history \<Rightarrow> (failure, unit, client) outcome" where
  "Client_new os sv_addr junk h =
     (let s = client_members junk h;
          s = emit_print (Cout (get_color BRIGHT_MAGENTA @ ''Please input your name: '' @ get_color COL_END)) s in
      bindE (liftE (get_color_int (cl_color_id s)) s) (\<lambda>col s.
      let s = emit_print (Cout (ln col)) s;
          buffer = sys_stdin_word os (hist s);
          s = emit (Ev_stdin (Some buffer)) s in
      bindE (get_evfd os s) (\<lambda>evfd s.
        let s = set_name buffer (s\<lparr>cl_event_fd := evfd\<rparr>);
            fd = sys_socket os (hist s);
            s = emit (Ev_socket fd) (s\<lparr>cl_socket := fd\<rparr>) in
        if fd < 0 then (Inl (Runtime_error (ln ''Failed to open socket - Client'')), s)
        else let r = sys_inet_pton os (hist s) sv_addr; s = emit Ev_setup s in
        if r \<le> 0 then (Inl (Runtime_error (ln ''Failed to load network addr in struct'')), s)
        else let r = sys_connect os (hist s); s = emit Ev_setup s in
        if r < 0 then (Inl (Runtime_error (ln ''Failed connect'')), s)
        else (Inr (), s))))"

definition Client_destroy :: "'z client_scheme \<Rightarrow> 'z client_scheme" where
  "Client_destroy s =
     emit_print (Cout (ln (get_color COL_END))) ((close_fd (cl_socket s) s)\<lparr>cl_socket := 0\<rparr>)"

definition client_send_msg ::
  "os \<Rightarrow> string \<Rightarrow> 'z client_scheme \<Rightarrow> (failure, unit, 'z client_scheme) outcome" where
  "client_send_msg os msg s =
     (if 0 \<le> cl_socket s then
        (let (r, s) = call_send os (cl_socket s) msg s in
         if r < 0 then (Inl (Runtime_error (ln ''Failed to send msg'')), s) else (Inr (), s))
      else (Inl (Runtime_error (ln ''The socket is not initialized'')), s))"

text \<open>A read that would block is answered as 0, the answer of a closed connection.\<close>

definition client_receive_msg ::
  "os \<Rightarrow> message_frame \<Rightarrow> 'z client_scheme \<Rightarrow> (failure, int \<times> message_frame, 'z client_scheme) outcome" where
  "client_receive_msg os frame s =
     (if cl_socket s < 0 then (Inl (Runtime_error (ln ''The socket is not initialized'')), s)
      else let ((ret, data, errno), s) = call_recv os (cl_socket s) (mf_msg_len frame) s in
        if ret < 0 then
          (if errno = EAGAIN \<or> errno = EWOULDBLOCK then (Inr (0, frame), s)
           else (Inl (Runtime_error (ln ''Failed read'')), s))
        else (Inr (ret, recv_into data frame), s))"

definition make_cl_socket_nonblocking :: "os \<Rightarrow> 'z client_scheme \<Rightarrow> 'z client_scheme" where
  "make_cl_socket_nonblocking os s =
     (if 0 \<le> cl_socket s then
        (let flags = sys_fcntl_getfl os (hist s) (cl_socket s); s = emit (Ev_fcntl (cl_socket s)) s in
         if flags AND O_NONBLOCK \<noteq> O_NONBLOCK then emit (Ev_setfl (cl_socket s) (flags OR O_NONBLOCK)) s else s)
      else s)"

subsection \<open>The sending thread\<close>

text \<open>The handler at the end of both helper functions: an exception is printed and forgotten.\<close>

definition print_exception ::
  "'a \<Rightarrow> failure \<Rightarrow> 'z os_state_scheme \<Rightarrow> (failure, 'a, 'z os_state_scheme) outcome" where
  "print_exception a e s =
     (if is_std_exception e then (Inr a, emit_print (cerr_out_err (what e)) s) else (Inl e, s))"

definition client_quit_message :: "'z client_scheme \<Rightarrow> server_message \<Rightarrow> server_message" where
  "client_quit_message s msg = msg\<lparr>sm_action := get_action CL_DISCONNECTED, sm_name := cl_name s, sm_id := cl_id s\<rparr>"

definition client_chat_message :: "'z client_scheme \<Rightarrow> string \<Rightarrow> server_message \<Rightarrow> server_message" where
  "client_chat_message s buffer msg = msg\<lparr>sm_action := get_action UNICAST_REPEATED, sm_name := cl_name s,
     sm_id := cl_id s, sm_color_id := to_string (cl_color_id s), sm_msg_content := buffer\<rparr>"

text \<open>
  The line buffer is written before it is read in every call, so it is local here; the result
  is the message object.
\<close>

definition send_and_reset ::
  "os \<Rightarrow> server_message \<Rightarrow> 'z client_scheme \<Rightarrow> (failure, server_message, 'z client_scheme) outcome" where
  "send_and_reset os msg s =
     handleE (bindE (client_send_msg os (get_concatenated_msg msg) s) (\<lambda>_ s. (Inr (reset_msg msg), s)))
       (print_exception msg)"

definition send_msg_from_stdin ::
  "os \<Rightarrow> server_message \<Rightarrow> 'z client_scheme \<Rightarrow> (failure, server_message, 'z client_scheme) outcome" where
  "send_msg_from_stdin os msg s =
     (let line = sys_stdin_line os (hist s); s = emit (Ev_stdin line) s in
      case line of
        None \<Rightarrow> (Inr (reset_msg msg), s)
      | Some buffer \<Rightarrow>
          if buffer = QUIT_MSG then send_and_reset os (client_quit_message s msg) (s\<lparr>client_done := True\<rparr>)
          else if buffer \<noteq> [] then send_and_reset os (client_chat_message s buffer msg) s
          else (Inr (reset_msg msg), s))"

record send_thread =
  st_em :: epoll_manager
  st_msg :: server_message

definition send_init ::
  "os \<Rightarrow> epoll_event list \<Rightarrow> 'z client_scheme \<Rightarrow> (failure, send_thread, 'z client_scheme) outcome" where
  "send_init os junk_events s =
     bindE (EpollManager_new os junk_events s) (\<lambda>em s.
     bindE (add_monitored_fd os em \<lparr>ep_fd = STDIN_FILENO, ep_event = EPOLLIN\<rparr> s) (\<lambda>_ s.
     bindE (add_monitored_fd os em \<lparr>ep_fd = cl_event_fd s, ep_event = EPOLLIN\<rparr> s) (\<lambda>_ s.
       (Inr \<lparr>st_em = em, st_msg = empty_message\<rparr>, s))))"

definition init_req_message :: "'z client_scheme \<Rightarrow> server_message \<Rightarrow> server_message" where
  "init_req_message s msg = msg\<lparr>sm_action := get_action INIT_REQ, sm_name := cl_name s,
     sm_color_id := to_string (cl_color_id s)\<rparr>"

text \<open>One turn of the loop.\<close>

definition send_turn ::
  "os \<Rightarrow> send_thread \<Rightarrow> 'z client_scheme \<Rightarrow> (failure, send_thread, 'z client_scheme) outcome" where
  "send_turn os st s =
     (if \<not> cl_init_req s then
        (if cl_name s \<noteq> [] then
           (let msg = init_req_message s (st_msg st) in
            bindE (client_send_msg os (get_concatenated_msg msg) s) (\<lambda>_ s.
              (Inr (st\<lparr>st_msg := msg\<rparr>), s\<lparr>cl_init_req := True\<rparr>)))
         else (Inr st, s))
      else
        bindE (wait_events os (st_em st) s) (\<lambda>(events_nr, em) s.
          let st = st\<lparr>st_em := em\<rparr> in
          bindE (liftE (check_event em STDIN_FILENO EPOLLIN events_nr) s) (\<lambda>inp s.
            if inp then
              bindE (send_msg_from_stdin os (st_msg st) s) (\<lambda>msg s.
                (Inr (st\<lparr>st_msg := reset_msg msg\<rparr>), s))
            else (Inr st, s))))"

text \<open>
  The loop, run for at most the given number of turns; \<open>None\<close> is a loop that is still going.
  An exception that leaves it leaves the thread function, which ends the process.
\<close>

fun start_send_loop ::
  "nat \<Rightarrow> os \<Rightarrow> send_thread \<Rightarrow> 'z client_scheme \<Rightarrow> (failure, unit, 'z client_scheme) outcome option" where
  "start_send_loop n os st s =
     (if client_done s then Some (Inr (), EpollManager_destroy (st_em st) s)
      else case n of
        0 \<Rightarrow> None
      | Suc k \<Rightarrow> (case send_turn os st s of
           (Inl e, s) \<Rightarrow> Some (Inl e, s)
         | (Inr st, s) \<Rightarrow> start_send_loop k os st s))"

subsection \<open>The receiving thread\<close>

definition update_color :: "int \<Rightarrow> 'z client_scheme \<Rightarrow> (failure, unit, 'z client_scheme) outcome" where
  "update_color c s =
     (let s = (emit_print (Cout (ln (get_color COL_END))) s)\<lparr>cl_color_id := c\<rparr> in
      bindE (liftE (get_color_int (cl_color_id s)) s) (\<lambda>col s. (Inr (), emit_print (Cout (ln col)) s)))"

definition finalize_init ::
  "os \<Rightarrow> server_message \<Rightarrow> 'z client_scheme \<Rightarrow> (failure, server_message, 'z client_scheme) outcome" where
  "finalize_init os server_msg s =
     (if sm_action server_msg = get_action INIT_REQ then
        bindE (liftE (stoi (sm_color_id server_msg)) s) (\<lambda>c s.
        bindE (update_color c s) (\<lambda>_ s.
          let s = s\<lparr>cl_id := sm_id server_msg, cl_init_done := True\<rparr>;
              msg = (reset_msg server_msg)\<lparr>sm_action := get_action INIT_DONE\<rparr> in
          bindE (client_send_msg os (get_concatenated_msg msg) s) (\<lambda>_ s. (Inr (reset_msg msg), s))))
      else (Inr (reset_msg server_msg), s))"

text \<open>What follows a read that delivered \<open>ret\<close> bytes; the result is the frame afterwards.\<close>

definition process_received ::
  "os \<Rightarrow> int \<Rightarrow> message_frame \<Rightarrow> 'z client_scheme \<Rightarrow> (failure, message_frame, 'z client_scheme) outcome" where
  "process_received os ret frame s =
     (if ret = 0 then
        bindE (write_one os (cl_event_fd s)
                 (Runtime_error (ln ''Failed to write to event fd to wake up send loop'')) (s\<lparr>client_done := True\<rparr>))
          (\<lambda>_ s. (Inr frame, s))
      else if \<not> cl_init_req s then (Inr frame, s)
      else
        bindE (liftE (string_of_array (mf_msg frame)) s) (\<lambda>str s.
        bindE (liftE (construct_from_string str empty_message) s) (\<lambda>server_msg s.
          if \<not> cl_init_done s then
            bindE (finalize_init os server_msg s) (\<lambda>_ s. (Inr (clear_msg frame), s))
          else
            bindE (liftE (stdout_formatted_msg server_msg (cl_color_id s)) s) (\<lambda>items s.
              (Inr (clear_msg frame), fold emit_print items s)))))"

text \<open>The handler keeps what the read left in the frame.\<close>

definition receive_msg_from_sv ::
  "os \<Rightarrow> message_frame \<Rightarrow> 'z client_scheme \<Rightarrow> (failure, message_frame, 'z client_scheme) outcome" where
  "receive_msg_from_sv os frame s =
     (case client_receive_msg os frame s of
        (Inl e, s) \<Rightarrow> print_exception frame e s
      | (Inr (ret, frame), s) \<Rightarrow> handleE (process_received os ret frame s) (print_exception frame))"

record receive_thread =
  rt_em :: epoll_manager
  rt_frame :: message_frame

definition receive_init ::
  "os \<Rightarrow> epoll_event list \<Rightarrow> char list \<Rightarrow> 'z client_scheme \<Rightarrow>
   (failure, receive_thread, 'z client_scheme) outcome" where
  "receive_init os junk_events junk_msg s =
     bindE (EpollManager_new os junk_events s) (\<lambda>em s.
     bindE (add_monitored_fd os em \<lparr>ep_fd = cl_socket s, ep_event = EPOLLIN\<rparr> s) (\<lambda>_ s.
       (Inr \<lparr>rt_em = em, rt_frame = \<lparr>mf_msg = junk_msg, mf_msg_len = int MAX_LEN\<rparr>\<rparr>, s)))"

definition receive_turn ::
  "os \<Rightarrow> receive_thread \<Rightarrow> 'z client_scheme \<Rightarrow> (failure, receive_thread, 'z client_scheme) outcome" where
  "receive_turn os rt s =
     bindE (wait_events os (rt_em rt) s) (\<lambda>(events_nr, em) s.
       let rt = rt\<lparr>rt_em := em\<rparr> in
       bindE (liftE (check_event em (cl_socket s) EPOLLIN events_nr) s) (\<lambda>inp s.
         if inp then
           bindE (receive_msg_from_sv os (rt_frame rt) s) (\<lambda>frame s. (Inr (rt\<lparr>rt_frame := frame\<rparr>), s))
         else (Inr rt, s)))"

fun start_receive_loop ::
  "nat \<Rightarrow> os \<Rightarrow> receive_thread \<Rightarrow> 'z client_scheme \<Rightarrow> (failure, unit, 'z client_scheme) outcome option" where
  "start_receive_loop n os rt s =
     (if client_done s then Some (Inr (), EpollManager_destroy (rt_em rt) s)
      else case n of
        0 \<Rightarrow> None
      | Suc k \<Rightarrow> (case receive_turn os rt s of
           (Inl e, s) \<Rightarrow> Some (Inl e, s)
         | (Inr rt, s) \<Rightarrow> start_receive_loop k os rt s))"

declare start_send_loop.simps [simp del] start_receive_loop.simps [simp del]

subsection \<open>Lemmas\<close>

lemma client_emit [simp]:
  "cl_event_fd (emit e s) = cl_event_fd s" "cl_name (emit e s) = cl_name s"
  "cl_color_id (emit e s) = cl_color_id s" "cl_id (emit e s) = cl_id s"
  "cl_init_req (emit e s) = cl_init_req s" "cl_init_done (emit e s) = cl_init_done s"
  "cl_socket (emit e s) = cl_socket s" "client_done (emit e s) = client_done s"
  by (simp_all add: emit_def)

lemma client_emit_print [simp]:
  "cl_event_fd (emit_print x s) = cl_event_fd s" "cl_name (emit_print x s) = cl_name s"
  "cl_color_id (emit_print x s) = cl_color_id s" "cl_id (emit_print x s) = cl_id s"
  "cl_init_req (emit_print x s) = cl_init_req s" "cl_init_done (emit_print x s) = cl_init_done s"
  "cl_socket (emit_print x s) = cl_socket s" "client_done (emit_print x s) = client_done s"
  by (simp_all add: emit_print_def)

end
