(* ===== verification/Client_Session.thy ===== *)
theory Client_Session
  imports Chat_Client
begin

text \<open>
  A session of the client program: what each thread does in one turn, and what every
  interleaving of the two threads keeps.
\<close>

subsection \<open>Single turns\<close>

lemma client_send_ok:
  assumes "0 \<le> cl_socket s" "0 \<le> sys_send os (hist s) (cl_socket s) msg"
  shows "client_send_msg os msg s =
     (Inr (), emit (Ev_send (cl_socket s) msg (sys_send os (hist s) (cl_socket s) msg)) s)"
  using assms by (simp add: client_send_msg_def call_send_def Let_def)

lemma typed_line_outcome:
  assumes "sys_stdin_line os (hist s) = Some line" and "line \<noteq> []" and "line \<noteq> QUIT_MSG"
    and "0 \<le> cl_socket s" and "\<forall>h b. 0 \<le> sys_send os h (cl_socket s) b"
    and "sm_thread_number msg = [] \<and> sm_fd msg = [] \<and> sm_init_done msg = []"
  shows "\<exists>t r. send_msg_from_stdin os msg s = (Inr empty_message, t) \<and>
    hist t = hist s @ [Ev_stdin (Some line),
      Ev_send (cl_socket s) (get_concatenated_msg (client_chat_message s line empty_message)) r] \<and>
    construct_from_string (get_concatenated_msg (client_chat_message s line empty_message)) m0 =
      (if split_token \<notin> set (cl_name s) \<and> split_token \<notin> set (cl_id s) \<and> split_token \<notin> set line
       then Inr (client_chat_message s line empty_message)
       else Inl (Runtime_error (ln ''Error in message construction. Invalid Msg format'')))"
proof -
  let ?s = "emit (Ev_stdin (Some line)) s" and ?m = "client_chat_message s line empty_message"
  have m: "client_chat_message ?s line msg = ?m"
    using assms(6) by (simp add: client_chat_message_def empty_message_def)
  have "sendable ?m \<longleftrightarrow> split_token \<notin> set (cl_name s) \<and> split_token \<notin> set (cl_id s) \<and> split_token \<notin> set line"
    using split_token_simps by (auto simp: sendable_iff client_chat_message_def empty_message_def split_token_def)
  moreover have "send_msg_from_stdin os msg s = (Inr empty_message,
      emit (Ev_send (cl_socket s) (get_concatenated_msg ?m)
        (sys_send os (hist ?s) (cl_socket s) (get_concatenated_msg ?m))) ?s)"
    using assms m client_send_ok [of ?s os "get_concatenated_msg ?m"]
    by (simp add: send_msg_from_stdin_def send_and_reset_def reset_msg_empty Let_def)
  ultimately show ?thesis by (auto simp: construct_of_concatenated)
qed

text \<open>A line the user types is sent as one message that carries the user's name, id and
  colour and the line, whatever the message object held before; the receiver reads exactly
  this message when name, id and line hold no separator, and rejects it otherwise. The
  message object is empty afterwards.\<close>

theorem typed_line_is_sent:
  assumes "sys_stdin_line os (hist s) = Some line" and "line \<noteq> []" and "line \<noteq> QUIT_MSG"
    and "0 \<le> cl_socket s" and "\<forall>h b. 0 \<le> sys_send os h (cl_socket s) b"
    and "sm_thread_number msg = [] \<and> sm_fd msg = [] \<and> sm_init_done msg = []"
  shows "\<exists>t r. send_msg_from_stdin os msg s = (Inr empty_message, t) \<and>
    hist t = hist s @ [Ev_stdin (Some line),
      Ev_send (cl_socket s) (get_concatenated_msg (client_chat_message s line empty_message)) r] \<and>
    construct_from_string (get_concatenated_msg (client_chat_message s line empty_message)) m0 =
      (if split_token \<notin> set (cl_name s) \<and> split_token \<notin> set (cl_id s) \<and> split_token \<notin> set line
       then Inr (client_chat_message s line empty_message)
       else Inl (Runtime_error (ln ''Error in message construction. Invalid Msg format'')))"
  using assms by (rule typed_line_outcome)

definition typing_os :: "string \<Rightarrow> os" where
  "typing_os line = quiet_os\<lparr>sys_stdin_line := (\<lambda>h. Some line), sys_epoll_wait := (\<lambda>h fd n. (1, [(0, 1)]))\<rparr>"

definition chatting_client :: "history \<Rightarrow> client" where
  "chatting_client h = (client_members 7 h)\<lparr>cl_name := ''ann'', cl_id := ''3'', cl_color_id := 4,
     cl_init_req := True, cl_init_done := True, cl_socket := 3\<rparr>"

lemma to_string_samples: "to_string 2 = ''2''" "to_string 4 = ''4''" "to_string 7 = ''7''"
  by code_simp+

theorem typed_line_is_sent_witness:
  "\<exists>t r. send_msg_from_stdin (typing_os ''hi'') empty_message (chatting_client []) = (Inr empty_message, t) \<and>
    hist t = [Ev_stdin (Some ''hi''), Ev_send 3 (get_concatenated_msg sample_message) r] \<and>
    construct_from_string (get_concatenated_msg sample_message) empty_message = Inr sample_message"
proof -
  have m: "client_chat_message (chatting_client []) ''hi'' empty_message = sample_message"
    by (simp add: client_chat_message_def chatting_client_def sample_message_def empty_message_def to_string_samples)
  show ?thesis
    using typed_line_is_sent [of "typing_os ''hi''" "chatting_client []" "''hi''" empty_message empty_message]
    unfolding m
    by (simp add: typing_os_def quiet_os_def chatting_client_def client_members_def QUIT_MSG_def
        empty_message_def split_token_def)
qed

text \<open>What a read that delivers one message amounts to.\<close>

lemma client_reads:
  assumes "frame_wf f" "0 \<le> cl_socket s" "cl_init_req s"
    and "sys_recv os (hist s) (cl_socket s) (int MAX_LEN) = (int (length (get_concatenated_msg m)), get_concatenated_msg m, e)"
    and "length (get_concatenated_msg m) < MAX_LEN"
  shows "receive_msg_from_sv os f s =
    (let g = recv_into (get_concatenated_msg m) f;
         t = emit (Ev_recv (cl_socket s) (int (length (get_concatenated_msg m)))) s in
     handleE (bindE (liftE (frame_message (get_concatenated_msg m) f) t) (\<lambda>m s.
        if \<not> cl_init_done s then bindE (finalize_init os m s) (\<lambda>_ s. (Inr (clear_msg f), s))
        else bindE (liftE (stdout_formatted_msg m (cl_color_id s)) s) (\<lambda>items s.
                (Inr (clear_msg f), fold emit_print items s)))) (print_exception g))"
proof -
  let ?b = "get_concatenated_msg m" and ?g = "recv_into (get_concatenated_msg m) f"
  have len: "mf_msg_len f = int MAX_LEN" using assms(1) by (simp add: frame_wf_def)
  have clear: "clear_msg ?g = clear_msg f"
    using assms(1,5) by (simp add: clear_msg_def recv_into_def frame_wf_def)
  have "?b \<noteq> []" by (simp add: get_concatenated_msg_def)
  then show ?thesis
    using assms(2-4) len
    by (cases "string_of_array (mf_msg ?g)")
      (simp_all add: receive_msg_from_sv_def client_receive_msg_def process_received_def call_recv_def clear frame_message_def
        Let_def cong: if_cong)
qed

lemma client_receives:
  assumes "frame_wf f" "0 \<le> cl_socket s" "cl_init_req s"
    and "sys_recv os (hist s) (cl_socket s) (int MAX_LEN) = (int (length (get_concatenated_msg m)), get_concatenated_msg m, e)"
    and "sendable m" "CHR 0x00 \<notin> set (get_concatenated_msg m)" "length (get_concatenated_msg m) < MAX_LEN"
    and "clean_behind (length (get_concatenated_msg m)) f"
  shows "receive_msg_from_sv os f s =
    (let g = recv_into (get_concatenated_msg m) f;
         t = emit (Ev_recv (cl_socket s) (int (length (get_concatenated_msg m)))) s in
     handleE (if \<not> cl_init_done t then bindE (finalize_init os m t) (\<lambda>_ s. (Inr (clear_msg f), s))
              else bindE (liftE (stdout_formatted_msg m (cl_color_id t)) t) (\<lambda>items s.
                (Inr (clear_msg f), fold emit_print items s))) (print_exception g))"
  using client_reads [OF assms(1-4,7)] assms(8) by (simp add: frame_message_outcome [OF assms(5,6)] Let_def)

text \<open>A frame that is not clean spoils the read: nothing but the reading and perhaps a warning
  happens.\<close>

lemma client_read_spoiled:
  assumes "frame_wf f" "0 \<le> cl_socket s" "cl_init_req s"
    and "sys_recv os (hist s) (cl_socket s) (int MAX_LEN) = (int (length (get_concatenated_msg m)), get_concatenated_msg m, e)"
    and "sendable m" "CHR 0x00 \<notin> set (get_concatenated_msg m)" "length (get_concatenated_msg m) < MAX_LEN"
    and "\<not> clean_behind (length (get_concatenated_msg m)) f"
  shows "let t = emit (Ev_recv (cl_socket s) (int (length (get_concatenated_msg m)))) s in
    receive_msg_from_sv os f s =
    (if CHR 0x00 \<in> set (drop (length (get_concatenated_msg m)) (mf_msg f))
     then (Inr (recv_into (get_concatenated_msg m) f),
       emit_print (cerr_out_err (ln ''Error in message construction. Invalid Msg format'')) t)
     else (Inl (Undefined_behaviour ''read past the end of a character array''), t))"
  using client_reads [OF assms(1-4,7)] assms(8)
  by (simp add: frame_message_outcome [OF assms(5,6)] print_exception_def Let_def)

lemma clear_msg_twice [simp]: "clear_msg (clear_msg f) = clear_msg f"
  by (simp add: clear_msg_def)

lemma frame_wf_cleared [simp]: "frame_wf (clear_msg f) \<longleftrightarrow> frame_wf f"
  by (simp add: clear_msg_def frame_wf_def)

lemma hist_fold_print [simp]: "hist (fold emit_print items s) = hist s @ map Ev_print items"
  by (induction items arbitrary: s) simp_all

lemma received_line_outcome:
  assumes "frame_wf f" and "0 \<le> cl_socket s" and "cl_init_req s" and "cl_init_done s"
    and "sys_recv os (hist s) (cl_socket s) (int MAX_LEN) = (int (length (get_concatenated_msg m)), get_concatenated_msg m, e)"
    and "sendable m" and "CHR 0x00 \<notin> set (get_concatenated_msg m)" and "length (get_concatenated_msg m) < MAX_LEN"
    and "sm_action m = get_action UNICAST_REPEATED" and "sm_color_id m = to_string c"
    and "0 \<le> c \<and> c \<le> 14" and "0 \<le> cl_color_id s \<and> cl_color_id s \<le> 14"
  shows "\<exists>t. receive_msg_from_sv os (clear_msg f) s = (Inr (clear_msg f), t) \<and>
    hist t = hist s @ [Ev_recv (cl_socket s) (int (length (get_concatenated_msg m)))] @
      (if sm_name m = SERVER_NAME then []
       else [Ev_print (Cout (get_color COL_END @ COLOR_ARR ! nat c @ sm_id m @ ''-'' @ get_color COL_END
               @ COLOR_ARR ! nat (cl_color_id s)))]) @
      [Ev_print (Cout (get_color COL_END @ COLOR_ARR ! nat c @ sm_name m @ '': '' @ sm_msg_content m
         @ get_color COL_END @ COLOR_ARR ! nat (cl_color_id s) @ [CHR 0x0A]))]"
proof -
  have "stoi (sm_color_id m) = Inr c"
    using assms(10,11) stoi_to_string [of c] by (simp add: INT_MIN_def INT_MAX_def)
  then show ?thesis
    using client_receives [of "clear_msg f", OF _ assms(2,3,5-8)] clean_behind_cleared [OF assms(1,8)] assms(1,4,9,11,12)
    by (auto simp: stdout_formatted_msg_def get_color_int_Inr Let_def)
qed

text \<open>When the server delivers a chat message in one read, the client prints it, the sender's
  id in front unless it is the server, then the name and the text, in the sender's colour
  with the user's own colour restored after it, and clears the frame for the next read.\<close>

theorem received_line_is_printed:
  assumes "frame_wf f" and "0 \<le> cl_socket s" and "cl_init_req s" and "cl_init_done s"
    and "sys_recv os (hist s) (cl_socket s) (int MAX_LEN) = (int (length (get_concatenated_msg m)), get_concatenated_msg m, e)"
    and "sendable m" and "CHR 0x00 \<notin> set (get_concatenated_msg m)" and "length (get_concatenated_msg m) < MAX_LEN"
    and "sm_action m = get_action UNICAST_REPEATED" and "sm_color_id m = to_string c"
    and "0 \<le> c \<and> c \<le> 14" and "0 \<le> cl_color_id s \<and> cl_color_id s \<le> 14"
  shows "\<exists>t. receive_msg_from_sv os (clear_msg f) s = (Inr (clear_msg f), t) \<and>
    hist t = hist s @ [Ev_recv (cl_socket s) (int (length (get_concatenated_msg m)))] @
      (if sm_name m = SERVER_NAME then []
       else [Ev_print (Cout (get_color COL_END @ COLOR_ARR ! nat c @ sm_id m @ ''-'' @ get_color COL_END
               @ COLOR_ARR ! nat (cl_color_id s)))]) @
      [Ev_print (Cout (get_color COL_END @ COLOR_ARR ! nat c @ sm_name m @ '': '' @ sm_msg_content m
         @ get_color COL_END @ COLOR_ARR ! nat (cl_color_id s) @ [CHR 0x0A]))]"
  using assms by (rule received_line_outcome)

lemma confirmation_outcome:
  assumes "frame_wf f" and "0 \<le> cl_socket s" and "cl_init_req s" and "\<not> cl_init_done s"
    and "sys_recv os (hist s) (cl_socket s) (int MAX_LEN) = (int (length (get_concatenated_msg m)), get_concatenated_msg m, e)"
    and "sendable m" and "CHR 0x00 \<notin> set (get_concatenated_msg m)" and "length (get_concatenated_msg m) < MAX_LEN"
    and "sm_action m = get_action INIT_REQ" and "sm_color_id m = to_string c" and "0 \<le> c \<and> c \<le> 14"
    and "\<forall>h b. 0 \<le> sys_send os h (cl_socket s) b" and "clean_behind (length (get_concatenated_msg m)) f"
  shows "\<exists>t r. receive_msg_from_sv os f s = (Inr (clear_msg f), t) \<and>
    cl_id t = sm_id m \<and> cl_color_id t = c \<and> cl_init_done t \<and> cl_name t = cl_name s \<and> client_done t = client_done s \<and>
    hist t = hist s @ [Ev_recv (cl_socket s) (int (length (get_concatenated_msg m))),
      Ev_print (Cout (ln (get_color COL_END))), Ev_print (Cout (ln (COLOR_ARR ! nat c))),
      Ev_send (cl_socket s) (get_concatenated_msg (empty_message\<lparr>sm_action := get_action INIT_DONE\<rparr>)) r]"
proof -
  have "stoi (sm_color_id m) = Inr c"
    using assms(10,11) stoi_to_string [of c] by (simp add: INT_MIN_def INT_MAX_def)
  then show ?thesis
    using client_receives [OF assms(1-3,5-8,13)] assms(2,4,9,11,12)
    by (auto simp: finalize_init_def update_color_def get_color_int_Inr client_send_ok reset_msg_empty Let_def)
qed

text \<open>The confirmation of the server, read into a frame that is clean behind it, ends the client's
  side of the handshake: the client takes over the id and the colour it was given, answers \<open>INIT_DONE\<close> and from then on prints
  what it receives.\<close>

theorem confirmation_completes_client:
  assumes "frame_wf f" and "0 \<le> cl_socket s" and "cl_init_req s" and "\<not> cl_init_done s"
    and "sys_recv os (hist s) (cl_socket s) (int MAX_LEN) = (int (length (get_concatenated_msg m)), get_concatenated_msg m, e)"
    and "sendable m" and "CHR 0x00 \<notin> set (get_concatenated_msg m)" and "length (get_concatenated_msg m) < MAX_LEN"
    and "sm_action m = get_action INIT_REQ" and "sm_color_id m = to_string c" and "0 \<le> c \<and> c \<le> 14"
    and "\<forall>h b. 0 \<le> sys_send os h (cl_socket s) b" and "clean_behind (length (get_concatenated_msg m)) f"
  shows "\<exists>t r. receive_msg_from_sv os f s = (Inr (clear_msg f), t) \<and>
    cl_id t = sm_id m \<and> cl_color_id t = c \<and> cl_init_done t \<and> cl_name t = cl_name s \<and> client_done t = client_done s \<and>
    hist t = hist s @ [Ev_recv (cl_socket s) (int (length (get_concatenated_msg m))),
      Ev_print (Cout (ln (get_color COL_END))), Ev_print (Cout (ln (COLOR_ARR ! nat c))),
      Ev_send (cl_socket s) (get_concatenated_msg (empty_message\<lparr>sm_action := get_action INIT_DONE\<rparr>)) r]"
  using assms by (rule confirmation_outcome)

definition delivering_os :: "string \<Rightarrow> os" where
  "delivering_os b = quiet_os\<lparr>sys_recv := (\<lambda>h fd len. (int (length b), b, EAGAIN))\<rparr>"

definition blank_frame :: message_frame where
  "blank_frame = \<lparr>mf_msg = replicate 512 (CHR 0x00), mf_msg_len = 512\<rparr>"

lemma blank_frame_wf: "frame_wf blank_frame"
  by (simp add: blank_frame_def frame_wf_def)

lemmas sample_evals = get_concatenated_msg_def sample_message_def empty_message_def split_token_def
  sendable_iff delivering_os_def chatting_client_def client_members_def

theorem received_line_is_printed_witness:
  "\<exists>t. receive_msg_from_sv (delivering_os (get_concatenated_msg sample_message)) (clear_msg blank_frame)
       (chatting_client []) = (Inr (clear_msg blank_frame), t) \<and> length (hist t) = 3"
proof -
  have "\<exists>t. receive_msg_from_sv (delivering_os (get_concatenated_msg sample_message)) (clear_msg blank_frame)
      (chatting_client []) = (Inr (clear_msg blank_frame), t) \<and>
    hist t = hist (chatting_client []) @ [Ev_recv (cl_socket (chatting_client []))
        (int (length (get_concatenated_msg sample_message)))] @
      (if sm_name sample_message = SERVER_NAME then []
       else [Ev_print (Cout (get_color COL_END @ COLOR_ARR ! nat 4 @ sm_id sample_message @ ''-'' @ get_color COL_END
               @ COLOR_ARR ! nat (cl_color_id (chatting_client []))))]) @
      [Ev_print (Cout (get_color COL_END @ COLOR_ARR ! nat 4 @ sm_name sample_message @ '': ''
         @ sm_msg_content sample_message @ get_color COL_END @ COLOR_ARR ! nat (cl_color_id (chatting_client []))
         @ [CHR 0x0A]))]"
    by (rule received_line_is_printed [where e = EAGAIN, OF blank_frame_wf])
      (simp_all add: sample_evals to_string_samples)
  then show ?thesis by (auto simp: sample_message_def SERVER_NAME_def empty_message_def chatting_client_def client_members_def)
qed

definition waiting_client :: "history \<Rightarrow> client" where
  "waiting_client h = (client_members 7 h)\<lparr>cl_name := ''ann'', cl_init_req := True, cl_socket := 3\<rparr>"

theorem confirmation_completes_client_witness:
  "\<exists>t. receive_msg_from_sv (delivering_os (get_concatenated_msg (sample_message\<lparr>sm_action := get_action INIT_REQ\<rparr>)))
       blank_frame (waiting_client []) = (Inr (clear_msg blank_frame), t) \<and>
     cl_id t = ''3'' \<and> cl_color_id t = 4 \<and> cl_init_done t"
  using confirmation_completes_client [where f = blank_frame and s = "waiting_client []" and c = 4 and e = EAGAIN
      and m = "sample_message\<lparr>sm_action := get_action INIT_REQ\<rparr>"
      and os = "delivering_os (get_concatenated_msg (sample_message\<lparr>sm_action := get_action INIT_REQ\<rparr>))",
      OF blank_frame_wf]
  by (force simp: sample_evals to_string_samples waiting_client_def quiet_os_def clean_behind_def blank_frame_def
      takeWhile_eq_Nil_iff)

subsection \<open>Every run of a session\<close>

fun sent :: "history \<Rightarrow> string list" where
  "sent [] = []"
| "sent (Ev_send fd b r # h) = b # sent h"
| "sent (_ # h) = sent h"

lemma sent_append [simp]: "sent (h @ h') = sent h @ sent h'"
  by (induction h rule: sent.induct) simp_all

lemma sent_prints [simp]: "sent (map Ev_print items) = []"
  by (induction items) simp_all

record session =
  se_send :: send_thread
  se_receive :: receive_thread
  se_client :: client

text \<open>The threads start after the constructor; then they take turns in any order until one of them
  has asked for the end.\<close>

inductive session_reach :: "os \<Rightarrow> session \<Rightarrow> bool" for os where
  launch: "Client_new os addr junk [] = (Inr (), s0) \<Longrightarrow>
    send_init os je (make_cl_socket_nonblocking os s0) = (Inr st, s1) \<Longrightarrow>
    receive_init os je' jm s1 = (Inr rt, s) \<Longrightarrow> length jm = MAX_LEN \<Longrightarrow>
    length je = MAX_EVENTS \<Longrightarrow> length je' = MAX_EVENTS \<Longrightarrow>
    session_reach os \<lparr>se_send = st, se_receive = rt, se_client = s\<rparr>"
| send_step: "session_reach os y \<Longrightarrow> \<not> client_done (se_client y) \<Longrightarrow>
    send_turn os (se_send y) (se_client y) = (Inr st, s) \<Longrightarrow>
    session_reach os (y\<lparr>se_send := st, se_client := s\<rparr>)"
| receive_step: "session_reach os y \<Longrightarrow> \<not> client_done (se_client y) \<Longrightarrow>
    receive_turn os (se_receive y) (se_client y) = (Inr rt, s) \<Longrightarrow>
    session_reach os (y\<lparr>se_receive := rt, se_client := s\<rparr>)"

text \<open>A turn that fails, with an exception that leaves the thread or with undefined behaviour, is the
  last one; the state is the one it had got to.\<close>

inductive session_halts :: "os \<Rightarrow> failure \<Rightarrow> session \<Rightarrow> bool" for os e where
  send_fails: "session_reach os y \<Longrightarrow> \<not> client_done (se_client y) \<Longrightarrow>
    send_turn os (se_send y) (se_client y) = (Inl e, s) \<Longrightarrow> session_halts os e (y\<lparr>se_client := s\<rparr>)"
| receive_fails: "session_reach os y \<Longrightarrow> \<not> client_done (se_client y) \<Longrightarrow>
    receive_turn os (se_receive y) (se_client y) = (Inl e, s) \<Longrightarrow> session_halts os e (y\<lparr>se_client := s\<rparr>)"

definition init_request :: "string \<Rightarrow> string" where
  "init_request name = get_concatenated_msg (empty_message\<lparr>sm_action := get_action INIT_REQ,
     sm_name := name, sm_color_id := to_string (int (color_index WHITE))\<rparr>)"

definition client_speaks :: "string \<Rightarrow> string \<Rightarrow> bool" where
  "client_speaks name b \<longleftrightarrow> (\<exists>m. b = get_concatenated_msg m \<and>
     sm_action m \<in> get_action ` {INIT_REQ, INIT_DONE, UNICAST_REPEATED, CL_DISCONNECTED} \<and>
     (sm_name m = name \<or> sm_action m = get_action INIT_DONE))"

definition client_ok :: "bool \<Rightarrow> 'z client_scheme \<Rightarrow> bool" where
  "client_ok r s \<longleftrightarrow> (r \<longrightarrow> cl_init_req s) \<and> 0 \<le> cl_socket s \<and>
     (cl_init_done s \<longrightarrow> cl_init_req s) \<and> (\<not> cl_init_done s \<longrightarrow> cl_id s = []) \<and>
     (\<not> cl_init_req s \<longrightarrow> cl_color_id s = int (color_index WHITE)) \<and>
     (\<forall>b \<in> set (sent (hist s)). client_speaks (cl_name s) b) \<and>
     (if cl_init_req s then \<exists>rest. sent (hist s) = init_request (cl_name s) # rest else sent (hist s) = [])"

text \<open>An outcome keeps the invariant when the state it leaves has it, whatever the outcome is.\<close>

definition keeps :: "('s \<Rightarrow> bool) \<Rightarrow> (failure, 'a, 's) outcome \<Rightarrow> bool" where
  "keeps I r \<longleftrightarrow> I (snd r)"

lemma keeps_simps [simp]: "keeps I (r, s) \<longleftrightarrow> I s" "keeps I (liftE x s) \<longleftrightarrow> I s"
  by (simp_all add: keeps_def liftE_def split: sum.splits)

lemma keeps_bind: "keeps I r \<Longrightarrow> (\<And>a s. r = (Inr a, s) \<Longrightarrow> I s \<Longrightarrow> keeps I (f a s)) \<Longrightarrow> keeps I (bindE r f)"
  by (auto simp: keeps_def bindE_def split: prod.splits sum.splits)

lemma keeps_print_exception:
  "keeps (client_ok r) x \<Longrightarrow> keeps (client_ok r) (handleE x (print_exception a))"
  by (cases x; cases "fst x") (auto simp: print_exception_def client_ok_def)

lemma client_ok_emit [simp]: "sent [e] = [] \<Longrightarrow> client_ok r (emit e s) \<longleftrightarrow> client_ok r s"
  by (simp add: client_ok_def)

lemma client_ok_print [simp]: "client_ok r (emit_print x s) \<longleftrightarrow> client_ok r s"
  by (simp add: emit_print_def)

lemma client_ok_prints [simp]: "client_ok r (fold emit_print items s) \<longleftrightarrow> client_ok r s"
  by (induction items arbitrary: s) simp_all

lemma client_ok_done [simp]: "client_ok r (s\<lparr>client_done := d\<rparr>) \<longleftrightarrow> client_ok r s"
  by (simp add: client_ok_def)

lemma client_ok_send:
  assumes "client_ok r s" "cl_init_req s" "client_speaks (cl_name s) b"
  shows "keeps (client_ok r) (client_send_msg os b s)"
  using assms by (auto simp: client_send_msg_def call_send_def client_ok_def Let_def)

lemma client_ok_calls:
  "client_ok r s \<Longrightarrow> keeps (client_ok r) (EpollManager_new os je s)"
  "client_ok r s \<Longrightarrow> keeps (client_ok r) (add_monitored_fd os em ep s)"
  "client_ok r s \<Longrightarrow> keeps (client_ok r) (wait_events os em s)"
  "client_ok r s \<Longrightarrow> keeps (client_ok r) (write_one os fd err s)"
  "client_ok r s \<Longrightarrow> keeps (client_ok r) (client_receive_msg os f s)"
  by (auto simp: EpollManager_new_def add_monitored_fd_def wait_events_def write_one_def call_write_evfd_def
      client_receive_msg_def call_recv_def Let_def split: prod.splits)

declare liftE_eq_Inr [simp]

lemma finalize_ok:
  assumes "client_ok r s" "cl_init_req s"
  shows "keeps (client_ok r) (finalize_init os m s)"
proof (cases "sm_action m = get_action INIT_REQ")
  case True
  have speaks: "client_speaks n (get_concatenated_msg ((reset_msg m)\<lparr>sm_action := get_action INIT_DONE\<rparr>))" for n
    unfolding client_speaks_def by (rule exI [of _ "(reset_msg m)\<lparr>sm_action := get_action INIT_DONE\<rparr>"]) simp
  have color: "keeps (client_ok r) (update_color c s)" for c
    using assms by (auto simp: update_color_def Let_def client_ok_def intro!: keeps_bind)
  have same: "cl_init_req t" if "update_color c s = (Inr u, t)" for c u t
    using that assms(2) by (auto simp: update_color_def Let_def bindE_eq_Inr)
  have ok: "client_ok r (t\<lparr>cl_id := i, cl_init_done := True\<rparr>)" if "client_ok r t" "cl_init_req t"
    for t :: "'a client_scheme" and i using that by (simp add: client_ok_def)
  have "keeps (client_ok r) (bindE (update_color c s) (\<lambda>_ s.
          let s = s\<lparr>cl_id := sm_id m, cl_init_done := True\<rparr>;
              msg = (reset_msg m)\<lparr>sm_action := get_action INIT_DONE\<rparr> in
          bindE (client_send_msg os (get_concatenated_msg msg) s) (\<lambda>_ s. (Inr (reset_msg msg), s))))" for c
    unfolding Let_def by (auto intro!: keeps_bind color client_ok_send ok speaks [simplified] dest: same)
  then show ?thesis
    using True assms(1) by (cases "stoi (sm_color_id m)") (simp_all add: finalize_init_def)
qed (simp add: finalize_init_def assms)

lemma process_received_ok: "client_ok r s \<Longrightarrow> keeps (client_ok r) (process_received os ret f s)"
  unfolding process_received_def
  by (auto intro!: keeps_bind client_ok_calls finalize_ok)

lemma receive_from_sv_ok:
  assumes "client_ok r s"
  shows "keeps (client_ok r) (receive_msg_from_sv os f s)"
  using client_ok_calls(5) [OF assms, of os f]
  by (auto simp: receive_msg_from_sv_def print_exception_def intro!: keeps_print_exception process_received_ok
      split: prod.splits sum.splits)

lemma receive_turn_ok: "client_ok r s \<Longrightarrow> keeps (client_ok r) (receive_turn os rt s)"
  unfolding receive_turn_def Let_def
  by (auto intro!: keeps_bind client_ok_calls receive_from_sv_ok)

lemma send_and_reset_ok:
  "client_ok r s \<Longrightarrow> cl_init_req s \<Longrightarrow> client_speaks (cl_name s) (get_concatenated_msg m) \<Longrightarrow>
   keeps (client_ok r) (send_and_reset os m s)"
  unfolding send_and_reset_def
  by (auto intro!: keeps_print_exception keeps_bind client_ok_send)

lemma stdin_ok:
  assumes "client_ok r s" "cl_init_req s"
  shows "keeps (client_ok r) (send_msg_from_stdin os m s)"
proof -
  have speaks: "client_speaks (cl_name s) (get_concatenated_msg (client_quit_message t m))"
    "client_speaks (cl_name s) (get_concatenated_msg (client_chat_message t b m))" if "cl_name t = cl_name s" for b and t :: "'a client_scheme"
    unfolding client_speaks_def
     apply (rule exI [of _ "client_quit_message t m"], simp add: client_quit_message_def that)
    apply (rule exI [of _ "client_chat_message t b m"], simp add: client_chat_message_def that)
    done
  show ?thesis
    using assms by (auto simp: send_msg_from_stdin_def Let_def intro!: send_and_reset_ok speaks split: option.splits)
qed

lemma send_turn_up:
  assumes "client_ok True s"
  shows "keeps (client_ok True) (send_turn os st s)"
proof -
  have up: "cl_init_req t" if "client_ok True t" for t :: "'a client_scheme" using that by (simp add: client_ok_def)
  show ?thesis
    using assms by (auto simp: send_turn_def Let_def up intro!: keeps_bind client_ok_calls stdin_ok)
qed

lemma send_turn_first:
  assumes "client_ok False s" "\<not> cl_init_req s" "st_msg st = empty_message" "send_turn os st s = (Inr st', t)"
  shows "client_ok False t \<and> (cl_init_req t \<or> st' = st)"
proof (cases "cl_name s = []")
  case False
  let ?m = "init_req_message s empty_message"
  have "get_concatenated_msg ?m = init_request (cl_name s)" "client_speaks (cl_name s) (get_concatenated_msg ?m)"
    using assms(1,2) unfolding client_speaks_def
    by (auto simp: init_req_message_def init_request_def client_ok_def intro!: exI [of _ ?m])
  with assms False show ?thesis
    by (auto simp: send_turn_def Let_def client_send_msg_def call_send_def client_ok_def split: if_splits)
qed (use assms in \<open>auto simp: send_turn_def\<close>)

definition session_ok :: "session \<Rightarrow> bool" where
  "session_ok y \<longleftrightarrow> client_ok False (se_client y) \<and> frame_wf (rt_frame (se_receive y)) \<and>
     (cl_init_req (se_client y) \<or> st_msg (se_send y) = empty_message)"

lemma client_ok_up: "client_ok False s \<Longrightarrow> cl_init_req s \<Longrightarrow> client_ok True s"
  "client_ok True s \<Longrightarrow> client_ok False s \<and> cl_init_req s"
  by (auto simp: client_ok_def)

lemma receive_frame_ok:
  assumes "recv_spec os" "frame_wf f" "receive_msg_from_sv os f s = (Inr g, t)"
  shows "frame_wf g"
proof -
  have len: "mf_msg_len f = 512" using assms(2) by (simp add: frame_wf_def)
  have "length d \<le> 512" if "sys_recv os h fd 512 = (r, d, e)" for h fd r d e
    using assms(1) that by (fastforce simp: recv_spec_def)
  then have read: "frame_wf g'" if "client_receive_msg os f s = (Inr (n, g'), u)" for n g' u
    using that assms(2)
    by (auto simp: client_receive_msg_def call_recv_def len Let_def split: if_splits prod.splits)
  have "frame_wf h" if "frame_wf g'" "handleE (process_received os n g' u) (print_exception g') = (Inr h, v)"
    for n g' u h v
    using that by (auto simp: handleE_def process_received_def print_exception_def bindE_eq_Inr
        split: prod.splits sum.splits if_splits)
  with read assms(2,3) show ?thesis
    by (auto simp: receive_msg_from_sv_def print_exception_def split: prod.splits sum.splits if_splits)
qed

lemma launch_ok:
  assumes "Client_new os addr junk [] = (Inr (), s0)"
    and "send_init os je (make_cl_socket_nonblocking os s0) = (Inr st, s1)"
    and "receive_init os je' jm s1 = (Inr rt, s)" "length jm = MAX_LEN"
    and "length je = MAX_EVENTS" "length je' = MAX_EVENTS"
  shows "session_ok \<lparr>se_send = st, se_receive = rt, se_client = s\<rparr>"
proof -
  have "client_ok False s0 \<and> \<not> cl_init_req s0"
    using assms(1) by (auto simp: Client_new_def client_members_def get_evfd_def set_name_def client_ok_def
        get_color_int_def Let_def bindE_eq_Inr split: if_splits)
  then have "client_ok False (make_cl_socket_nonblocking os s0)"
    by (simp add: make_cl_socket_nonblocking_def Let_def)
  then have "keeps (client_ok False) (send_init os je (make_cl_socket_nonblocking os s0))"
    unfolding send_init_def by (auto intro!: keeps_bind client_ok_calls)
  then have "client_ok False s1" using assms(2) by simp
  then have "keeps (client_ok False) (receive_init os je' jm s1)"
    unfolding receive_init_def by (auto intro!: keeps_bind client_ok_calls)
  moreover have "frame_wf (rt_frame rt)" "st_msg st = empty_message"
    using assms(2-4) by (auto simp: send_init_def receive_init_def bindE_eq_Inr frame_wf_def)
  ultimately show ?thesis using assms(3) by (simp add: session_ok_def)
qed

lemma session_reach_ok:
  assumes "recv_spec os"
  shows "session_reach os y \<Longrightarrow> session_ok y"
proof (induction rule: session_reach.induct)
  case (send_step y st s)
  then show ?case
    using send_turn_first [of "se_client y" "se_send y" os st s]
      send_turn_up [of "se_client y" os "se_send y"] client_ok_up
    by (cases "cl_init_req (se_client y)") (auto simp: session_ok_def)
next
  case (receive_step y rt s)
  have "frame_wf (rt_frame rt)"
    using receive_step receive_frame_ok [OF assms]
    by (auto simp: session_ok_def receive_turn_def bindE_eq_Inr Let_def split: if_splits)
  moreover have "client_ok False s \<and> (cl_init_req (se_client y) \<longrightarrow> cl_init_req s)"
    using receive_step receive_turn_ok [of False "se_client y" os "se_receive y"]
      receive_turn_ok [of True "se_client y" os "se_receive y"] client_ok_up
    by (auto simp: session_ok_def)
  ultimately show ?case using receive_step by (auto simp: session_ok_def)
qed (rule launch_ok)

text \<open>The first turn of the sending thread may also fail: then the request may have gone out all the
  same.\<close>

lemma send_turn_first_fails:
  assumes "client_ok False s" "\<not> cl_init_req s" "st_msg st = empty_message" "send_turn os st s = (Inl e, t)"
  shows "\<not> cl_init_req t \<and> \<not> cl_init_done t \<and> cl_id t = [] \<and> set (sent (hist t)) \<subseteq> {init_request (cl_name t)} \<and>
    length (sent (hist t)) \<le> 1"
proof (cases "cl_name s = []")
  case False
  have "get_concatenated_msg (init_req_message s empty_message) = init_request (cl_name s)"
    using assms(1,2) by (simp add: init_req_message_def init_request_def client_ok_def)
  with assms False show ?thesis
    by (auto simp: send_turn_def Let_def client_send_msg_def call_send_def client_ok_def split: if_splits)
qed (use assms in \<open>auto simp: send_turn_def\<close>)

lemma init_request_spoken: "client_speaks n (init_request n)"
  unfolding client_speaks_def init_request_def
  by (rule exI [of _ "empty_message\<lparr>sm_action := get_action INIT_REQ, sm_name := n,
      sm_color_id := to_string (int (color_index WHITE))\<rparr>"]) simp

text \<open>What holds of the client's members whenever it is looked at.\<close>

definition follows_protocol :: "'z client_scheme \<Rightarrow> bool" where
  "follows_protocol s \<longleftrightarrow>
     (case sent (hist s) of
        [] \<Rightarrow> \<not> cl_init_req s
      | b # rest \<Rightarrow> b = init_request (cl_name s) \<and> (rest \<noteq> [] \<longrightarrow> cl_init_req s)) \<and>
     (\<forall>b \<in> set (sent (hist s)). client_speaks (cl_name s) b) \<and>
     (cl_init_done s \<longrightarrow> cl_init_req s) \<and> (\<not> cl_init_done s \<longrightarrow> get_id s = ID_UNINITIALIZED)"

lemma client_ok_protocol: "client_ok r s \<Longrightarrow> follows_protocol s"
  by (auto simp: client_ok_def follows_protocol_def get_id_def split: if_splits list.splits)

lemma session_halts_protocol:
  assumes "recv_spec os" "session_halts os e y"
  shows "follows_protocol (se_client y)"
  using assms(2)
proof cases
  case (send_fails x s)
  have x: "session_ok x" by (rule session_reach_ok [OF assms(1) send_fails(2)])
  show ?thesis
  proof (cases "cl_init_req (se_client x)")
    case True
    with x send_turn_up [of "se_client x" os "se_send x"] send_fails client_ok_up have "client_ok True s"
      by (auto simp: session_ok_def)
    with send_fails(1) client_ok_protocol show ?thesis by auto
  next
    case False
    with x send_turn_first_fails [OF _ _ _ send_fails(4)] have t: "\<not> cl_init_req s" "\<not> cl_init_done s" "cl_id s = []"
      "set (sent (hist s)) \<subseteq> {init_request (cl_name s)}" "length (sent (hist s)) \<le> 1" by (auto simp: session_ok_def)
    with init_request_spoken [of "cl_name s"] have "follows_protocol s"
      by (cases "sent (hist s)") (auto simp: follows_protocol_def get_id_def)
    with send_fails(1) show ?thesis by simp
  qed
next
  case (receive_fails x s)
  have "session_ok x" by (rule session_reach_ok [OF assms(1) receive_fails(2)])
  with receive_turn_ok [of False "se_client x" os "se_receive x"] receive_fails have "client_ok False s"
    by (simp add: session_ok_def)
  with receive_fails(1) client_ok_protocol show ?thesis by auto
qed

text \<open>C15: in every run of the client, however its two threads are interleaved and whatever the
  user, the kernel and the server do, and also in the state in which a turn fails, by an exception
  that leaves its thread or by undefined behaviour: nothing is sent before the request to join,
  which carries the name and comes first, and nothing after it before it has been recorded as
  sent; everything sent is a join request, its completion, a chat line or the notice of leaving,
  under the user's name; the id stays unset until the server has confirmed, and the handshake never
  runs backwards.\<close>

theorem session_follows_protocol:
  assumes "recv_spec os" and "session_reach os y \<or> session_halts os e y"
  shows "(case sent (hist (se_client y)) of
        [] \<Rightarrow> \<not> cl_init_req (se_client y)
      | b # rest \<Rightarrow> b = init_request (cl_name (se_client y)) \<and> (rest \<noteq> [] \<longrightarrow> cl_init_req (se_client y))) \<and>
    (\<forall>b \<in> set (sent (hist (se_client y))). client_speaks (cl_name (se_client y)) b) \<and>
    (cl_init_done (se_client y) \<longrightarrow> cl_init_req (se_client y)) \<and>
    (\<not> cl_init_done (se_client y) \<longrightarrow> get_id (se_client y) = ID_UNINITIALIZED)"
proof -
  have "follows_protocol (se_client y)"
    using assms(2) session_reach_ok [OF assms(1), of y] session_halts_protocol [OF assms(1), of e y]
      client_ok_protocol [of False "se_client y"] by (auto simp: session_ok_def)
  then show ?thesis unfolding follows_protocol_def .
qed

lemma quiet_launch:
  "\<exists>st rt s. session_reach quiet_os \<lparr>se_send = st, se_receive = rt, se_client = s\<rparr> \<and>
     cl_name s = ''ann'' \<and> \<not> client_done s \<and> \<not> cl_init_req s \<and> cl_socket s = 3"
proof -
  obtain s0 where s0: "Client_new quiet_os LOCALHOST 0 [] = (Inr (), s0)" "cl_name s0 = ''ann''" "cl_socket s0 = 3"
    "cl_event_fd s0 = 7" "\<not> client_done s0" "\<not> cl_init_req s0"
    by (simp add: Client_new_def client_members_def get_evfd_def quiet_os_def set_name_def get_color_int_def Let_def)
  let ?s = "make_cl_socket_nonblocking quiet_os s0"
  have s: "cl_name ?s = ''ann''" "cl_socket ?s = 3" "cl_event_fd ?s = 7" "\<not> client_done ?s" "\<not> cl_init_req ?s"
    using s0 by (simp_all add: make_cl_socket_nonblocking_def Let_def)
  obtain st s1 where s1: "send_init quiet_os (replicate 20 (0, 0)) ?s = (Inr st, s1)" "cl_name s1 = ''ann''" "cl_socket s1 = 3"
    "\<not> client_done s1" "\<not> cl_init_req s1"
    using s by (simp add: send_init_def EpollManager_new_def add_monitored_fd_def quiet_os_def STDIN_FILENO_def Let_def)
  obtain rt s2 where s2: "receive_init quiet_os (replicate 20 (0, 0)) (replicate 512 (CHR 0x00)) s1 = (Inr rt, s2)" "cl_name s2 = ''ann''"
    "cl_socket s2 = 3" "\<not> client_done s2" "\<not> cl_init_req s2"
    using s1(2-) by (simp add: receive_init_def EpollManager_new_def add_monitored_fd_def quiet_os_def Let_def)
  show ?thesis using session_reach.launch [OF s0(1) s1(1) s2(1)] s2(2-) by auto
qed

lemma quiet_session:
  "\<exists>y. session_reach quiet_os y \<and> cl_init_req (se_client y) \<and> cl_name (se_client y) = ''ann''"
proof -
  obtain st rt s where s: "session_reach quiet_os \<lparr>se_send = st, se_receive = rt, se_client = s\<rparr>"
    "cl_name s = ''ann''" "\<not> client_done s" "\<not> cl_init_req s" "cl_socket s = 3"
    using quiet_launch by blast
  obtain st' t where t: "send_turn quiet_os st s = (Inr st', t)" "cl_init_req t" "cl_name t = ''ann''"
    using s(2-) by (simp add: send_turn_def client_send_ok quiet_os_def Let_def)
  show ?thesis using session_reach.send_step [OF s(1), of st' t] s(3) t by auto
qed

theorem session_follows_protocol_witness:
  "\<exists>y. session_reach quiet_os y \<and> (\<exists>rest. sent (hist (se_client y)) = init_request ''ann'' # rest)"
proof -
  obtain y where y: "session_reach quiet_os y" "cl_init_req (se_client y)" "cl_name (se_client y) = ''ann''"
    using quiet_session by blast
  from y(1) have "session_reach quiet_os y \<or> session_halts quiet_os (Blocked []) y" by simp
  from session_follows_protocol [OF quiet_os_specs(4) this] y show ?thesis by (auto split: list.splits)
qed

subsection \<open>What goes wrong\<close>

text \<open>C39: a read that would block is taken for the end of the connection: the client stops, and
  both loops end at their next test, although the server is still there.\<close>

theorem would_block_ends_session:
  assumes "0 \<le> cl_socket s" and "0 \<le> cl_event_fd s" and "evfd_spec os"
    and "sys_recv os (hist s) (cl_socket s) (mf_msg_len f) = (- 1, data, EAGAIN)"
  shows "\<exists>t. receive_msg_from_sv os f s = (Inr f, t) \<and> client_done t \<and>
    start_send_loop n os st t = Some (Inr (), EpollManager_destroy (st_em st) t) \<and>
    start_receive_loop n os rt t = Some (Inr (), EpollManager_destroy (rt_em rt) t)"
proof -
  have "write_one os (cl_event_fd s) x u = (Inr (), emit (Ev_write_evfd (cl_event_fd s) event_size) u)"
    for x and u :: "'a client_scheme"
    using assms(2,3) by (simp add: write_one_def call_write_evfd_def evfd_spec_def Let_def)
  then show ?thesis
    using assms(1,4) by (simp add: receive_msg_from_sv_def client_receive_msg_def process_received_def call_recv_def
        start_send_loop.simps [of n] start_receive_loop.simps [of n] Let_def)
qed

theorem would_block_ends_session_witness:
  "\<exists>t. receive_msg_from_sv quiet_os blank_frame (chatting_client []) = (Inr blank_frame, t) \<and> client_done t"
proof -
  have "0 \<le> cl_socket (chatting_client [])" "0 \<le> cl_event_fd (chatting_client [])"
    "sys_recv quiet_os (hist (chatting_client [])) (cl_socket (chatting_client [])) (mf_msg_len blank_frame) = (- 1, [], EAGAIN)"
    by (simp_all add: chatting_client_def client_members_def quiet_os_def)
  from would_block_ends_session [OF this(1,2) quiet_os_specs(2) this(3)] show ?thesis by blast
qed

text \<open>The client takes over whatever colour the server confirms. A number outside the colour table
  is stored first and then used as an index: the read is undefined, and the client is left with
  the new colour but without the id and unconfirmed.\<close>

theorem server_colour_not_checked:
  assumes "frame_wf f" and "0 \<le> cl_socket s" and "cl_init_req s" and "\<not> cl_init_done s"
    and "sys_recv os (hist s) (cl_socket s) (int MAX_LEN) = (int (length (get_concatenated_msg m)), get_concatenated_msg m, e)"
    and "sendable m" and "CHR 0x00 \<notin> set (get_concatenated_msg m)" and "length (get_concatenated_msg m) < MAX_LEN"
    and "clean_behind (length (get_concatenated_msg m)) f"
    and "sm_action m = get_action INIT_REQ" and "stoi (sm_color_id m) = Inr c" and "c < 0 \<or> 14 < c"
  shows "\<exists>t. receive_msg_from_sv os f s = (Inl (Undefined_behaviour ''COLOR_ARR index out of range''), t) \<and>
    cl_color_id t = c \<and> cl_id t = cl_id s \<and> \<not> cl_init_done t"
proof -
  have "get_color_int c = Inl (Undefined_behaviour ''COLOR_ARR index out of range'')"
    using assms(12) by (auto simp: get_color_int_def COLOR_ARR_def)
  then show ?thesis
    using client_receives [OF assms(1-3,5-9)] assms(4,10,11)
    by (auto simp: finalize_init_def update_color_def print_exception_def Let_def)
qed

theorem server_colour_not_checked_witness:
  "\<exists>t. receive_msg_from_sv (delivering_os ''`INIT_REQ``3`ann`99```'') blank_frame (waiting_client []) =
     (Inl (Undefined_behaviour ''COLOR_ARR index out of range''), t) \<and> cl_color_id t = 99"
proof -
  let ?m = "empty_message\<lparr>sm_action := get_action INIT_REQ, sm_id := ''3'', sm_name := ''ann'', sm_color_id := ''99''\<rparr>"
  have b: "get_concatenated_msg ?m = ''`INIT_REQ``3`ann`99```''"
    by (simp add: get_concatenated_msg_def empty_message_def split_token_def)
  have c: "stoi ''99'' = Inr 99" by code_simp
  show ?thesis
    using server_colour_not_checked [where f = blank_frame and s = "waiting_client []" and c = 99 and e = EAGAIN and m = ?m
        and os = "delivering_os ''`INIT_REQ``3`ann`99```''", unfolded b, OF blank_frame_wf] c
    by (fastforce simp: waiting_client_def client_members_def delivering_os_def clean_behind_def blank_frame_def sendable_iff
        empty_message_def split_token_def takeWhile_eq_Nil_iff)
qed

text \<open>With an empty name (end of input at the prompt) the sending thread never sends
  anything and never ends: every turn changes nothing, for any number of turns.\<close>

theorem empty_name_never_starts:
  assumes "cl_name s = []" and "\<not> cl_init_req s" and "\<not> client_done s"
  shows "send_turn os st s = (Inr st, s) \<and> start_send_loop n os st s = None"
proof -
  have turn: "send_turn os st s = (Inr st, s)" using assms by (simp add: send_turn_def)
  have "start_send_loop n os st s = None"
    by (induction n) (simp_all add: start_send_loop.simps assms(3) turn)
  with turn show ?thesis by simp
qed

theorem empty_name_never_starts_witness:
  "start_send_loop 1000 quiet_os \<lparr>st_em = \<lparr>epfd = 5, events = []\<rparr>, st_msg = empty_message\<rparr> (client_members 7 []) = None"
  using empty_name_never_starts [of "client_members 7 []"] by (simp add: client_members_def)

text \<open>A text that was rejected stays in the frame. The next message, if shorter, is then read
  together with the rest of the rejected text, and is rejected too whenever that rest holds a
  separator: one bad read spoils the messages after it.\<close>

theorem rejected_text_spoils_next:
  assumes "frame_wf f" and "CHR 0x00 \<notin> set bad" and "length bad < MAX_LEN" and "CHR 0x00 \<notin> set good"
    and "length good < length bad" and "count_list bad split_token \<noteq> 8" and "count_list good split_token = 8"
    and "split_token \<in> set (drop (length good) bad)" and "cl_init_req s"
  shows "(\<exists>e t. process_received os (int (length bad)) (recv_into bad (clear_msg f)) s = (Inl e, t)) \<and>
    (\<exists>e t. process_received os (int (length good)) (recv_into good (recv_into bad (clear_msg f))) s = (Inl e, t))"
proof -
  let ?tail = "drop (length good) bad"
  have pos: "good \<noteq> []" "bad \<noteq> []" using assms(5,7) by auto
  have "CHR 0x00 \<notin> set (good @ ?tail)" using assms(2,4) by (auto dest: in_set_dropD)
  moreover have "length (good @ ?tail) < 512" using assms(3,5) by simp
  ultimately have "string_of_array (mf_msg (recv_into (good @ ?tail) (clear_msg f))) = Inr (good @ ?tail)"
    using string_of_cleared [OF assms(1)] by simp
  moreover have "recv_into good (recv_into bad (clear_msg f)) = recv_into (good @ ?tail) (clear_msg f)"
    using assms(5) by (simp add: recv_into_def)
  moreover have "\<exists>e. construct_from_string (good @ ?tail) empty_message = Inl e"
    using assms(7,8) by (simp add: construct_rejects_iff count_list_0_iff)
  moreover have "\<exists>e. construct_from_string bad empty_message = Inl e"
    using assms(6) by (simp add: construct_rejects_iff)
  ultimately show ?thesis
    using string_of_cleared [OF assms(1-3)] pos assms(9) by (auto simp: process_received_def)
qed

theorem rejected_text_spoils_next_witness:
  "\<exists>e t. process_received quiet_os 8 (recv_into ''````````'' (recv_into ''ab`cd`ef`gh`ij`k'' (clear_msg blank_frame)))
      (chatting_client []) = (Inl e, t)"
  using rejected_text_spoils_next [OF blank_frame_wf, of "''ab`cd`ef`gh`ij`k''" "''````````''" "chatting_client []" quiet_os]
  by (simp add: split_token_def chatting_client_def)

end
