(* ===== verification/Atomic_Queue.thy ===== *)
theory Atomic_Queue
  imports Queue_Index
begin

unbundle bit_operations_syntax

text \<open>
  The queue of \<^verbatim>\<open>include/Atomic_queue/atomic_queue.h\<close>. The class template \<^verbatim>\<open>AtomicQueueCommon\<close>
  is parameterised by the class derived from it, which supplies \<^verbatim>\<open>size_\<close>, \<^verbatim>\<open>do_push\<close> and
  \<^verbatim>\<open>do_pop\<close>; here that class is the record \<open>derived\<close> the operations take, and the contract the
  base relies on is the locale \<open>slot_store\<close>.

  The functions below are one call run without interference from other threads. There the
  branch for a single producer and consumer (\<^verbatim>\<open>spsc_\<close>) and the compare-and-swap branch do the
  same, since a weak compare-and-swap that fails spuriously is retried on the same value. A
  call that waits for another thread to change a slot does not return: \<open>None\<close>.
\<close>

subsection \<open>The queue base\<close>

record ('a, 'c) derived =
  d_size :: u32
  do_push :: "'a \<Rightarrow> u32 \<Rightarrow> 'c \<Rightarrow> 'c option"
  do_pop :: "u32 \<Rightarrow> 'c \<Rightarrow> ('a \<times> 'c) option"

record 'c queue_common =
  q_head :: u32
  q_tail :: u32
  q_cells :: 'c

text \<open>\<^verbatim>\<open>static_cast<int>\<close> of an \<^verbatim>\<open>unsigned\<close>.\<close>

definition as_int :: "u32 \<Rightarrow> int" where
  "as_int w = sint w"

definition try_push :: "('a, 'c) derived \<Rightarrow> 'a \<Rightarrow> 'c queue_common \<Rightarrow> (bool \<times> 'c queue_common) option" where
  "try_push D element q =
     (let head = q_head q in
      if as_int (d_size D) \<le> as_int (head - q_tail q) then Some (False, q)
      else (case do_push D element head (q_cells q) of
              None \<Rightarrow> None
            | Some c \<Rightarrow> Some (True, q\<lparr>q_head := head + 1, q_cells := c\<rparr>)))"

definition try_pop :: "('a, 'c) derived \<Rightarrow> 'c queue_common \<Rightarrow> ('a option \<times> 'c queue_common) option" where
  "try_pop D q =
     (let tail = q_tail q in
      if as_int (q_head q - tail) \<le> 0 then Some (None, q)
      else (case do_pop D tail (q_cells q) of
              None \<Rightarrow> None
            | Some (element, c) \<Rightarrow> Some (Some element, q\<lparr>q_tail := tail + 1, q_cells := c\<rparr>)))"

definition push :: "('a, 'c) derived \<Rightarrow> 'a \<Rightarrow> 'c queue_common \<Rightarrow> 'c queue_common option" where
  "push D element q =
     (case do_push D element (q_head q) (q_cells q) of
        None \<Rightarrow> None
      | Some c \<Rightarrow> Some (q\<lparr>q_head := q_head q + 1, q_cells := c\<rparr>))"

definition pop :: "('a, 'c) derived \<Rightarrow> 'c queue_common \<Rightarrow> ('a \<times> 'c queue_common) option" where
  "pop D q =
     (case do_pop D (q_tail q) (q_cells q) of
        None \<Rightarrow> None
      | Some (element, c) \<Rightarrow> Some (element, q\<lparr>q_tail := q_tail q + 1, q_cells := c\<rparr>))"

definition was_size :: "'c queue_common \<Rightarrow> u32" where
  "was_size q = (let n = q_head q - q_tail q in if as_int n < 0 then 0 else n)"

definition was_empty :: "'c queue_common \<Rightarrow> bool" where
  "was_empty q \<longleftrightarrow> was_size q = 0"

definition capacity :: "('a, 'c) derived \<Rightarrow> u32" where
  "capacity D = d_size D"

definition was_full :: "('a, 'c) derived \<Rightarrow> 'c queue_common \<Rightarrow> bool" where
  "was_full D q \<longleftrightarrow> capacity D \<le> was_size q"

subsection \<open>Slots with a state byte: AtomicQueue2 and AtomicQueueB2\<close>

datatype slot_state = EMPTY | STORING | STORED | LOADING

record 'a state_cells =
  q_states :: "slot_state list"
  q_elements :: "'a list"

text \<open>
  \<open>moved_from\<close> is what \<^verbatim>\<open>std::move\<close> leaves in the slot: valid but unspecified, so a parameter.
\<close>

definition do_pop_any :: "('a \<Rightarrow> 'a) \<Rightarrow> nat \<Rightarrow> 'a state_cells \<Rightarrow> ('a \<times> 'a state_cells) option" where
  "do_pop_any moved_from i c =
     (if q_states c ! i = STORED
      then Some (q_elements c ! i,
             c\<lparr>q_states := (q_states c)[i := EMPTY],
               q_elements := (q_elements c)[i := moved_from (q_elements c ! i)]\<rparr>)
      else None)"

definition do_push_any :: "'a \<Rightarrow> nat \<Rightarrow> 'a state_cells \<Rightarrow> 'a state_cells option" where
  "do_push_any element i c =
     (if q_states c ! i = EMPTY
      then Some (c\<lparr>q_elements := (q_elements c)[i := element], q_states := (q_states c)[i := STORED]\<rparr>)
      else None)"

definition AtomicQueue2 :: "('a \<Rightarrow> 'a) \<Rightarrow> u32 \<Rightarrow> bool \<Rightarrow> ('a, 'a state_cells) derived" where
  "AtomicQueue2 moved_from SIZE MINIMIZE_CONTENTION =
     (let size = (if MINIMIZE_CONTENTION then round_up_to_power_of_2 SIZE else SIZE);
          SHUFFLE_BITS = GetIndexShuffleBits MINIMIZE_CONTENTION size (CACHE_LINE_SIZE div 1);
          index = (\<lambda>t. unat (remap_index SHUFFLE_BITS (t mod size)))
      in \<lparr>d_size = size,
          do_push = (\<lambda>element head. do_push_any element (index head)),
          do_pop = (\<lambda>tail. do_pop_any moved_from (index tail))\<rparr>)"

definition AtomicQueueB2 :: "('a \<Rightarrow> 'a) \<Rightarrow> u32 \<Rightarrow> ('a, 'a state_cells) derived" where
  "AtomicQueueB2 moved_from sz =
     (let SHUFFLE_BITS = GetCacheLineIndexBits (CACHE_LINE_SIZE div 1);
          size = max (round_up_to_power_of_2 sz) (push_bit (SHUFFLE_BITS * 2) 1);
          index = (\<lambda>t. unat (remap_index SHUFFLE_BITS (t AND (size - 1))))
      in \<lparr>d_size = size,
          do_push = (\<lambda>element head. do_push_any element (index head)),
          do_pop = (\<lambda>tail. do_pop_any moved_from (index tail))\<rparr>)"

definition empty_state_cells :: "nat \<Rightarrow> 'a \<Rightarrow> 'a state_cells" where
  "empty_state_cells n dflt = \<lparr>q_states = replicate n EMPTY, q_elements = replicate n dflt\<rparr>"

definition new_queue :: "'c \<Rightarrow> 'c queue_common" where
  "new_queue c = \<lparr>q_head = 0, q_tail = 0, q_cells = c\<rparr>"

subsection \<open>Slots that are atomics: AtomicQueue and AtomicQueueB\<close>

definition do_pop_atomic :: "'a \<Rightarrow> nat \<Rightarrow> 'a list \<Rightarrow> ('a \<times> 'a list) option" where
  "do_pop_atomic NIL i c = (if c ! i \<noteq> NIL then Some (c ! i, c[i := NIL]) else None)"

definition do_push_atomic :: "'a \<Rightarrow> 'a \<Rightarrow> nat \<Rightarrow> 'a list \<Rightarrow> 'a list option" where
  "do_push_atomic NIL element i c = (if c ! i = NIL then Some (c[i := element]) else None)"

definition AtomicQueue :: "'a \<Rightarrow> nat \<Rightarrow> u32 \<Rightarrow> bool \<Rightarrow> ('a, 'a list) derived" where
  "AtomicQueue NIL sizeof_T SIZE MINIMIZE_CONTENTION =
     (let size = (if MINIMIZE_CONTENTION then round_up_to_power_of_2 SIZE else SIZE);
          SHUFFLE_BITS = GetIndexShuffleBits MINIMIZE_CONTENTION size (CACHE_LINE_SIZE div sizeof_T);
          index = (\<lambda>t. unat (remap_index SHUFFLE_BITS (t mod size)))
      in \<lparr>d_size = size,
          do_push = (\<lambda>element head. do_push_atomic NIL element (index head)),
          do_pop = (\<lambda>tail. do_pop_atomic NIL (index tail))\<rparr>)"

definition AtomicQueueB :: "'a \<Rightarrow> nat \<Rightarrow> u32 \<Rightarrow> ('a, 'a list) derived" where
  "AtomicQueueB NIL sizeof_T sz =
     (let SHUFFLE_BITS = GetCacheLineIndexBits (CACHE_LINE_SIZE div sizeof_T);
          size = max (round_up_to_power_of_2 sz) (push_bit (SHUFFLE_BITS * 2) 1);
          index = (\<lambda>t. unat (remap_index SHUFFLE_BITS (t AND (size - 1))))
      in \<lparr>d_size = size,
          do_push = (\<lambda>element head. do_push_atomic NIL element (index head)),
          do_pop = (\<lambda>tail. do_pop_atomic NIL (index tail))\<rparr>)"

subsection \<open>The specification: a bounded FIFO list\<close>

datatype 'a queue_op = Try_push 'a | Try_pop

datatype 'a queue_answer = Pushed bool | Popped "'a option"

fun spec_step :: "nat \<Rightarrow> 'a queue_op \<Rightarrow> 'a list \<Rightarrow> 'a queue_answer \<times> 'a list" where
  "spec_step cap (Try_push x) xs =
     (if length xs < cap then (Pushed True, xs @ [x]) else (Pushed False, xs))"
| "spec_step cap Try_pop [] = (Popped None, [])"
| "spec_step cap Try_pop (x # xs) = (Popped (Some x), xs)"

fun spec_run :: "nat \<Rightarrow> 'a queue_op list \<Rightarrow> 'a list \<Rightarrow> 'a queue_answer list \<times> 'a list" where
  "spec_run cap [] xs = ([], xs)"
| "spec_run cap (op # ops) xs =
     (let (a, ys) = spec_step cap op xs; (as, zs) = spec_run cap ops ys in (a # as, zs))"

text \<open>The same sequence of calls on an implementation, given by its two operations.\<close>

fun impl_step ::
  "('a \<Rightarrow> 'q \<Rightarrow> (bool \<times> 'q) option) \<Rightarrow> ('q \<Rightarrow> ('a option \<times> 'q) option) \<Rightarrow>
   'a queue_op \<Rightarrow> 'q \<Rightarrow> ('a queue_answer \<times> 'q) option" where
  "impl_step psh pp (Try_push x) q = map_option (map_prod Pushed (\<lambda>r. r)) (psh x q)"
| "impl_step psh pp Try_pop q = map_option (map_prod Popped (\<lambda>r. r)) (pp q)"

fun impl_run ::
  "('a \<Rightarrow> 'q \<Rightarrow> (bool \<times> 'q) option) \<Rightarrow> ('q \<Rightarrow> ('a option \<times> 'q) option) \<Rightarrow>
   'a queue_op list \<Rightarrow> 'q \<Rightarrow> ('a queue_answer list \<times> 'q) option" where
  "impl_run psh pp [] q = Some ([], q)"
| "impl_run psh pp (op # ops) q =
     (case impl_step psh pp op q of
        None \<Rightarrow> None
      | Some (a, q') \<Rightarrow> map_option (map_prod (\<lambda>as. a # as) (\<lambda>r. r)) (impl_run psh pp ops q'))"

fun pushed_values :: "'a queue_op list \<Rightarrow> 'a list" where
  "pushed_values [] = []"
| "pushed_values (Try_push x # ops) = x # pushed_values ops"
| "pushed_values (Try_pop # ops) = pushed_values ops"

text \<open>
  The contract of a thread-safe queue, the concept \<^verbatim>\<open>Q_ThrS_Str\<close> the server is written
  against: \<open>items\<close> is what the queue holds, oldest first, and \<open>ok\<close> the values it can carry.
\<close>

locale thread_safe_queue =
  fixes psh :: "'a \<Rightarrow> 'q \<Rightarrow> (bool \<times> 'q) option"
    and pp :: "'q \<Rightarrow> ('a option \<times> 'q) option"
    and inv :: "'q \<Rightarrow> bool"
    and items :: "'q \<Rightarrow> 'a list"
    and cap :: nat
    and ok :: "'a \<Rightarrow> bool"
  assumes push_room: "inv q \<Longrightarrow> ok x \<Longrightarrow> length (items q) < cap \<Longrightarrow>
      \<exists>q'. psh x q = Some (True, q') \<and> inv q' \<and> items q' = items q @ [x]"
    and push_full: "inv q \<Longrightarrow> cap \<le> length (items q) \<Longrightarrow> psh x q = Some (False, q)"
    and pop_item: "inv q \<Longrightarrow> items q = x # xs \<Longrightarrow>
      \<exists>q'. pp q = Some (Some x, q') \<and> inv q' \<and> items q' = xs"
    and pop_none: "inv q \<Longrightarrow> items q = [] \<Longrightarrow> pp q = Some (None, q)"
    and bounded: "inv q \<Longrightarrow> length (items q) \<le> cap"
begin

lemma step_refines:
  assumes "inv q" and "\<And>x. op = Try_push x \<Longrightarrow> ok x"
  obtains a q' where "impl_step psh pp op q = Some (a, q')" "inv q'"
    "spec_step cap op (items q) = (a, items q')"
proof (cases op)
  case (Try_push x)
  show ?thesis
  proof (cases "length (items q) < cap")
    case True
    with push_room [OF assms(1) assms(2) [OF Try_push]] Try_push that show ?thesis by fastforce
  next
    case False
    with push_full [OF assms(1), of x] Try_push assms(1) that show ?thesis by fastforce
  qed
next
  case Try_pop
  show ?thesis
  proof (cases "items q")
    case Nil
    with pop_none [OF assms(1)] Try_pop assms(1) that show ?thesis by fastforce
  next
    case (Cons x xs)
    with pop_item [OF assms(1) Cons] Try_pop that show ?thesis by fastforce
  qed
qed

text \<open>Every sequence of calls returns and answers like the bounded list.\<close>

lemma run_refines:
  assumes "inv q" and "\<And>x. x \<in> set (pushed_values ops) \<Longrightarrow> ok x"
  shows "\<exists>as q'. impl_run psh pp ops q = Some (as, q') \<and> inv q' \<and>
     spec_run cap ops (items q) = (as, items q')"
  using assms
proof (induction ops arbitrary: q)
  case (Cons op ops)
  have "ok x" if "op = Try_push x" for x using Cons.prems(2) that by simp
  then obtain a q1 where q1: "impl_step psh pp op q = Some (a, q1)" "inv q1"
    "spec_step cap op (items q) = (a, items q1)" using step_refines [OF Cons.prems(1)] by blast
  have "ok x" if "x \<in> set (pushed_values ops)" for x
    using Cons.prems(2) that by (cases op) auto
  from Cons.IH [OF q1(2) this] obtain as q2 where "impl_run psh pp ops q1 = Some (as, q2)"
    "inv q2" "spec_run cap ops (items q1) = (as, items q2)" by blast
  with q1 show ?case by auto
qed simp

end

subsection \<open>Ring arithmetic\<close>

lemma unat_add_mod:
  fixes a :: u32
  assumes "lg \<le> 32"
  shows "unat (a + of_nat k) mod 2 ^ lg = (unat a + k) mod 2 ^ lg"
proof -
  have dvd: "(2::nat) ^ lg dvd 2 ^ 32" using assms by (rule le_imp_power_dvd)
  have "unat (a + of_nat k) = (unat a + k) mod 2 ^ 32"
    by (simp add: unat_word_ariths unat_of_nat take_bit_eq_mod mod_simps)
  then show ?thesis using dvd by (simp add: mod_mod_cancel)
qed

lemma ring_pos_inj:
  fixes i :: nat
  assumes "i < m" "j < m" "(a + i) mod m = (a + j) mod m"
  shows "i = j"
proof (rule ccontr)
  assume "i \<noteq> j"
  have "int (a + i) mod int m = int (a + j) mod int m"
    using assms(3) by (metis of_nat_mod)
  then have "int m dvd int (a + i) - int (a + j)" by (rule mod_eq_dvd_iff [THEN iffD1])
  then have "int m dvd int i - int j" by simp
  then have "\<bar>int m\<bar> \<le> \<bar>int i - int j\<bar>" using \<open>i \<noteq> j\<close> by (intro dvd_imp_le_int) auto
  with assms(1,2) show False by linarith
qed

lemma as_int_small: "unat w < 2 ^ 31 \<Longrightarrow> as_int w = int (unat w)"
proof -
  assume "unat w < 2 ^ 31"
  then have "uint w < 2 ^ 31" by (simp add: uint_nat del: of_nat_unat)
  then have "signed_take_bit 31 (uint w) = uint w"
    by (intro signed_take_bit_int_eq_self) (simp_all add: order.trans [OF _ uint_ge_0])
  then show ?thesis by (simp add: as_int_def sint_uint)
qed

lemma unat_exp:
  assumes "lg < 32"
  shows "unat (2 ^ lg :: u32) = 2 ^ lg"
proof -
  have "(2::nat) ^ lg < 2 ^ 32" using assms by (intro power_strict_increasing) auto
  then show ?thesis using unat_of_nat [of "2 ^ lg", where 'a = 32] by simp
qed

definition ring_count :: "'c queue_common \<Rightarrow> nat" where
  "ring_count q = unat (q_head q - q_tail q)"

definition ring_pos :: "nat \<Rightarrow> 'c queue_common \<Rightarrow> nat \<Rightarrow> nat" where
  "ring_pos lg q k = (unat (q_tail q) + k) mod 2 ^ lg"

definition ring_items :: "nat \<Rightarrow> ('c \<Rightarrow> nat \<Rightarrow> 'a option) \<Rightarrow> 'c queue_common \<Rightarrow> 'a list" where
  "ring_items lg slot q = map (\<lambda>k. the (slot (q_cells q) (ring_pos lg q k))) [0..<ring_count q]"

text \<open>
  The occupied slots are the \<open>ring_count\<close> ones from the tail on, and no others; the tickets may
  have wrapped around any number of times.
\<close>

definition ring_inv ::
  "nat \<Rightarrow> ('c \<Rightarrow> bool) \<Rightarrow> ('c \<Rightarrow> nat \<Rightarrow> 'a option) \<Rightarrow> 'c queue_common \<Rightarrow> bool" where
  "ring_inv lg cinv slot q \<longleftrightarrow> cinv (q_cells q) \<and> ring_count q \<le> 2 ^ lg \<and>
     (\<forall>k < 2 ^ lg. slot (q_cells q) (ring_pos lg q k) \<noteq> None \<longleftrightarrow> k < ring_count q)"

text \<open>The arithmetic of a ring of \<open>2 ^ lg\<close> slots, which the queue with a mutex shares.\<close>

locale ring_size =
  fixes lg :: nat
  assumes lg_less: "lg < 31"
begin

lemma pow_less: "(2::nat) ^ lg < 2 ^ 31"
  using lg_less by (intro power_strict_increasing) auto

lemma head_slot: "unat (q_head q) mod 2 ^ lg = ring_pos lg q (ring_count q)"
  using unat_add_mod [of lg "q_tail q" "ring_count q"] lg_less
  by (simp add: ring_pos_def ring_count_def)

lemma tail_slot: "unat (q_tail q) mod 2 ^ lg = ring_pos lg q 0"
  by (simp add: ring_pos_def)

lemma pos_inj: "i < 2 ^ lg \<Longrightarrow> j < 2 ^ lg \<Longrightarrow> ring_pos lg q i = ring_pos lg q j \<longleftrightarrow> i = j"
  unfolding ring_pos_def using ring_pos_inj [of i "2 ^ lg" j "unat (q_tail q)"] by blast

lemma count_push:
  "ring_count q < 2 ^ lg \<Longrightarrow>
   ring_count (q\<lparr>q_head := q_head q + 1, q_cells := c\<rparr>) = Suc (ring_count q)"
proof -
  assume "ring_count q < 2 ^ lg"
  then have lt: "Suc (unat (q_head q - q_tail q)) < 2 ^ 32"
    using pow_less by (simp add: ring_count_def)
  have eq: "q_head q + 1 - q_tail q = 1 + (q_head q - q_tail q)" by simp
  have "unat (1 + (q_head q - q_tail q)) = Suc (unat (q_head q - q_tail q))"
    using lt unat_add_lem [of 1 "q_head q - q_tail q"] by simp
  then show ?thesis by (simp add: ring_count_def eq)
qed

lemma count_pop:
  "0 < ring_count q \<Longrightarrow>
   ring_count (q\<lparr>q_tail := q_tail q + 1, q_cells := c\<rparr>) = ring_count q - 1"
proof -
  assume "0 < ring_count q"
  then have "q_head q - q_tail q \<noteq> 0" by (auto simp: ring_count_def)
  then have "unat ((q_head q - q_tail q) - 1) = unat (q_head q - q_tail q) - 1"
    by (rule unat_minus_one)
  moreover have "q_head q - (q_tail q + 1) = (q_head q - q_tail q) - 1" by simp
  ultimately have "unat (q_head q - (q_tail q + 1)) = unat (q_head q - q_tail q) - 1" by metis
  then show ?thesis by (simp add: ring_count_def)
qed

lemma pos_push [simp]: "ring_pos lg (q\<lparr>q_head := h, q_cells := c\<rparr>) k = ring_pos lg q k"
  by (simp add: ring_pos_def)

lemma pos_pop: "ring_pos lg (q\<lparr>q_tail := q_tail q + 1, q_cells := c\<rparr>) k = ring_pos lg q (Suc k)"
proof -
  have "(unat (q_tail q + 1) + k) mod 2 ^ lg = (unat (q_tail q + 1) mod 2 ^ lg + k) mod 2 ^ lg"
    by (simp add: mod_simps)
  also have "\<dots> = (unat (q_tail q) + 1 + k) mod 2 ^ lg"
    using unat_add_mod [of lg "q_tail q" 1] lg_less by (simp add: mod_simps)
  finally show ?thesis by (simp add: ring_pos_def)
qed

end

text \<open>
  What \<open>AtomicQueueCommon\<close> relies on in its derived class: a push fills the ticket's slot when
  it is free, a pop empties it when it is taken, and no other slot changes.
\<close>

locale slot_store = ring_size lg for D :: "('a, 'c) derived" and cinv :: "'c \<Rightarrow> bool"
    and slot :: "'c \<Rightarrow> nat \<Rightarrow> 'a option" and ok :: "'a \<Rightarrow> bool" and lg :: nat +
  assumes size_pow: "d_size D = 2 ^ lg"
    and slot_push: "cinv c \<Longrightarrow> ok x \<Longrightarrow> slot c (unat t mod 2 ^ lg) = None \<Longrightarrow>
      \<exists>c'. do_push D x t c = Some c' \<and> cinv c' \<and> slot c' = (slot c)(unat t mod 2 ^ lg := Some x)"
    and slot_pop: "cinv c \<Longrightarrow> slot c (unat t mod 2 ^ lg) = Some x \<Longrightarrow>
      \<exists>c'. do_pop D t c = Some (x, c') \<and> cinv c' \<and> slot c' = (slot c)(unat t mod 2 ^ lg := None)"
    and slot_busy: "cinv c \<Longrightarrow> slot c (unat t mod 2 ^ lg) = Some y \<Longrightarrow> do_push D x t c = None"
begin

lemma as_int_size: "as_int (d_size D) = int (2 ^ lg)"
  using lg_less pow_less by (simp add: size_pow as_int_small unat_exp)

lemma as_int_count:
  "ring_inv lg cinv slot q \<Longrightarrow> as_int (q_head q - q_tail q) = int (ring_count q)"
  using pow_less by (simp add: ring_inv_def ring_count_def as_int_small)

lemma length_items: "length (ring_items lg slot q) = ring_count q"
  by (simp add: ring_items_def)

lemma observers:
  assumes "ring_inv lg cinv slot q"
  shows "was_empty q \<longleftrightarrow> ring_items lg slot q = []" "was_full D q \<longleftrightarrow> length (ring_items lg slot q) = 2 ^ lg"
proof -
  have "was_size q = q_head q - q_tail q" using as_int_count [OF assms] by (simp add: was_size_def Let_def)
  moreover have "ring_count q \<le> 2 ^ lg" using assms by (simp add: ring_inv_def)
  ultimately show "was_empty q \<longleftrightarrow> ring_items lg slot q = []" "was_full D q \<longleftrightarrow> length (ring_items lg slot q) = 2 ^ lg"
    using lg_less by (auto simp: was_empty_def was_full_def capacity_def size_pow word_le_nat_alt unat_exp length_items
        ring_count_def ring_items_def unat_eq_0)
qed

lemma try_push_room:
  assumes inv: "ring_inv lg cinv slot q" and x: "ok x"
    and room: "length (ring_items lg slot q) < 2 ^ lg"
  shows "\<exists>q'. try_push D x q = Some (True, q') \<and> ring_inv lg cinv slot q' \<and>
     ring_items lg slot q' = ring_items lg slot q @ [x]"
proof -
  let ?n = "ring_count q"
  have n: "?n < 2 ^ lg" using room by (simp add: length_items)
  have free: "slot (q_cells q) (unat (q_head q) mod 2 ^ lg) = None"
    using inv n by (metis head_slot less_irrefl ring_inv_def)
  obtain c where c: "do_push D x (q_head q) (q_cells q) = Some c" "cinv c"
    "slot c = (slot (q_cells q))(ring_pos lg q ?n := Some x)"
    using slot_push [OF _ x free] inv by (auto simp: ring_inv_def head_slot)
  define q' where "q' = q\<lparr>q_head := q_head q + 1, q_cells := c\<rparr>"
  have "try_push D x q = Some (True, q')"
    using n c as_int_count [OF inv] by (simp add: try_push_def as_int_size q'_def)
  moreover have "ring_inv lg cinv slot q'"
    using inv n c by (auto simp: ring_inv_def q'_def count_push pos_inj less_Suc_eq)
  moreover have "ring_items lg slot q' = ring_items lg slot q @ [x]"
    using n c by (simp add: ring_items_def q'_def count_push pos_inj)
  ultimately show ?thesis by blast
qed

lemma try_pop_item:
  assumes inv: "ring_inv lg cinv slot q" and items: "ring_items lg slot q = x # xs"
  shows "\<exists>q'. try_pop D q = Some (Some x, q') \<and> ring_inv lg cinv slot q' \<and>
     ring_items lg slot q' = xs"
proof -
  let ?n = "ring_count q"
  have n: "0 < ?n" using items length_items [of q] by simp
  have le: "?n \<le> 2 ^ lg" using inv by (simp add: ring_inv_def)
  have "x = hd (ring_items lg slot q)" using items by simp
  then have x: "x = the (slot (q_cells q) (ring_pos lg q 0))"
    using n by (simp add: ring_items_def upt_conv_Cons)
  have taken: "slot (q_cells q) (unat (q_tail q) mod 2 ^ lg) = Some x"
    using inv n x by (auto simp: tail_slot ring_inv_def)
  obtain c where c: "do_pop D (q_tail q) (q_cells q) = Some (x, c)" "cinv c"
    "slot c = (slot (q_cells q))(ring_pos lg q 0 := None)"
    using slot_pop [OF _ taken] inv by (auto simp: ring_inv_def tail_slot)
  define q' where "q' = q\<lparr>q_tail := q_tail q + 1, q_cells := c\<rparr>"
  have pop: "try_pop D q = Some (Some x, q')"
    using n c as_int_count [OF inv] by (simp add: try_pop_def q'_def)
  have cnt: "ring_count q' = ?n - 1" using n by (simp add: q'_def count_pop)
  have shift: "slot (q_cells q') (ring_pos lg q' k) =
      (if Suc k = 2 ^ lg then None else slot (q_cells q) (ring_pos lg q (Suc k)))"
    if "k < 2 ^ lg" for k
  proof (cases "Suc k = 2 ^ lg")
    case True
    then have "ring_pos lg q (Suc k) = ring_pos lg q 0" by (simp add: ring_pos_def)
    with True c show ?thesis by (simp add: q'_def pos_pop)
  next
    case False
    with that c show ?thesis by (simp add: q'_def pos_pop pos_inj)
  qed
  have "ring_inv lg cinv slot q'"
    unfolding ring_inv_def
  proof (intro conjI allI impI)
    show "cinv (q_cells q')" using c by (simp add: q'_def)
    show "ring_count q' \<le> 2 ^ lg" using le cnt by simp
    fix k :: nat
    assume "k < 2 ^ lg"
    then show "slot (q_cells q') (ring_pos lg q' k) \<noteq> None \<longleftrightarrow> k < ring_count q'"
      using inv le n cnt shift [of k] by (auto simp: ring_inv_def)
  qed
  moreover have "ring_items lg slot q = x # ring_items lg slot q'"
  proof -
    have "[0..<?n] = 0 # map Suc [0..<?n - 1]" using n by (simp add: upt_conv_Cons map_Suc_upt)
    then have "ring_items lg slot q =
        x # map (\<lambda>k. the (slot (q_cells q) (ring_pos lg q (Suc k)))) [0..<?n - 1]"
      by (simp add: ring_items_def x)
    also have "map (\<lambda>k. the (slot (q_cells q) (ring_pos lg q (Suc k)))) [0..<?n - 1]
        = ring_items lg slot q'"
      using le by (auto simp: ring_items_def cnt shift)
    finally show ?thesis .
  qed
  ultimately show ?thesis using pop items by auto
qed

end

text \<open>So the base, over any such store, is a thread-safe queue.\<close>

sublocale slot_store \<subseteq> tsq: thread_safe_queue "try_push D" "try_pop D"
  "ring_inv lg cinv slot" "ring_items lg slot" "2 ^ lg" ok
proof (unfold_locales, goal_cases)
  case (1 q x)
  then show ?case by (rule try_push_room)
next
  case (2 q x)
  then have "ring_count q = 2 ^ lg" by (simp add: ring_inv_def length_items)
  with as_int_count [OF 2(1)] show ?case by (simp add: try_push_def as_int_size)
next
  case (3 q x xs)
  then show ?case by (rule try_pop_item)
next
  case (4 q)
  then have "ring_count q = 0" by (simp add: ring_items_def)
  with as_int_count [OF 4(1)] show ?case by (simp add: try_pop_def)
next
  case (5 q)
  then show ?case by (simp add: ring_inv_def length_items)
qed

end
