(* ===== verification/Chat_Server.thy ===== *)
theory Chat_Server
  imports Epoll Atomic_Queue
begin

unbundle bit_operations_syntax

text \<open>
  The client table: \<^verbatim>\<open>struct Client_Data\<close> (\<^verbatim>\<open>include/Server/Client_Data.h\<close>) and \<^verbatim>\<open>class Server\<close> with its
  interface \<^verbatim>\<open>IServer\<close> (\<^verbatim>\<open>include/Server/Server.h\<close>).

  Both are templates over the queue type. The queue is the record \<open>queue_ops\<close>, the concept
  \<^verbatim>\<open>Q_ThrS_Str\<close> with the default constructor. A reference to a client is the position of its
  slot in the array, which is what \<^verbatim>\<open>std::ref(**it)\<close> points to.
\<close>

record 'q queue_ops =
  q_new :: 'q
  q_try_push :: "string \<Rightarrow> 'q \<Rightarrow> (bool \<times> 'q) option"
  q_try_pop :: "'q \<Rightarrow> (string option \<times> 'q) option"

subsection \<open>Client\_Data\<close>

record 'q client_data =
  cd_personal_id :: int
  cd_fd :: int
  cd_name :: string
  cd_color_id :: int
  cd_color :: string
  cd_init_state :: int
  cd_send_queue :: 'q

definition inc_state :: "'q client_data \<Rightarrow> 'q client_data" where
  "inc_state c = c\<lparr>cd_init_state := cd_init_state c + 1\<rparr>"

definition get_state :: "'q client_data \<Rightarrow> int" where
  "get_state c = cd_init_state c"

definition set_state :: "int \<Rightarrow> 'q client_data \<Rightarrow> 'q client_data" where
  "set_state new_state c = c\<lparr>cd_init_state := new_state\<rparr>"

definition update_client :: "int \<Rightarrow> string \<Rightarrow> int \<Rightarrow> 'q client_data \<Rightarrow> 'q client_data" where
  "update_client fd name color_id c = c\<lparr>cd_fd := fd, cd_name := name, cd_color_id := color_id\<rparr>"

text \<open>\<^verbatim>\<open>std::atomic<int>::fetch_add\<close> wraps around in two's complement.\<close>

definition wrap_int :: "int \<Rightarrow> int" where
  "wrap_int n = (n + 2 ^ 31) mod 2 ^ 32 - 2 ^ 31"

record 'q server_state = os_state +
  sv_socket :: int
  nr_of_connections :: int
  clients :: "'q client_data option list"
  server_done :: bool
  client_data_id :: int

text \<open>The constructor draws the next value of the counter shared by all clients and a colour.\<close>

definition Client_Data_new ::
  "os \<Rightarrow> 'q queue_ops \<Rightarrow> int \<Rightarrow> ('q, 'z) server_state_scheme \<Rightarrow>
   'q client_data \<times> ('q, 'z) server_state_scheme" where
  "Client_Data_new os Q fd s =
     (let pid = client_data_id s;
          s = s\<lparr>client_data_id := wrap_int (pid + 1)\<rparr>;
          (col, s) = getRandomColorID os s
      in (\<lparr>cd_personal_id = pid, cd_fd = fd, cd_name = [], cd_color_id = col,
           cd_color = get_color WHITE, cd_init_state = INITIAL_STATE, cd_send_queue = q_new Q\<rparr>, s))"

subsection \<open>Server: construction\<close>

definition server_start :: "history \<Rightarrow> 'q server_state" where
  "server_start h = \<lparr>hist = h, sv_socket = - 1, nr_of_connections = 0,
     clients = replicate MAX_CLIENTS None, server_done = False, client_data_id = 0\<rparr>"

definition open_sv_socket ::
  "os \<Rightarrow> ('q, 'z) server_state_scheme \<Rightarrow> (failure, unit, ('q, 'z) server_state_scheme) outcome" where
  "open_sv_socket os s =
     (let fd = sys_socket os (hist s); s = emit (Ev_socket fd) (s\<lparr>sv_socket := fd\<rparr>) in
      if fd < 0 then (Inl (Runtime_error (ln ''Failed to open socket - Server'')), s)
      else let r = sys_setsockopt os (hist s); s = emit Ev_setup s in
      if r < 0 then (Inl (Runtime_error (ln ''Failed to use setsockopt - Server'')), s)
      else let r = sys_bind os (hist s); s = emit Ev_setup s in
      if r < 0 then (Inl (Runtime_error (ln ''Failed to bind - Server'')), s)
      else (Inr (), s))"

definition Server_local ::
  "os \<Rightarrow> string \<Rightarrow> ('q, 'z) server_state_scheme \<Rightarrow> (failure, unit, ('q, 'z) server_state_scheme) outcome" where
  "Server_local os addr s =
     (let r = sys_inet_pton os (hist s) addr; s = emit Ev_setup s in
      if r \<le> 0 then (Inl (Runtime_error (ln ''Failed to load network addr in struct'')), s)
      else open_sv_socket os s)"

definition Server_any ::
  "os \<Rightarrow> ('q, 'z) server_state_scheme \<Rightarrow> (failure, unit, ('q, 'z) server_state_scheme) outcome" where
  "Server_any os s = open_sv_socket os s"

definition Server_destroy :: "('q, 'z) server_state_scheme \<Rightarrow> ('q, 'z) server_state_scheme" where
  "Server_destroy s =
     close_fd (sv_socket s)
       (fold (\<lambda>cl t. case cl of None \<Rightarrow> t | Some d \<Rightarrow> close_fd (cd_fd d) t) (clients s) s)"

definition listen_connections ::
  "os \<Rightarrow> ('q, 'z) server_state_scheme \<Rightarrow> (failure, unit, ('q, 'z) server_state_scheme) outcome" where
  "listen_connections os s =
     (let r = sys_listen os (hist s); s = emit Ev_setup s in
      if r < 0 then (Inl (Runtime_error (ln ''Failed to listen - Server'')), s) else (Inr (), s))"

definition get_nr_of_connections :: "('q, 'z) server_state_scheme \<Rightarrow> int" where
  "get_nr_of_connections s = nr_of_connections s"

definition make_sv_socket_nonblocking ::
  "os \<Rightarrow> ('q, 'z) server_state_scheme \<Rightarrow> (failure, unit, ('q, 'z) server_state_scheme) outcome" where
  "make_sv_socket_nonblocking os s =
     (if sv_socket s < 0 then (Inl (Runtime_error (ln ''Sv socket not initialized'')), s)
      else let flags = sys_fcntl_getfl os (hist s) (sv_socket s); s = emit (Ev_fcntl (sv_socket s)) s in
      if flags < 0 then (Inl (Runtime_error (ln ''Could not fetch flags'')), s)
      else if flags AND O_NONBLOCK \<noteq> O_NONBLOCK then
        (let r = sys_fcntl_setfl os (hist s) (sv_socket s) (flags OR O_NONBLOCK);
             s = emit (Ev_setfl (sv_socket s) (flags OR O_NONBLOCK)) s
         in if r < 0 then (Inl (Runtime_error (ln ''Failed fcntl call'')), s) else (Inr (), s))
      else (Inr (), s))"

subsection \<open>Server: the interface the thread manager uses\<close>

definition get_sv_socket :: "('q, 'z) server_state_scheme \<Rightarrow> int" where
  "get_sv_socket s = sv_socket s"

definition get_connected_IDs :: "('q, 'z) server_state_scheme \<Rightarrow> int list" where
  "get_connected_IDs s = List.map_filter (map_option cd_personal_id) (clients s)"

definition has_id :: "int \<Rightarrow> 'q client_data option \<Rightarrow> bool" where
  "has_id cl_id c = (case c of None \<Rightarrow> False | Some d \<Rightarrow> cd_personal_id d = cl_id)"

definition get_client_ref :: "int \<Rightarrow> ('q, 'z) server_state_scheme \<Rightarrow> nat option" where
  "get_client_ref cl_id s = find_index (has_id cl_id) (clients s)"

text \<open>Reading and writing through a reference. An empty slot behind it is a dangling reference.\<close>

definition deref :: "nat \<Rightarrow> ('q, 'z) server_state_scheme \<Rightarrow> failure + 'q client_data" where
  "deref i s = (if i < length (clients s)
     then (case clients s ! i of
             None \<Rightarrow> Inl (Undefined_behaviour ''access through a dangling client reference'')
           | Some c \<Rightarrow> Inr c)
     else Inl (Undefined_behaviour ''access through a dangling client reference''))"

definition put_client :: "nat \<Rightarrow> 'q client_data \<Rightarrow> ('q, 'z) server_state_scheme \<Rightarrow> ('q, 'z) server_state_scheme" where
  "put_client i c s = s\<lparr>clients := (clients s)[i := Some c]\<rparr>"

definition get_selected_client_fd :: "int \<Rightarrow> ('q, 'z) server_state_scheme \<Rightarrow> failure + int" where
  "get_selected_client_fd cl_id s =
     (if sv_socket s < 0 then Inl (Runtime_error (ln ''SV socket not initialized''))
      else (case get_client_ref cl_id s of
              None \<Rightarrow> Inl (Runtime_error (ln ''Client not available''))
            | Some i \<Rightarrow>
               (case deref i s of
                  Inl e \<Rightarrow> Inl e
                | Inr c \<Rightarrow> (if cd_fd c < 0 then Inl (Runtime_error (ln ''Invalid client ID''))
                           else Inr (cd_fd c)))))"

definition disconnect_client ::
  "int \<Rightarrow> ('q, 'z) server_state_scheme \<Rightarrow> (failure, unit, ('q, 'z) server_state_scheme) outcome" where
  "disconnect_client cl_id s =
     (case get_client_ref cl_id s of
        None \<Rightarrow> (Inl (Runtime_error (ln ''Client not found'')), s)
      | Some i \<Rightarrow>
         (case deref i s of
            Inl e \<Rightarrow> (Inl e, s)
          | Inr c \<Rightarrow>
             (let s = close_fd (cd_fd c) s in
              case find_index (has_id cl_id) (clients s) of
                None \<Rightarrow> (Inr (), s)
              | Some j \<Rightarrow> (Inr (), s\<lparr>nr_of_connections := wrap_int (nr_of_connections s - 1),
                                 clients := (clients s)[j := None]\<rparr>))))"

text \<open>The part of \<open>accept_client\<close> after a connection was accepted and set up.\<close>

definition place_client ::
  "os \<Rightarrow> 'q queue_ops \<Rightarrow> int \<Rightarrow> ('q, 'z) server_state_scheme \<Rightarrow>
   (failure, int \<times> int, ('q, 'z) server_state_scheme) outcome" where
  "place_client os Q cl_socket s =
     (case find_index (\<lambda>c. c = None) (clients s) of
        Some i \<Rightarrow>
          (let (c, s) = Client_Data_new os Q cl_socket s;
               s = s\<lparr>clients := (clients s)[i := Some c],
                     nr_of_connections := wrap_int (nr_of_connections s + 1)\<rparr>
           in (Inr (cl_socket, cd_personal_id c), s))
      | None \<Rightarrow> (Inr (- 1, - 1), close_fd cl_socket s))"

definition accept_client ::
  "os \<Rightarrow> 'q queue_ops \<Rightarrow> bool \<Rightarrow> ('q, 'z) server_state_scheme \<Rightarrow>
   (failure, int \<times> int, ('q, 'z) server_state_scheme) outcome" where
  "accept_client os Q make_non_blocking s =
     (if sv_socket s < 0 then (Inl (Runtime_error (ln ''SV socket not initialized'')), s)
      else
        let (cl_socket, errno) = sys_accept4 os (hist s) (sv_socket s); s = emit (Ev_accept4 cl_socket) s in
        if cl_socket < 0 then
          (if errno = EWOULDBLOCK \<or> errno = EAGAIN then (Inr (- 1, - 1), s)
           else (Inl (Runtime_error (ln ''Failed to accept client'')), s))
        else if make_non_blocking then
          (let flags = sys_fcntl_getfl os (hist s) cl_socket; s = emit (Ev_fcntl cl_socket) s in
           if flags < 0 then
             (Inl (Runtime_error (ln ''Failed to get flags on client'')), close_fd cl_socket s)
           else
             let r = sys_fcntl_setfl os (hist s) cl_socket (flags OR O_NONBLOCK);
                 s = emit (Ev_setfl cl_socket (flags OR O_NONBLOCK)) s
             in if r < 0 then (Inl (Runtime_error (ln ''Failed fcntl call'')), close_fd cl_socket s)
                else place_client os Q cl_socket s)
        else place_client os Q cl_socket s)"

definition check_is_done :: "('q, 'z) server_state_scheme \<Rightarrow> bool" where
  "check_is_done s = server_done s"

text \<open>\<^verbatim>\<open>request_stop\<close> returns false when a stop was requested before.\<close>

definition set_is_done ::
  "('q, 'z) server_state_scheme \<Rightarrow> (failure, unit, ('q, 'z) server_state_scheme) outcome" where
  "set_is_done s =
     (if server_done s then (Inl (Runtime_error (ln ''Server did not finish'')), s)
      else (Inr (), s\<lparr>server_done := True\<rparr>))"

definition server_send_msg ::
  "os \<Rightarrow> string \<Rightarrow> int \<Rightarrow> ('q, 'z) server_state_scheme \<Rightarrow>
   (failure, unit, ('q, 'z) server_state_scheme) outcome" where
  "server_send_msg os msg cl_id s =
     (case get_selected_client_fd cl_id s of
        Inl e \<Rightarrow> (Inl e, s)
      | Inr fd \<Rightarrow>
         (let (r, s) = call_send os fd msg s in
          if r < 0 then (Inl (Runtime_error (ln ''Failed to send msg'')), s) else (Inr (), s)))"

definition server_receive_msg ::
  "os \<Rightarrow> message_frame \<Rightarrow> int \<Rightarrow> ('q, 'z) server_state_scheme \<Rightarrow>
   (failure, int \<times> message_frame, ('q, 'z) server_state_scheme) outcome" where
  "server_receive_msg os frame cl_id s =
     (case get_selected_client_fd cl_id s of
        Inl e \<Rightarrow> (Inl e, s)
      | Inr fd \<Rightarrow>
         (let ((len, data, _), s) = call_recv os fd (mf_msg_len frame) s in
          if len < 0 then (Inl (Runtime_error (ln ''Failed to receive msg'')), s)
          else (Inr (len, recv_into data frame), s)))"

end
