(* ===== verification/Thread_Manager.thy ===== *)
theory Thread_Manager
  imports Chat_Server
begin

text \<open>
  \<^verbatim>\<open>class ServerThreadManager\<close> (\<^verbatim>\<open>include/Server/ServerThreadManager.h\<close>), the part that assigns
  clients to worker threads and carries messages between the listener and the workers. The
  manager is a member of the server it works on, so its state extends the server's.

  A worker slot holds the number of clients of the thread and its event descriptor; the
  thread object itself shows in the history, as the event that starts it and the event that
  joins it (its destructor waits for the thread).
\<close>

type_synonym worker_arr = "(int \<times> int) option list"

definition is_worker_arr_empty :: "worker_arr \<Rightarrow> bool" where
  "is_worker_arr_empty arr \<longleftrightarrow> find_index (\<lambda>e. e \<noteq> None) arr = None"

fun min_scan :: "worker_arr \<Rightarrow> int \<Rightarrow> int \<Rightarrow> int \<Rightarrow> int \<times> int" where
  "min_scan [] m idx m_idx = (m, m_idx)"
| "min_scan (None # es) m idx m_idx = min_scan es m (idx + 1) m_idx"
| "min_scan (Some (n, evfd) # es) m idx m_idx =
     (if n < m then min_scan es n (idx + 1) idx else min_scan es m (idx + 1) m_idx)"

definition get_min_and_idx :: "worker_arr \<Rightarrow> int \<times> int" where
  "get_min_and_idx arr = min_scan arr INT_MAX 0 (- 1)"

fun max_scan :: "worker_arr \<Rightarrow> int \<Rightarrow> int \<Rightarrow> int \<Rightarrow> int \<times> int" where
  "max_scan [] m idx m_idx = (m, m_idx)"
| "max_scan (None # es) m idx m_idx = max_scan es m (idx + 1) m_idx"
| "max_scan (Some (n, evfd) # es) m idx m_idx =
     (if n > m then max_scan es n (idx + 1) idx else max_scan es m (idx + 1) m_idx)"

definition get_max_and_idx :: "worker_arr \<Rightarrow> int \<times> int" where
  "get_max_and_idx arr = max_scan arr 0 0 (- 1)"

record 'q manager_state = "'q server_state" +
  max_clients_per_thread :: int
  nr_of_launched_threads :: int
  q_worker_to_listener :: 'q
  q_listener_to_worker :: 'q
  worker_threads :: worker_arr
  received_msg_queue :: 'q

definition manager_start :: "'q queue_ops \<Rightarrow> history \<Rightarrow> 'q manager_state" where
  "manager_start Q h = server_state.extend (server_start h)
     (manager_state.fields 1 0 (q_new Q) (q_new Q) (replicate MAX_NR_OF_THREADS None) (q_new Q))"

text \<open>Access to the array by an index that is not checked, and to an optional that is not checked.\<close>

definition worker_at :: "int \<Rightarrow> ('q, 'z) manager_state_scheme \<Rightarrow> failure + (int \<times> int) option" where
  "worker_at i s = (if 0 \<le> i \<and> nat i < length (worker_threads s) then Inr (worker_threads s ! nat i)
     else Inl (Undefined_behaviour ''worker array index out of range''))"

definition worker_val :: "int \<Rightarrow> ('q, 'z) manager_state_scheme \<Rightarrow> failure + (int \<times> int)" where
  "worker_val i s = (case worker_at i s of
       Inl e \<Rightarrow> Inl e
     | Inr None \<Rightarrow> Inl (Undefined_behaviour ''access to an empty worker slot'')
     | Inr (Some w) \<Rightarrow> Inr w)"

definition set_worker ::
  "int \<Rightarrow> (int \<times> int) option \<Rightarrow> ('q, 'z) manager_state_scheme \<Rightarrow> ('q, 'z) manager_state_scheme" where
  "set_worker i w s = s\<lparr>worker_threads := (worker_threads s)[nat i := w]\<rparr>"

text \<open>A queue call that does not return blocks the thread that made it.\<close>

definition queue_push :: "'q queue_ops \<Rightarrow> string \<Rightarrow> 'q \<Rightarrow> failure + (bool \<times> 'q)" where
  "queue_push Q x q = (case q_try_push Q x q of None \<Rightarrow> Inl (Blocked ''try_push'') | Some r \<Rightarrow> Inr r)"

definition queue_pop :: "'q queue_ops \<Rightarrow> 'q \<Rightarrow> failure + (string option \<times> 'q)" where
  "queue_pop Q q = (case q_try_pop Q q of None \<Rightarrow> Inl (Blocked ''try_pop'') | Some r \<Rightarrow> Inr r)"

text \<open>An \<^verbatim>\<open>int\<close> compared with an \<^verbatim>\<open>unsigned\<close> constant is converted first.\<close>

definition as_unsigned :: "int \<Rightarrow> int" where
  "as_unsigned n = n mod 2 ^ 32"

subsection \<open>Assigning clients to workers\<close>

definition accept_message :: "int \<Rightarrow> int \<Rightarrow> int \<Rightarrow> server_message" where
  "accept_message thread_index socket cl_id = empty_message\<lparr>sm_thread_number := to_string thread_index,
     sm_action := get_action ACCEPT, sm_fd := to_string socket, sm_id := to_string cl_id\<rparr>"

definition assign_client_to_worker ::
  "os \<Rightarrow> 'q queue_ops \<Rightarrow> int \<Rightarrow> int \<Rightarrow> int \<Rightarrow> int \<Rightarrow> ('q, 'z) manager_state_scheme \<Rightarrow>
   (failure, unit, ('q, 'z) manager_state_scheme) outcome" where
  "assign_client_to_worker os Q thread_index socket cl_id event_fd s =
     (case queue_push Q (get_concatenated_msg (accept_message thread_index socket cl_id))
             (q_listener_to_worker s) of
        Inl e \<Rightarrow> (Inl e, s)
      | Inr (pushed, q) \<Rightarrow>
         (let s = s\<lparr>q_listener_to_worker := q\<rparr> in
          if \<not> pushed \<or> event_fd < 0
          then (Inl (Queue_exception ''Failed to push new worker to queue''), s)
          else write_one os event_fd (Runtime_error ''Failed to send event_fd'') s))"

text \<open>
  The new thread is started while the arguments are evaluated; replacing the content of the
  slot then destroys, and so joins, a thread that was there before.
\<close>

definition emplace_new_worker ::
  "os \<Rightarrow> int \<Rightarrow> int \<Rightarrow> int \<Rightarrow> int \<Rightarrow> ('q, 'z) manager_state_scheme \<Rightarrow>
   (failure, unit, ('q, 'z) manager_state_scheme) outcome" where
  "emplace_new_worker os socket cl_id nr_thr listener_evfd s =
     bindE (get_evfd os s) (\<lambda>evfd s.
       bindE (liftE (worker_at (nr_of_launched_threads s) s) s) (\<lambda>old s.
         let s = emit (Ev_spawn_worker socket cl_id nr_thr evfd listener_evfd) s;
             s = (if old = None then s else emit (Ev_join_worker (nat (nr_of_launched_threads s))) s);
             s = set_worker (nr_of_launched_threads s) (Some (0, evfd)) s
         in bindE (liftE (worker_val nr_thr s) s) (\<lambda>(n, e) s.
              (Inr (), (set_worker nr_thr (Some (n + 1, e)) s)
                 \<lparr>nr_of_launched_threads := nr_of_launched_threads s + 1\<rparr>))))"

definition add_to_worker ::
  "os \<Rightarrow> 'q queue_ops \<Rightarrow> int \<Rightarrow> int \<Rightarrow> int \<Rightarrow> ('q, 'z) manager_state_scheme \<Rightarrow>
   (failure, unit, ('q, 'z) manager_state_scheme) outcome" where
  "add_to_worker os Q min_idx socket cl_id s =
     bindE (liftE (worker_val min_idx s) s) (\<lambda>(n, evfd) s.
       assign_client_to_worker os Q min_idx socket cl_id evfd
         (set_worker min_idx (Some (n + 1, evfd)) s))"

definition process_new_client ::
  "os \<Rightarrow> 'q queue_ops \<Rightarrow> int \<Rightarrow> int \<Rightarrow> int \<Rightarrow> ('q, 'z) manager_state_scheme \<Rightarrow>
   (failure, unit, ('q, 'z) manager_state_scheme) outcome" where
  "process_new_client os Q socket cl_id listener_evfd s =
     (if nr_of_launched_threads s = 0 then emplace_new_worker os socket cl_id 0 listener_evfd s
      else let (m, min_idx) = get_min_and_idx (worker_threads s) in
      if min_idx < 0 then emplace_new_worker os socket cl_id 0 listener_evfd s
      else if m < max_clients_per_thread s then add_to_worker os Q min_idx socket cl_id s
      else if as_unsigned (nr_of_launched_threads s) = int MAX_NR_OF_THREADS then
        (let s = s\<lparr>max_clients_per_thread := max_clients_per_thread s + 1\<rparr> in
         if int MAX_CLIENTS_PER_THREAD < as_unsigned (max_clients_per_thread s)
         then (Inl (Server_full (ln ''Server full, all threads are occupied!'')), s)
         else add_to_worker os Q min_idx socket cl_id s)
      else if int MAX_NR_OF_THREADS \<le> as_unsigned (nr_of_launched_threads s)
        then (Inl (Server_full (ln ''Server full, can't launch more new workers!'')), s)
      else emplace_new_worker os socket cl_id (nr_of_launched_threads s) listener_evfd s)"

subsection \<open>Messages to the listener and disconnects\<close>

definition worker_push ::
  "os \<Rightarrow> 'q queue_ops \<Rightarrow> server_message \<Rightarrow> int \<Rightarrow> ('q, 'z) manager_state_scheme \<Rightarrow>
   (failure, unit, ('q, 'z) manager_state_scheme) outcome" where
  "worker_push os Q server_msg listener_evfd s =
     (if listener_evfd < 0 then (Inl (Runtime_error (ln ''Server listener event fd is invalid!'')), s)
      else case queue_push Q (get_concatenated_msg server_msg) (q_worker_to_listener s) of
        Inl e \<Rightarrow> (Inl e, s)
      | Inr (pushed, q) \<Rightarrow>
         (let s = s\<lparr>q_worker_to_listener := q\<rparr> in
          if \<not> pushed then (Inl (Queue_exception (ln ''Failed to push disconnect client msg to Queue!'')), s)
          else write_one os listener_evfd (Runtime_error (ln ''Failed to send to listener eventfd'')) s))"

definition worker_client_disconnect ::
  "int \<Rightarrow> ('q, 'z) manager_state_scheme \<Rightarrow> (failure, unit, ('q, 'z) manager_state_scheme) outcome" where
  "worker_client_disconnect thr_personal_idx s =
     bindE (liftE (worker_at thr_personal_idx s) s) (\<lambda>w s.
       case w of
         None \<Rightarrow> (Inl (Thread_managing (ln ''Can't disconnect from a thread that isn't running'')), s)
       | Some (current_connections, current_evfd) \<Rightarrow>
           if current_connections \<le> 0
           then (Inl (Thread_managing (ln ''Can't disconnect from a thread that has no connections'')), s)
           else
             let s = (if current_connections = 1
                      then (set_worker thr_personal_idx None
                              (emit (Ev_join_worker (nat thr_personal_idx)) s))
                             \<lparr>nr_of_launched_threads := nr_of_launched_threads s - 1\<rparr>
                      else set_worker thr_personal_idx (Some (current_connections - 1, current_evfd)) s);
                 (mx, mx_idx) = get_max_and_idx (worker_threads s);
                 s = s\<lparr>max_clients_per_thread := mx\<rparr>
             in (Inr (), emit_print (Cout (ln (''New max clients per thr: '' @ to_string mx))) s))"

fun unicast_repeated ::
  "'q queue_ops \<Rightarrow> int \<Rightarrow> int list \<Rightarrow> string \<Rightarrow> ('q, 'z) server_state_scheme \<Rightarrow>
   (failure, unit, ('q, 'z) server_state_scheme) outcome" where
  "unicast_repeated Q excepted_id [] msg_to_push s = (Inr (), s)"
| "unicast_repeated Q excepted_id (cl_id # populatedIDs) msg_to_push s =
     (if excepted_id = cl_id then unicast_repeated Q excepted_id populatedIDs msg_to_push s
      else case get_client_ref cl_id s of
        None \<Rightarrow> unicast_repeated Q excepted_id populatedIDs msg_to_push s
      | Some i \<Rightarrow>
          bindE (liftE (deref i s) s) (\<lambda>c s.
            case queue_push Q msg_to_push (cd_send_queue c) of
              Inl e \<Rightarrow> (Inl e, s)
            | Inr (pushed, q) \<Rightarrow>
                (let s = put_client i (c\<lparr>cd_send_queue := q\<rparr>) s in
                 if pushed then unicast_repeated Q excepted_id populatedIDs msg_to_push s
                 else (Inl (Queue_exception (ln ''Failed to push message to corresponding client'')), s))))"

end
