(* ===== verification/Thread_Loops.thy ===== *)
theory Thread_Loops
  imports Thread_Manager
begin

unbundle bit_operations_syntax

text \<open>
  The two loops of \<^verbatim>\<open>class ServerThreadManager\<close>: the listener, which accepts connections and
  distributes messages, and the workers, which talk to the clients assigned to them.
\<close>

subsection \<open>The listener's queue\<close>

text \<open>
  Reading an event descriptor: true when the counter was read, false for a spurious wake-up.
\<close>

definition read_wakeup ::
  "os \<Rightarrow> int \<Rightarrow> failure \<Rightarrow> 'z os_state_scheme \<Rightarrow> (failure, bool, 'z os_state_scheme) outcome" where
  "read_wakeup os evfd err s =
     (let ((bytes_read, errno), s) = call_read_evfd os evfd s in
      if bytes_read \<noteq> event_size then
        (if bytes_read = - 1 \<and> (errno = EAGAIN \<or> errno = EWOULDBLOCK) then (Inr False, s) else (Inl err, s))
      else (Inr True, s))"

definition dispatch_disconnect ::
  "'q queue_ops \<Rightarrow> server_message \<Rightarrow> int list \<Rightarrow> ('q, 'z) manager_state_scheme \<Rightarrow>
   (failure, unit, ('q, 'z) manager_state_scheme) outcome" where
  "dispatch_disconnect Q msg populatedIDs s =
     (let s = emit_print (Cout (ln ''Client disconnected'')) s in
      bindE (liftE (stoi (sm_id msg)) s) (\<lambda>cl_id s.
      bindE (disconnect_client cl_id s) (\<lambda>_ s.
      bindE (liftE (stoi (sm_thread_number msg)) s) (\<lambda>thr s.
      bindE (liftE (worker_at thr s) s) (\<lambda>w s.
        case w of
          None \<Rightarrow> (Inl (Thread_managing (ln ''Can't disconnect a client from an empty optional'')), s)
        | Some (n, evfd) \<Rightarrow>
            if n = 0
            then (Inl (Thread_managing (ln ''Can't disconnect a client from a thread with 0 clients'')), s)
            else
              let msg = msg\<lparr>sm_action := get_action UNICAST_REPEATED,
                            sm_msg_content := sm_name msg @ '' Has just left!'', sm_name := SERVER_NAME\<rparr>
              in bindE (unicast_repeated Q cl_id populatedIDs (get_concatenated_msg msg) s)
                   (\<lambda>_ s. worker_client_disconnect thr s))))))"

definition dispatch_message ::
  "'q queue_ops \<Rightarrow> server_message \<Rightarrow> string \<Rightarrow> int list \<Rightarrow> ('q, 'z) manager_state_scheme \<Rightarrow>
   (failure, unit, ('q, 'z) manager_state_scheme) outcome" where
  "dispatch_message Q msg recv_message populatedIDs s =
     (if sm_action msg = get_action CL_DISCONNECTED then dispatch_disconnect Q msg populatedIDs s
      else if sm_action msg = get_action UNICAST_REPEATED then
        bindE (liftE (stoi (sm_id msg)) s) (\<lambda>msg_id s.
          unicast_repeated Q msg_id populatedIDs recv_message s)
      else if sm_action msg = get_action SV_DISCONNECTED then
        unicast_repeated Q (- 1) populatedIDs recv_message s
      else if sm_action msg = get_action INIT_DONE then
        (let msg = msg\<lparr>sm_action := get_action UNICAST_REPEATED\<rparr> in
         bindE (liftE (stoi (sm_id msg)) s) (\<lambda>msg_id s.
           unicast_repeated Q msg_id populatedIDs (get_concatenated_msg msg) s))
      else (Inr (), s))"

definition listener_process_worker_to_listener_q ::
  "os \<Rightarrow> 'q queue_ops \<Rightarrow> int \<Rightarrow> ('q, 'z) manager_state_scheme \<Rightarrow>
   (failure, unit, ('q, 'z) manager_state_scheme) outcome" where
  "listener_process_worker_to_listener_q os Q listener_evfd s =
     bindE (read_wakeup os listener_evfd (Runtime_error (ln ''Failed read on listener evfd'')) s)
       (\<lambda>woken s.
         if \<not> woken then (Inr (), s)
         else case queue_pop Q (q_worker_to_listener s) of
           Inl e \<Rightarrow> (Inl e, s)
         | Inr (None, q) \<Rightarrow> (Inr (), s\<lparr>q_worker_to_listener := q\<rparr>)
         | Inr (Some recv_message, q) \<Rightarrow>
             (let s = s\<lparr>q_worker_to_listener := q\<rparr> in
              bindE (liftE (construct_from_string recv_message empty_message) s) (\<lambda>msg s.
                let populatedIDs = get_connected_IDs s in
                if populatedIDs = [] then (Inr (), s)
                else dispatch_message Q msg recv_message populatedIDs s)))"

subsection \<open>The worker's queue\<close>

definition worker_process_listener_to_worker_q ::
  "os \<Rightarrow> 'q queue_ops \<Rightarrow> epoll_manager \<Rightarrow> int \<Rightarrow> int \<Rightarrow> ('q, 'z) manager_state_scheme \<Rightarrow>
   (failure, int \<times> int \<times> int, ('q, 'z) manager_state_scheme) outcome" where
  "worker_process_listener_to_worker_q os Q em personal_index personal_evfd s =
     bindE (read_wakeup os personal_evfd (Runtime_error (ln ''Failed read on personal thread evfd'')) s)
       (\<lambda>woken s.
         if \<not> woken then (Inr (- 1, - 1, - 1), s)
         else case queue_pop Q (q_listener_to_worker s) of
           Inl e \<Rightarrow> (Inl e, s)
         | Inr (None, q) \<Rightarrow> (Inr (- 1, - 1, - 1), s\<lparr>q_listener_to_worker := q\<rparr>)
         | Inr (Some q_recv_msg, q) \<Rightarrow>
             (let s = s\<lparr>q_listener_to_worker := q\<rparr> in
              bindE (liftE (construct_from_string q_recv_msg empty_message) s) (\<lambda>server_msg s.
                if sm_action server_msg = get_action ACCEPT then
                  (if sm_thread_number server_msg \<noteq> to_string personal_index
                   then (Inr (- 1, - 1, - 1), s)
                   else
                     bindE (liftE (stoi (sm_fd server_msg)) s) (\<lambda>tmp_fd s.
                     bindE (liftE (stoi (sm_id server_msg)) s) (\<lambda>tmp_id s.
                     bindE (add_monitored_fd os em \<lparr>ep_fd = tmp_fd, ep_event = EPOLLIN OR EPOLLOUT\<rparr> s)
                       (\<lambda>_ s. (Inr (int (action_index ACCEPT), tmp_fd, tmp_id), s)))))
                else case queue_push Q q_recv_msg (q_listener_to_worker s) of
                  Inl e \<Rightarrow> (Inl e, s)
                | Inr (pushed, q) \<Rightarrow>
                    (let s = s\<lparr>q_listener_to_worker := q\<rparr> in
                     if pushed then (Inr (- 1, - 1, - 1), s)
                     else (Inl (Queue_exception (ln ''Failed to put back rejected message'')), s)))))"

subsection \<open>One client's protocol state\<close>

text \<open>
  \<^verbatim>\<open>process_client_state\<close>, the input half: what a message that was just read does. The result
  is the shared message object as the function leaves it.
\<close>

definition welcome_message :: "'q client_data \<Rightarrow> server_message \<Rightarrow> server_message" where
  "welcome_message cl server_msg = server_msg\<lparr>sm_action := get_action UNICAST_REPEATED,
     sm_name := SERVER_NAME, sm_id := to_string (cd_personal_id cl),
     sm_color_id := to_string (cd_color_id cl),
     sm_msg_content := ''Hello '' @ cd_name cl @ '', now you can chat!''\<rparr>"

definition joined_message :: "'q client_data \<Rightarrow> server_message \<Rightarrow> server_message" where
  "joined_message cl server_msg = server_msg\<lparr>sm_action := get_action INIT_DONE,
     sm_name := SERVER_NAME, sm_id := to_string (cd_personal_id cl),
     sm_msg_content := cd_name cl @ '' Has Just Connected!''\<rparr>"

definition process_input ::
  "os \<Rightarrow> 'q queue_ops \<Rightarrow> server_message \<Rightarrow> nat \<Rightarrow> int \<Rightarrow> ('q, 'z) manager_state_scheme \<Rightarrow>
   (failure, server_message, ('q, 'z) manager_state_scheme) outcome" where
  "process_input os Q server_msg i listener_evfd s =
     bindE (liftE (deref i s) s) (\<lambda>cl s.
       let cl = (if sm_action server_msg = get_action CL_DISCONNECTED
                 then set_state DISCONNECT_STATE cl else cl);
           s = put_client i cl s
       in if get_state cl = INITIAL_STATE then
            (Inr (reset_msg server_msg),
             if sm_action server_msg = get_action INIT_REQ
             then put_client i ((inc_state cl)\<lparr>cd_name := sm_name server_msg\<rparr>) s else s)
          else if get_state cl = SENT_INIT_CONFIRMATION then
            (if sm_action server_msg = get_action INIT_DONE then
               let cl = inc_state cl; s = put_client i cl s;
                   server_msg = welcome_message cl server_msg;
                   s = emit_print (Cout (ln (''Client ID:'' @ to_string (cd_personal_id cl)
                         @ '' Name: '' @ cd_name cl @ '' has connected!''))) s
               in bindE (server_send_msg os (get_concatenated_msg server_msg) (cd_personal_id cl) s)
                    (\<lambda>_ s. bindE (worker_push os Q (joined_message cl server_msg) listener_evfd s)
                       (\<lambda>_ s. (Inr (reset_msg server_msg), s)))
             else (Inr server_msg, s))
          else if get_state cl = INIT_DONE_STATE then
            (if sm_action server_msg = get_action UNICAST_REPEATED then
               bindE (worker_push os Q server_msg listener_evfd
                        (emit_print (Cout (ln ''RECEIVED MSG ON SV!'')) s))
                 (\<lambda>_ s. (Inr (reset_msg server_msg), s))
             else (Inr server_msg, s))
          else (Inr server_msg, s))"

text \<open>
  The loop that sends what is waiting in the client's queue. A queue that is not refilled
  meanwhile holds at most \<open>QUEUE_SIZE\<close> messages; \<open>drain_fuel\<close> counts one call more, the one
  that finds it empty.
\<close>

definition drain_fuel :: nat where
  "drain_fuel = QUEUE_SIZE + 1"

fun drain_send_queue ::
  "nat \<Rightarrow> os \<Rightarrow> 'q queue_ops \<Rightarrow> nat \<Rightarrow> ('q, 'z) server_state_scheme \<Rightarrow>
   (failure, unit, ('q, 'z) server_state_scheme) outcome" where
  "drain_send_queue 0 os Q i s = (Inl (Blocked ''send queue never empty''), s)"
| "drain_send_queue (Suc n) os Q i s =
     bindE (liftE (deref i s) s) (\<lambda>cl s.
       case queue_pop Q (cd_send_queue cl) of
         Inl e \<Rightarrow> (Inl e, s)
       | Inr (None, q) \<Rightarrow> (Inr (), put_client i (cl\<lparr>cd_send_queue := q\<rparr>) s)
       | Inr (Some send_msg, q) \<Rightarrow>
           bindE (server_send_msg os send_msg (cd_personal_id cl) (put_client i (cl\<lparr>cd_send_queue := q\<rparr>) s))
             (\<lambda>_ s. drain_send_queue n os Q i s))"

definition confirm_message :: "'q client_data \<Rightarrow> server_message \<Rightarrow> server_message" where
  "confirm_message cl server_msg = server_msg\<lparr>sm_action := get_action INIT_REQ, sm_name := cd_name cl,
     sm_color_id := to_string (cd_color_id cl), sm_id := to_string (cd_personal_id cl)\<rparr>"

definition process_output ::
  "os \<Rightarrow> 'q queue_ops \<Rightarrow> server_message \<Rightarrow> nat \<Rightarrow> ('q, 'z) manager_state_scheme \<Rightarrow>
   (failure, server_message, ('q, 'z) manager_state_scheme) outcome" where
  "process_output os Q server_msg i s =
     bindE (liftE (deref i s) s) (\<lambda>cl s.
       if get_state cl = REQUESTED_INIT then
         (let cl = inc_state cl; server_msg = confirm_message cl server_msg
          in bindE (server_send_msg os (get_concatenated_msg server_msg) (cd_personal_id cl) (put_client i cl s))
               (\<lambda>_ s. (Inr server_msg, s)))
       else if get_state cl = INIT_DONE_STATE then
         bindE (drain_send_queue drain_fuel os Q i s) (\<lambda>_ s. (Inr server_msg, s))
       else (Inr server_msg, s))"

definition process_client_state ::
  "os \<Rightarrow> 'q queue_ops \<Rightarrow> bool \<Rightarrow> server_message \<Rightarrow> nat option \<Rightarrow> int \<Rightarrow> ('q, 'z) manager_state_scheme \<Rightarrow>
   (failure, server_message, ('q, 'z) manager_state_scheme) outcome" where
  "process_client_state os Q is_input server_msg current_client_ref listener_evfd s =
     (case current_client_ref of
        None \<Rightarrow> (Inl (Undefined_behaviour ''access to an empty client reference''), s)
      | Some i \<Rightarrow> if is_input then process_input os Q server_msg i listener_evfd s
                  else process_output os Q server_msg i s)"

subsection \<open>The worker loop\<close>

record worker =
  wk_em :: epoll_manager
  wk_clients :: "(int \<times> int) list"
  wk_frame :: message_frame
  wk_msg :: server_message
  wk_index :: int
  wk_evfd :: int
  wk_listener_evfd :: int

text \<open>
  Up to the loop. The first contents of the event array and of the frame, which the code does
  not initialise, are arguments.
\<close>

definition worker_init ::
  "os \<Rightarrow> epoll_event list \<Rightarrow> char list \<Rightarrow> int \<Rightarrow> int \<Rightarrow> int \<Rightarrow> int \<Rightarrow> int \<Rightarrow> ('q, 'z) manager_state_scheme \<Rightarrow>
   (failure, worker, ('q, 'z) manager_state_scheme) outcome" where
  "worker_init os junk_events junk_msg cl_fd cl_id personal_index personal_evfd listener_evfd s =
     bindE (EpollManager_new os junk_events s) (\<lambda>em s.
     bindE (add_monitored_fd os em \<lparr>ep_fd = cl_fd, ep_event = EPOLLIN OR EPOLLOUT\<rparr> s) (\<lambda>_ s.
     bindE (add_monitored_fd os em \<lparr>ep_fd = personal_evfd, ep_event = EPOLLIN\<rparr> s) (\<lambda>_ s.
       (Inr \<lparr>wk_em = em, wk_clients = [(cl_fd, cl_id)],
             wk_frame = \<lparr>mf_msg = junk_msg, mf_msg_len = int MAX_LEN\<rparr>, wk_msg = empty_message,
             wk_index = personal_index, wk_evfd = personal_evfd, wk_listener_evfd = listener_evfd\<rparr>, s))))"

text \<open>The body of the loop over the worker's clients: input, then output, of one client.\<close>

definition client_output ::
  "os \<Rightarrow> 'q queue_ops \<Rightarrow> int \<Rightarrow> int \<Rightarrow> nat option \<Rightarrow> worker \<Rightarrow> ('q, 'z) manager_state_scheme \<Rightarrow>
   (failure, worker, ('q, 'z) manager_state_scheme) outcome" where
  "client_output os Q ret fd current_client_ref w s =
     bindE (liftE (check_event (wk_em w) fd EPOLLOUT ret) s) (\<lambda>out s.
       if out then bindE (process_client_state os Q False (wk_msg w) current_client_ref (wk_listener_evfd w) s)
                     (\<lambda>msg s. (Inr (w\<lparr>wk_msg := msg\<rparr>), s))
       else (Inr w, s))"

definition client_events ::
  "os \<Rightarrow> 'q queue_ops \<Rightarrow> int \<Rightarrow> int \<times> int \<Rightarrow> worker \<Rightarrow> ('q, 'z) manager_state_scheme \<Rightarrow>
   (failure, worker, ('q, 'z) manager_state_scheme) outcome" where
  "client_events os Q ret client w s =
     (let current_client_ref = get_client_ref (snd client) s in
      bindE (liftE (check_event (wk_em w) (fst client) EPOLLIN ret) s) (\<lambda>inp s.
        if inp then
          bindE (server_receive_msg os (wk_frame w) (snd client) s) (\<lambda>(len, frame) s.
            let w = w\<lparr>wk_frame := frame\<rparr> in
            if len = 0 then
              (case get_client_ref (snd client) s of
                 None \<Rightarrow> (Inl (Undefined_behaviour ''access to an empty client reference''), s)
               | Some i \<Rightarrow> bindE (liftE (deref i s) s) (\<lambda>cl s.
                   (Inr w, put_client i (set_state DISCONNECT_STATE cl) s)))
            else if current_client_ref = None then (Inr w, s)
            else
              bindE (liftE (string_of_array (mf_msg frame)) s) (\<lambda>text s.
              bindE (liftE (construct_from_string text (wk_msg w)) s) (\<lambda>msg s.
                let w = w\<lparr>wk_frame := clear_msg frame\<rparr> in
                bindE (process_client_state os Q True msg current_client_ref (wk_listener_evfd w) s)
                  (\<lambda>msg s. client_output os Q ret (fst client) current_client_ref (w\<lparr>wk_msg := msg\<rparr>) s))))
        else client_output os Q ret (fst client) current_client_ref w s))"

fun all_client_events ::
  "os \<Rightarrow> 'q queue_ops \<Rightarrow> int \<Rightarrow> (int \<times> int) list \<Rightarrow> worker \<Rightarrow> ('q, 'z) manager_state_scheme \<Rightarrow>
   (failure, worker, ('q, 'z) manager_state_scheme) outcome" where
  "all_client_events os Q ret [] w s = (Inr w, s)"
| "all_client_events os Q ret (client # rest) w s =
     bindE (client_events os Q ret client w s) (\<lambda>w s. all_client_events os Q ret rest w s)"

text \<open>
  \<^verbatim>\<open>clients.erase(std::remove_if(...))\<close>: the predicate runs once per client in order, and tells
  the listener about each client in the disconnect state before it is dropped.
\<close>

definition leave_message :: "'q client_data \<Rightarrow> int \<Rightarrow> int \<Rightarrow> server_message \<Rightarrow> server_message" where
  "leave_message cl personal_index cl_id server_msg = server_msg\<lparr>sm_action := get_action CL_DISCONNECTED,
     sm_name := cd_name cl, sm_thread_number := to_string personal_index, sm_id := to_string cl_id,
     sm_color_id := to_string (cd_color_id cl)\<rparr>"

fun erase_disconnected ::
  "os \<Rightarrow> 'q queue_ops \<Rightarrow> (int \<times> int) list \<Rightarrow> worker \<Rightarrow> ('q, 'z) manager_state_scheme \<Rightarrow>
   (failure, (int \<times> int) list \<times> worker, ('q, 'z) manager_state_scheme) outcome" where
  "erase_disconnected os Q [] w s = (Inr ([], w), s)"
| "erase_disconnected os Q (client # rest) w s =
     (case get_client_ref (snd client) s of
        None \<Rightarrow> (Inl (Undefined_behaviour ''access to an empty client reference''), s)
      | Some i \<Rightarrow> bindE (liftE (deref i s) s) (\<lambda>cl s.
          if get_state cl = DISCONNECT_STATE then
            (let w = w\<lparr>wk_msg := leave_message cl (wk_index w) (snd client) (wk_msg w)\<rparr> in
             bindE (worker_push os Q (wk_msg w) (wk_listener_evfd w) s) (\<lambda>_ s.
               erase_disconnected os Q rest w
                 (emit_print (Cout (ln (''Client ID:'' @ to_string (snd client)
                    @ '' Signaled for disconnect!''))) s)))
          else bindE (erase_disconnected os Q rest w s) (\<lambda>(kept, w) s. (Inr (client # kept, w), s))))"

text \<open>The end of a turn: the client the listener handed over, if there was one.\<close>

definition take_new_client ::
  "int \<times> int \<times> int \<Rightarrow> worker \<Rightarrow> ('q, 'z) manager_state_scheme \<Rightarrow>
   (failure, worker, ('q, 'z) manager_state_scheme) outcome" where
  "take_new_client q_tuple w s =
     (case q_tuple of (action, new_cl_fd, new_cl_id) \<Rightarrow>
        if action = int (action_index ACCEPT) then
          (if new_cl_fd < 0 \<or> new_cl_id < 0
           then (Inl (Client_connection (ln ''Invalid client socket or id'')), s)
           else (Inr (w\<lparr>wk_clients := wk_clients w @ [(new_cl_fd, new_cl_id)]\<rparr>), s))
        else (Inr w, s))"

text \<open>One turn of the loop.\<close>

definition worker_iteration ::
  "os \<Rightarrow> 'q queue_ops \<Rightarrow> worker \<Rightarrow> ('q, 'z) manager_state_scheme \<Rightarrow>
   (failure, worker, ('q, 'z) manager_state_scheme) outcome" where
  "worker_iteration os Q w s =
     bindE (wait_events os (wk_em w) s) (\<lambda>(ret, em) s.
       let w = w\<lparr>wk_em := em\<rparr> in
       if ret \<le> 0 then (Inr w, s)
       else
         bindE (liftE (check_event em (wk_evfd w) EPOLLIN ret) s) (\<lambda>woken s.
         bindE (if woken then worker_process_listener_to_worker_q os Q em (wk_index w) (wk_evfd w) s
                else (Inr (- 1, - 1, - 1), s)) (\<lambda>q_tuple s.
         bindE (all_client_events os Q ret (wk_clients w) w s) (\<lambda>w s.
         bindE (erase_disconnected os Q (wk_clients w) w s) (\<lambda>(kept, w) s.
           take_new_client q_tuple (w\<lparr>wk_clients := kept\<rparr>) s)))))"

definition worker_running :: "worker \<Rightarrow> ('q, 'z) manager_state_scheme \<Rightarrow> bool" where
  "worker_running w s \<longleftrightarrow> wk_clients w \<noteq> [] \<and> \<not> check_is_done s"

text \<open>
  The loop, run for at most the given number of turns; \<open>None\<close> is a loop that is still going.
  On the way out the epoll descriptor is closed. A failure leaves the thread function, which
  ends the whole process.
\<close>

fun worker_loop ::
  "nat \<Rightarrow> os \<Rightarrow> 'q queue_ops \<Rightarrow> worker \<Rightarrow> ('q, 'z) manager_state_scheme \<Rightarrow>
   (failure, unit, ('q, 'z) manager_state_scheme) outcome option" where
  "worker_loop n os Q w s =
     (if \<not> worker_running w s then Some (Inr (), EpollManager_destroy (wk_em w) s)
      else case n of
        0 \<Rightarrow> None
      | Suc k \<Rightarrow> (case worker_iteration os Q w s of
           (Inl e, s) \<Rightarrow> Some (Inl e, s)
         | (Inr w, s) \<Rightarrow> worker_loop k os Q w s))"

subsection \<open>The listener loop\<close>

record listener =
  ls_em :: epoll_manager
  ls_socket :: int
  ls_evfd :: int

text \<open>Leaving the scope of an epoll manager by an exception closes its descriptor.\<close>

definition closing_em ::
  "epoll_manager \<Rightarrow> (failure, 'a, 'z os_state_scheme) outcome \<Rightarrow> (failure, 'a, 'z os_state_scheme) outcome" where
  "closing_em em r = handleE r (\<lambda>e s. (Inl e, EpollManager_destroy em s))"

definition listener_init ::
  "os \<Rightarrow> epoll_event list \<Rightarrow> ('q, 'z) manager_state_scheme \<Rightarrow>
   (failure, listener, ('q, 'z) manager_state_scheme) outcome" where
  "listener_init os junk_events s =
     bindE (EpollManager_new os junk_events s) (\<lambda>em s. closing_em em (
     let sock = get_sv_socket s in
     bindE (get_evfd os s) (\<lambda>evfd s.
     bindE (add_monitored_fd os em \<lparr>ep_fd = STDIN_FILENO, ep_event = EPOLLIN\<rparr> s) (\<lambda>_ s.
     bindE (add_monitored_fd os em \<lparr>ep_fd = sock, ep_event = EPOLLIN\<rparr> s) (\<lambda>_ s.
     bindE (add_monitored_fd os em \<lparr>ep_fd = evfd, ep_event = EPOLLIN\<rparr> s) (\<lambda>_ s.
       (Inr \<lparr>ls_em = em, ls_socket = sock, ls_evfd = evfd\<rparr>, s)))))))"

definition quit_message :: server_message where
  "quit_message = empty_message\<lparr>sm_action := get_action SV_DISCONNECTED,
     sm_msg_content := ''SERVER DISCONNECTED''\<rparr>"

text \<open>A line from the operator. The result of the push is ignored.\<close>

definition listener_stdin ::
  "os \<Rightarrow> 'q queue_ops \<Rightarrow> ('q, 'z) manager_state_scheme \<Rightarrow>
   (failure, unit, ('q, 'z) manager_state_scheme) outcome" where
  "listener_stdin os Q s =
     (let line = sys_stdin_line os (hist s); s = emit (Ev_stdin line) s in
      if line = Some QUIT_MSG then
        bindE (set_is_done s) (\<lambda>_ s.
          case queue_push Q (get_concatenated_msg quit_message) (q_worker_to_listener s) of
            Inl e \<Rightarrow> (Inl e, s)
          | Inr (_, q) \<Rightarrow> (Inr (), s\<lparr>q_worker_to_listener := q\<rparr>))
      else (Inr (), s))"

text \<open>The three handlers around accepting a client, tried in order.\<close>

definition accept_handlers ::
  "failure \<Rightarrow> ('q, 'z) manager_state_scheme \<Rightarrow> (failure, unit, ('q, 'z) manager_state_scheme) outcome" where
  "accept_handlers e s =
     (case e of
        Server_full msg \<Rightarrow> (Inr (), emit_print (clog_out_notif (what e)) s)
      | Thread_managing msg \<Rightarrow> (Inr (), emit_print (cerr_out_warning (what e)) s)
      | _ \<Rightarrow> if is_std_exception e
             then set_is_done (emit_print (cerr_out_err ''Error is critical, closing..'')
                    (emit_print (cerr_out_err (what e)) s))
             else (Inl e, s))"

definition listener_accept ::
  "os \<Rightarrow> 'q queue_ops \<Rightarrow> int \<Rightarrow> ('q, 'z) manager_state_scheme \<Rightarrow>
   (failure, unit, ('q, 'z) manager_state_scheme) outcome" where
  "listener_accept os Q evfd s =
     handleE (bindE (accept_client os Q True s) (\<lambda>(socket, cl_id) s.
                process_new_client os Q socket cl_id evfd s))
       accept_handlers"

definition when_event ::
  "epoll_manager \<Rightarrow> int \<Rightarrow> int \<Rightarrow> ('s \<Rightarrow> (failure, unit, 's) outcome) \<Rightarrow> 's \<Rightarrow> (failure, unit, 's) outcome" where
  "when_event em fd ret act s =
     bindE (liftE (check_event em fd EPOLLIN ret) s) (\<lambda>ready s. if ready then act s else (Inr (), s))"

definition listener_events ::
  "os \<Rightarrow> 'q queue_ops \<Rightarrow> int \<Rightarrow> listener \<Rightarrow> ('q, 'z) manager_state_scheme \<Rightarrow>
   (failure, listener, ('q, 'z) manager_state_scheme) outcome" where
  "listener_events os Q ret l s =
     bindE (when_event (ls_em l) (ls_evfd l) ret (listener_process_worker_to_listener_q os Q (ls_evfd l)) s) (\<lambda>_ s.
     bindE (when_event (ls_em l) STDIN_FILENO ret (listener_stdin os Q) s) (\<lambda>_ s.
     bindE (when_event (ls_em l) (ls_socket l) ret (listener_accept os Q (ls_evfd l)) s) (\<lambda>_ s.
       (Inr l, s))))"

definition listener_iteration ::
  "os \<Rightarrow> 'q queue_ops \<Rightarrow> listener \<Rightarrow> ('q, 'z) manager_state_scheme \<Rightarrow>
   (failure, listener, ('q, 'z) manager_state_scheme) outcome" where
  "listener_iteration os Q l s =
     bindE (wait_events os (ls_em l) s) (\<lambda>(ret, em) s.
       let l = l\<lparr>ls_em := em\<rparr> in
       if ret \<le> 0 then (Inr l, s) else listener_events os Q ret l s)"

text \<open>The handlers around the whole loop: a queue that is full is a warning, the rest an error.\<close>

definition listener_handlers ::
  "failure \<Rightarrow> 'z os_state_scheme \<Rightarrow> (failure, unit, 'z os_state_scheme) outcome" where
  "listener_handlers e s =
     (case e of
        Queue_exception msg \<Rightarrow> (Inr (), emit_print (cerr_out_warning (what e)) s)
      | _ \<Rightarrow> if is_std_exception e then (Inr (), emit_print (cerr_out_err (what e)) s) else (Inl e, s))"

text \<open>
  The loop, with the number of turns bounded as for the worker. However it ends, the epoll
  descriptor is closed when its scope is left, before a handler runs.
\<close>

fun listener_turns ::
  "nat \<Rightarrow> os \<Rightarrow> 'q queue_ops \<Rightarrow> listener \<Rightarrow> ('q, 'z) manager_state_scheme \<Rightarrow>
   (failure, unit, ('q, 'z) manager_state_scheme) outcome option" where
  "listener_turns n os Q l s =
     (if check_is_done s then Some (Inr (), EpollManager_destroy (ls_em l) s)
      else case n of
        0 \<Rightarrow> None
      | Suc k \<Rightarrow> (case listener_iteration os Q l s of
           (Inl e, s) \<Rightarrow> Some (Inl e, EpollManager_destroy (ls_em l) s)
         | (Inr l, s) \<Rightarrow> listener_turns k os Q l s))"

definition listener_loop ::
  "nat \<Rightarrow> os \<Rightarrow> 'q queue_ops \<Rightarrow> epoll_event list \<Rightarrow> ('q, 'z) manager_state_scheme \<Rightarrow>
   (failure, unit, ('q, 'z) manager_state_scheme) outcome option" where
  "listener_loop n os Q junk_events s =
     map_option (\<lambda>r. handleE r listener_handlers)
       (case listener_init os junk_events s of
          (Inl e, s) \<Rightarrow> Some (Inl e, s)
        | (Inr l, s) \<Rightarrow> listener_turns n os Q l s)"

declare worker_loop.simps [simp del] listener_turns.simps [simp del]

end
