(* ===== verification/Queue_Instances.thy ===== *)
theory Queue_Instances
  imports Atomic_Queue
begin

unbundle bit_operations_syntax

text \<open>
  The four queue classes of \<^verbatim>\<open>atomic_queue.h\<close> meet the contract of their base, for every size
  their template or constructor argument can round up to. The server's
  \<^verbatim>\<open>AtomicQueue2<std::string, 128>\<close> is interpreted as a thread-safe queue.
\<close>

subsection \<open>Slots behind the bit swap\<close>

definition slot_index :: "nat \<Rightarrow> nat \<Rightarrow> nat" where
  "slot_index b i = unat (remap_index b (of_nat i))"

definition state_cells_ok :: "nat \<Rightarrow> 'a state_cells \<Rightarrow> bool" where
  "state_cells_ok lg c \<longleftrightarrow> length (q_states c) = 2 ^ lg \<and> length (q_elements c) = 2 ^ lg \<and>
     set (q_states c) \<subseteq> {EMPTY, STORED}"

definition state_slot :: "nat \<Rightarrow> nat \<Rightarrow> 'a state_cells \<Rightarrow> nat \<Rightarrow> 'a option" where
  "state_slot b lg c i =
     (if i < 2 ^ lg \<and> q_states c ! slot_index b i = STORED
      then Some (q_elements c ! slot_index b i) else None)"

definition atomic_cells_ok :: "nat \<Rightarrow> 'a list \<Rightarrow> bool" where
  "atomic_cells_ok lg c \<longleftrightarrow> length c = 2 ^ lg"

definition atomic_slot :: "'a \<Rightarrow> nat \<Rightarrow> nat \<Rightarrow> 'a list \<Rightarrow> nat \<Rightarrow> 'a option" where
  "atomic_slot NIL b lg c i =
     (if i < 2 ^ lg \<and> c ! slot_index b i \<noteq> NIL then Some (c ! slot_index b i) else None)"

lemma pow_le_30:
  assumes "lg < 31"
  shows "(2::nat) ^ lg < 2 ^ 32"
  using assms by (intro power_strict_increasing) auto

lemma slot_index_less:
  assumes "lg < 31" "2 * b \<le> lg" "i < 2 ^ lg"
  shows "slot_index b i < 2 ^ lg"
proof -
  have "i < 2 ^ 32" using pow_le_30 [OF assms(1)] assms(3) by linarith
  then have "unat (of_nat i :: u32) = i" by (simp add: unat_of_nat)
  with assms show ?thesis unfolding slot_index_def by (intro remap_index_less) auto
qed

lemma slot_index_inj:
  assumes "lg < 31" "2 * b \<le> lg" "i < 2 ^ lg" "j < 2 ^ lg"
  shows "slot_index b i = slot_index b j \<longleftrightarrow> i = j"
proof
  assume "slot_index b i = slot_index b j"
  then have "remap_index b (of_nat i) = remap_index b (of_nat j)"
    unfolding slot_index_def by (simp only: word_unat_eq_iff)
  then have "(of_nat i :: u32) = of_nat j" using assms(1,2) by (subst (asm) remap_index_inj) auto
  then show "i = j" using assms pow_le_30 [OF assms(1)]
    by (simp add: word_of_nat_eq_iff take_bit_eq_mod)
qed simp

lemma slot_store_states:
  assumes lg: "lg < 31" "2 * b \<le> lg" and sz: "d_size D = 2 ^ lg"
    and psh: "\<And>x t c. do_push D x t c = do_push_any x (slot_index b (unat t mod 2 ^ lg)) c"
    and pp: "\<And>t c. do_pop D t c = do_pop_any mv (slot_index b (unat t mod 2 ^ lg)) c"
  shows "slot_store D (state_cells_ok lg) (state_slot b lg) (\<lambda>_. True) lg"
proof
  show "d_size D = 2 ^ lg" by (rule sz)
  show "lg < 31" by (rule lg(1))
next
  fix c :: "'a state_cells" and x :: 'a and t :: u32
  let ?i = "unat t mod 2 ^ lg"
  assume c: "state_cells_ok lg c" and free: "state_slot b lg c ?i = None"
  have i: "?i < 2 ^ lg" by simp
  have j: "slot_index b ?i < 2 ^ lg" using lg i by (rule slot_index_less)
  have "q_states c ! slot_index b ?i \<in> {EMPTY, STORED}"
    using c j by (metis nth_mem state_cells_ok_def subsetD)
  with free have st: "q_states c ! slot_index b ?i = EMPTY"
    by (auto simp: state_slot_def split: if_splits)
  let ?c = "c\<lparr>q_elements := (q_elements c)[slot_index b ?i := x],
     q_states := (q_states c)[slot_index b ?i := STORED]\<rparr>"
  have "state_cells_ok lg ?c"
    using c set_update_subset_insert [of "q_states c"] by (fastforce simp: state_cells_ok_def)
  moreover have "state_slot b lg ?c = (state_slot b lg c)(?i := Some x)"
    using c j lg by (auto simp: fun_eq_iff state_slot_def state_cells_ok_def slot_index_inj nth_list_update)
  ultimately show "\<exists>c'. do_push D x t c = Some c' \<and> state_cells_ok lg c' \<and>
      state_slot b lg c' = (state_slot b lg c)(?i := Some x)"
    using st by (simp add: psh do_push_any_def)
next
  fix c :: "'a state_cells" and x :: 'a and t :: u32
  let ?i = "unat t mod 2 ^ lg"
  assume c: "state_cells_ok lg c" and taken: "state_slot b lg c ?i = Some x"
  have i: "?i < 2 ^ lg" by simp
  have j: "slot_index b ?i < 2 ^ lg" using lg i by (rule slot_index_less)
  have st: "q_states c ! slot_index b ?i = STORED" "q_elements c ! slot_index b ?i = x"
    using taken by (auto simp: state_slot_def split: if_splits)
  let ?c = "c\<lparr>q_states := (q_states c)[slot_index b ?i := EMPTY],
     q_elements := (q_elements c)[slot_index b ?i := mv x]\<rparr>"
  have "state_cells_ok lg ?c"
    using c set_update_subset_insert [of "q_states c"] by (fastforce simp: state_cells_ok_def)
  moreover have "state_slot b lg ?c = (state_slot b lg c)(?i := None)"
    using c j lg by (auto simp: fun_eq_iff state_slot_def state_cells_ok_def slot_index_inj nth_list_update)
  ultimately show "\<exists>c'. do_pop D t c = Some (x, c') \<and> state_cells_ok lg c' \<and>
      state_slot b lg c' = (state_slot b lg c)(?i := None)"
    using st by (simp add: pp do_pop_any_def)
next
  fix c :: "'a state_cells" and x y :: 'a and t :: u32
  assume "state_slot b lg c (unat t mod 2 ^ lg) = Some y"
  then show "do_push D x t c = None"
    by (auto simp: psh do_push_any_def state_slot_def split: if_splits)
qed

lemma slot_store_atomics:
  assumes lg: "lg < 31" "2 * b \<le> lg" and sz: "d_size D = 2 ^ lg"
    and psh: "\<And>x t c. do_push D x t c = do_push_atomic NIL x (slot_index b (unat t mod 2 ^ lg)) c"
    and pp: "\<And>t c. do_pop D t c = do_pop_atomic NIL (slot_index b (unat t mod 2 ^ lg)) c"
  shows "slot_store D (atomic_cells_ok lg) (atomic_slot NIL b lg) (\<lambda>x. x \<noteq> NIL) lg"
proof
  show "d_size D = 2 ^ lg" by (rule sz)
  show "lg < 31" by (rule lg(1))
next
  fix c :: "'a list" and x :: 'a and t :: u32
  let ?i = "unat t mod 2 ^ lg"
  assume c: "atomic_cells_ok lg c" "x \<noteq> NIL" and free: "atomic_slot NIL b lg c ?i = None"
  have j: "slot_index b ?i < 2 ^ lg" using lg by (intro slot_index_less) auto
  have "atomic_slot NIL b lg (c[slot_index b ?i := x]) = (atomic_slot NIL b lg c)(?i := Some x)"
    using c j lg by (auto simp: fun_eq_iff atomic_slot_def atomic_cells_ok_def slot_index_inj nth_list_update)
  with c free show "\<exists>c'. do_push D x t c = Some c' \<and> atomic_cells_ok lg c' \<and>
      atomic_slot NIL b lg c' = (atomic_slot NIL b lg c)(?i := Some x)"
    by (auto simp: psh do_push_atomic_def atomic_slot_def atomic_cells_ok_def split: if_splits)
next
  fix c :: "'a list" and x :: 'a and t :: u32
  let ?i = "unat t mod 2 ^ lg"
  assume c: "atomic_cells_ok lg c" and taken: "atomic_slot NIL b lg c ?i = Some x"
  have j: "slot_index b ?i < 2 ^ lg" using lg by (intro slot_index_less) auto
  have "atomic_slot NIL b lg (c[slot_index b ?i := NIL]) = (atomic_slot NIL b lg c)(?i := None)"
    using c j lg by (auto simp: fun_eq_iff atomic_slot_def atomic_cells_ok_def slot_index_inj nth_list_update)
  with c taken show "\<exists>c'. do_pop D t c = Some (x, c') \<and> atomic_cells_ok lg c' \<and>
      atomic_slot NIL b lg c' = (atomic_slot NIL b lg c)(?i := None)"
    by (auto simp: pp do_pop_atomic_def atomic_slot_def atomic_cells_ok_def split: if_splits)
next
  fix c :: "'a list" and x y :: 'a and t :: u32
  assume "atomic_slot NIL b lg c (unat t mod 2 ^ lg) = Some y"
  then show "do_push D x t c = None"
    by (auto simp: psh do_push_atomic_def atomic_slot_def split: if_splits)
qed

subsection \<open>Sizes\<close>

lemma round_up_cases:
  assumes "1 \<le> unat a" "unat a \<le> 2 ^ 31"
  obtains lg where "lg \<le> 31" "round_up_to_power_of_2 a = 2 ^ lg" "unat a \<le> 2 ^ lg"
    "lg = 0 \<or> 2 ^ (lg - 1) < unat a"
proof (cases "unat a = 1")
  case True
  then have "a = 1" by (metis unat_1 word_unat_eq_iff)
  then have "round_up_to_power_of_2 a = 2 ^ 0"
    by (simp add: round_up_to_power_of_2_def increment_def decrement_def)
  with True that [of 0] show thesis by simp
next
  case False
  with assms(1) have "2 \<le> unat a" by simp
  moreover have "smeared LENGTH(32) (a - 1) (or_equal (a - 1) [1, 2, 4, 8, 16])"
    using smeared_or_equal_32 [of "a - 1"] by simp
  ultimately obtain k where k: "2 ^ k < unat a" "unat a \<le> 2 ^ Suc k"
    "or_equal (a - 1) [1, 2, 4, 8, 16] + 1 = 2 ^ Suc k"
    by (rule increment_smeared) blast
  from k(1) assms(2) have "(2::nat) ^ k < 2 ^ 31" by linarith
  then have "k < 31" by (rule power_less_imp_less_exp [rotated]) simp
  with k that [of "Suc k"] show thesis
    by (simp add: round_up_to_power_of_2_def increment_def decrement_def)
qed

lemma round_up_pow_30:
  assumes "1 \<le> unat a" "unat a \<le> 2 ^ 30"
  obtains lg where "lg < 31" "round_up_to_power_of_2 a = 2 ^ lg" "unat a \<le> 2 ^ lg"
proof -
  obtain lg where lg: "round_up_to_power_of_2 a = 2 ^ lg" "unat a \<le> 2 ^ lg"
    "lg = 0 \<or> 2 ^ (lg - 1) < unat a"
    using assms by (elim round_up_cases [of a]) auto
  have "lg < 31"
  proof (cases "lg = 0")
    case False
    with lg(3) assms(2) have "(2::nat) ^ (lg - 1) < 2 ^ 30" by linarith
    then have "lg - 1 < 30" by (rule power_less_imp_less_exp [rotated]) simp
    then show ?thesis by simp
  qed simp
  with lg that show thesis by blast
qed

lemma cache_bits_le: "GetCacheLineIndexBits n \<le> 8"
  by (simp add: GetCacheLineIndexBits_def)

lemma shuffle_bits_le:
  assumes "lg < 31"
  shows "2 * GetIndexShuffleBits mc (2 ^ lg) n \<le> lg"
proof (cases "mc \<and> \<not> (2 ^ lg :: u32) < 2 ^ (GetCacheLineIndexBits n * 2)")
  case True
  let ?b = "GetCacheLineIndexBits n * 2"
  have "?b < 32" using cache_bits_le [of n] by simp
  with True assms have "(2::nat) ^ ?b \<le> 2 ^ lg"
    by (simp add: word_less_nat_alt unat_exp)
  then have "?b \<le> lg" by (rule power_le_imp_le_exp [rotated]) simp
  with True show ?thesis by (simp add: GetIndexShuffleBits_def Let_def mult.commute)
qed (auto simp: GetIndexShuffleBits_def Let_def)

lemma mod_slot_index:
  assumes "lg < 31"
  shows "unat (remap_index b (t mod 2 ^ lg)) = slot_index b (unat t mod 2 ^ lg)"
proof -
  have "unat t mod 2 ^ lg < 2 ^ 32"
    using pow_le_30 [OF assms] by (meson less_trans mod_less_divisor zero_less_numeral zero_less_power)
  then have "t mod 2 ^ lg = of_nat (unat t mod 2 ^ lg)"
    using assms by (simp add: word_unat_eq_iff unat_mod unat_exp unat_of_nat)
  then show ?thesis by (simp add: slot_index_def)
qed

lemma and_slot_index:
  assumes "lg < 31"
  shows "unat (remap_index b (t AND (2 ^ lg - 1))) = slot_index b (unat t mod 2 ^ lg)"
proof -
  have "t AND (2 ^ lg - 1) = take_bit lg t" by (simp add: take_bit_eq_mask mask_eq_exp_minus_1)
  moreover have "take_bit lg t = t mod 2 ^ lg" by (rule take_bit_eq_mod)
  ultimately show ?thesis using mod_slot_index [OF assms] by simp
qed

subsection \<open>The queue classes meet the contract\<close>

lemma slot_store_AtomicQueue2:
  assumes "lg < 31" "round_up_to_power_of_2 SIZE = 2 ^ lg"
  shows "slot_store (AtomicQueue2 mv SIZE True) (state_cells_ok lg)
     (state_slot (GetIndexShuffleBits True (2 ^ lg) 64) lg) (\<lambda>_. True) lg"
  using assms shuffle_bits_le [OF assms(1), of True 64]
  by (intro slot_store_states [where mv = mv])
    (simp_all add: AtomicQueue2_def Let_def CACHE_LINE_SIZE_def mod_slot_index)

lemma slot_store_AtomicQueue:
  assumes "lg < 31" "round_up_to_power_of_2 SIZE = 2 ^ lg"
  shows "slot_store (AtomicQueue NIL sz SIZE True) (atomic_cells_ok lg)
     (atomic_slot NIL (GetIndexShuffleBits True (2 ^ lg) (64 div sz)) lg) (\<lambda>x. x \<noteq> NIL) lg"
  using assms shuffle_bits_le [OF assms(1), of True "64 div sz"]
  by (intro slot_store_atomics)
    (simp_all add: AtomicQueue_def Let_def CACHE_LINE_SIZE_def mod_slot_index)

text \<open>
  The two classes sized at run time take at least one full shuffle block, so the bit swap is
  always in range.
\<close>

lemma size_B_pow:
  assumes "lg < 31" "round_up_to_power_of_2 sz = 2 ^ lg" "b \<le> 8"
  shows "max (round_up_to_power_of_2 sz) (push_bit (b * 2) 1) = (2 ^ max lg (2 * b) :: u32)"
proof -
  have 1: "unat (2 ^ (2 * b) :: u32) = 2 ^ (2 * b)" using assms(3) by (intro unat_exp) simp
  have 2: "unat (2 ^ lg :: u32) = 2 ^ lg" using assms(1) by (intro unat_exp) simp
  show ?thesis
    using assms(2) 1 2 by (auto simp: max_def word_le_nat_alt mult.commute [of b 2])
qed

lemma slot_store_AtomicQueueB2:
  assumes "lg < 31" "round_up_to_power_of_2 sz = 2 ^ lg"
  shows "slot_store (AtomicQueueB2 mv sz) (state_cells_ok (max lg 12)) (state_slot 6 (max lg 12))
     (\<lambda>_. True) (max lg 12)"
proof -
  have sz: "max (round_up_to_power_of_2 sz) (push_bit 12 1) = 2 ^ max lg 12"
    using size_B_pow [OF assms, of 6] by simp
  show ?thesis
    by (intro slot_store_states [where mv = mv])
      (use assms(1) in \<open>simp_all add: AtomicQueueB2_def Let_def CACHE_LINE_SIZE_def
          GetCacheLineIndexBits_def sz [simplified] and_slot_index\<close>)
qed

lemma slot_store_AtomicQueueB:
  fixes n :: nat
  assumes "lg < 31" "round_up_to_power_of_2 sz = 2 ^ lg"
  defines "b \<equiv> GetCacheLineIndexBits (64 div n)"
  shows "slot_store (AtomicQueueB NIL n sz) (atomic_cells_ok (max lg (2 * b)))
     (atomic_slot NIL b (max lg (2 * b))) (\<lambda>x. x \<noteq> NIL) (max lg (2 * b))"
proof -
  have b: "b \<le> 8" unfolding b_def by (rule cache_bits_le)
  have sz: "max (round_up_to_power_of_2 sz) (push_bit (b * 2) 1) = 2 ^ max lg (2 * b)"
    by (rule size_B_pow [OF assms(1,2) b])
  show ?thesis
    by (intro slot_store_atomics)
      (use assms(1) b in \<open>simp_all add: AtomicQueueB_def Let_def CACHE_LINE_SIZE_def
          b_def [symmetric] sz [simplified] and_slot_index\<close>)
qed

subsection \<open>The server's queue\<close>

text \<open>
  \<^verbatim>\<open>using AtomicQueueString = atomic_queue::AtomicQueue2<std::string, constants::QUEUE_SIZE>\<close>
  (\<^verbatim>\<open>Server_main.cpp\<close>): 128 slots, no bit swap.
\<close>

definition AtomicQueueString :: "(string \<Rightarrow> string) \<Rightarrow> (string, string state_cells) derived" where
  "AtomicQueueString moved_from = AtomicQueue2 moved_from 128 True"

lemma round_up_128: "round_up_to_power_of_2 128 = 2 ^ 7"
  by (simp add: round_up_to_power_of_2_def increment_def decrement_def)

lemma shuffle_128: "GetIndexShuffleBits True (2 ^ 7) 64 = 0"
  by (simp add: GetIndexShuffleBits_def GetCacheLineIndexBits_def)

definition string_queue_inv :: "string state_cells queue_common \<Rightarrow> bool" where
  "string_queue_inv = ring_inv 7 (state_cells_ok 7) (state_slot 0 7)"

definition string_queue_items :: "string state_cells queue_common \<Rightarrow> string list" where
  "string_queue_items = ring_items 7 (state_slot 0 7)"

definition new_string_queue :: "string state_cells queue_common" where
  "new_string_queue = new_queue (empty_state_cells 128 [])"

interpretation sq: slot_store "AtomicQueueString mv" "state_cells_ok 7" "state_slot 0 7"
  "\<lambda>_. True" 7 for mv
  using slot_store_AtomicQueue2 [of 7 128 mv] round_up_128 shuffle_128
  by (simp add: AtomicQueueString_def)

interpretation strq: thread_safe_queue "try_push (AtomicQueueString mv)"
  "try_pop (AtomicQueueString mv)" string_queue_inv string_queue_items 128 "\<lambda>_. True" for mv
  using sq.tsq.thread_safe_queue_axioms [of mv]
  by (simp add: string_queue_inv_def string_queue_items_def)

text \<open>A queue with no element, whatever its tickets are.\<close>

lemma empty_ring_inv:
  "ring_inv lg (state_cells_ok lg) (state_slot b lg)
     \<lparr>q_head = t, q_tail = t, q_cells = empty_state_cells (2 ^ lg) d\<rparr>"
  if "lg < 31" "2 * b \<le> lg"
  using that slot_index_less [OF that]
  by (auto simp: ring_inv_def ring_count_def ring_pos_def state_cells_ok_def state_slot_def
      empty_state_cells_def)

lemma string_queue_inv_empty:
  "string_queue_inv \<lparr>q_head = t, q_tail = t, q_cells = empty_state_cells 128 d\<rparr>"
  using empty_ring_inv [of 7 0 t d] by (simp add: string_queue_inv_def)

lemma string_queue_items_empty:
  "string_queue_items \<lparr>q_head = t, q_tail = t, q_cells = c\<rparr> = []"
  by (simp add: string_queue_items_def ring_items_def ring_count_def)

lemma new_string_queue_inv: "string_queue_inv new_string_queue"
  and new_string_queue_items: "string_queue_items new_string_queue = []"
  by (simp_all add: new_string_queue_def new_queue_def string_queue_inv_empty
      string_queue_items_empty)

subsection \<open>Properties of the queue\<close>

text \<open>C5: every sequence of \<open>try_push\<close> and \<open>try_pop\<close> calls on the server's queue returns, and
  its answers are those of a FIFO list of at most 128 strings, from any state the queue can
  be in; the tickets may wrap around their 32 bits on the way.\<close>

theorem string_queue_refines_bounded_fifo:
  assumes "string_queue_inv q"
  shows "\<exists>as q'. impl_run (try_push (AtomicQueueString mv)) (try_pop (AtomicQueueString mv)) ops q
        = Some (as, q') \<and> string_queue_inv q' \<and>
      spec_run 128 ops (string_queue_items q) = (as, string_queue_items q')"
  using assms by (rule strq.run_refines) simp

theorem string_queue_refines_bounded_fifo_witness:
  "\<exists>as q'. impl_run (try_push (AtomicQueueString (\<lambda>s. s))) (try_pop (AtomicQueueString (\<lambda>s. s)))
        [Try_push ''a'', Try_push ''b'', Try_pop, Try_pop, Try_pop]
        \<lparr>q_head = - 1, q_tail = - 1, q_cells = empty_state_cells 128 []\<rparr> = Some (as, q') \<and>
      as = [Pushed True, Pushed True, Popped (Some ''a''), Popped (Some ''b''), Popped None]"
  using string_queue_refines_bounded_fifo [OF string_queue_inv_empty [of "- 1" "[]"], of "\<lambda>s. s"
      "[Try_push ''a'', Try_push ''b'', Try_pop, Try_pop, Try_pop]"]
  by (auto simp: string_queue_items_empty)

text \<open>Rounding a size up gives the least power of two that is at least as large, for every
  size whose rounding fits 32 bits.\<close>

theorem round_up_is_least_power:
  assumes "1 \<le> unat a" and "unat a \<le> 2 ^ 31"
  shows "\<exists>k. unat (round_up_to_power_of_2 a) = 2 ^ k \<and> unat a \<le> 2 ^ k \<and>
     (\<forall>j. unat a \<le> 2 ^ j \<longrightarrow> k \<le> j)"
proof -
  obtain k where k: "k \<le> 31" "round_up_to_power_of_2 a = 2 ^ k" "unat a \<le> 2 ^ k"
    "k = 0 \<or> 2 ^ (k - 1) < unat a" using assms by (rule round_up_cases)
  have "k \<le> j" if "unat a \<le> 2 ^ j" for j
  proof (cases "k = 0")
    case False
    with k(4) that have "(2::nat) ^ (k - 1) < 2 ^ j" by linarith
    then have "k - 1 < j" by (rule power_less_imp_less_exp [rotated]) simp
    then show ?thesis by simp
  qed simp
  with k show ?thesis by (intro exI [of _ k]) (simp add: unat_exp)
qed

theorem round_up_is_least_power_witness:
  "\<exists>k. unat (round_up_to_power_of_2 100) = 2 ^ k \<and> 100 \<le> (2::nat) ^ k"
  using round_up_is_least_power [of 100] by auto

text \<open>The index remapping permutes the slots: within a buffer of \<open>2 ^ lg\<close> slots that holds at
  least one shuffle block, every index is reached by exactly one ticket position, and
  remapping twice gives the index back.\<close>

theorem remap_permutes_slots:
  assumes "lg < 31" and "2 * b \<le> lg"
  shows "bij_betw (\<lambda>i. unat (remap_index b (of_nat i))) {..<2 ^ lg} {..<2 ^ lg} \<and>
     remap_index b (remap_index b i) = i"
proof -
  have inj: "inj_on (slot_index b) {..<2 ^ lg}"
    using slot_index_inj [OF assms] by (auto simp: inj_on_def)
  moreover have sub: "slot_index b ` {..<2 ^ lg} \<subseteq> {..<2 ^ lg}"
    using slot_index_less [OF assms] by auto
  ultimately have "bij_betw (slot_index b) {..<2 ^ lg} {..<2 ^ lg}"
    by (simp add: bij_betw_def endo_inj_surj)
  then show ?thesis using remap_index_involution [of b i] assms
    by (simp add: slot_index_def [abs_def])
qed

theorem remap_permutes_slots_witness:
  "bij_betw (\<lambda>i. unat (remap_index 6 (of_nat i))) {..<2 ^ 12} {..<2 ^ 12} \<and>
   remap_index 6 (remap_index 6 5) = 5"
  by (rule remap_permutes_slots) simp_all

end
