(* ===== verification/Server_Queue.thy ===== *)
theory Server_Queue
  imports Thread_Manager Queue_Instances
begin

text \<open>
  The queue as the server uses it: the contract the manager's lemmas are proved against, and
  the queue type of \<^verbatim>\<open>Server_main.cpp\<close>, which meets it.
\<close>

locale server_queue =
  thread_safe_queue "q_try_push Q" "q_try_pop Q" inv items QUEUE_SIZE "\<lambda>_. True"
  for Q :: "'q queue_ops" and inv :: "'q \<Rightarrow> bool" and items :: "'q \<Rightarrow> string list" +
  assumes new_inv: "inv (q_new Q)" and new_items: "items (q_new Q) = []"
begin

lemma push_cases:
  assumes "inv q"
  obtains q' where "queue_push Q x q = Inr (True, q')" "inv q'" "items q' = items q @ [x]"
      "length (items q) < QUEUE_SIZE"
  | "queue_push Q x q = Inr (False, q)" "length (items q) = QUEUE_SIZE"
proof (cases "length (items q) < QUEUE_SIZE")
  case True
  with push_room [OF assms TrueI, of x] obtain q' where "q_try_push Q x q = Some (True, q')" "inv q'"
    "items q' = items q @ [x]" by blast
  with True that(1) show thesis by (simp add: queue_push_def)
next
  case False
  with push_full [OF assms, of x] bounded [OF assms] that(2) show thesis by (simp add: queue_push_def)
qed

lemma pop_cases:
  assumes "inv q"
  obtains x xs q' where "items q = x # xs" "queue_pop Q q = Inr (Some x, q')" "inv q'" "items q' = xs"
  | "items q = []" "queue_pop Q q = Inr (None, q)"
proof (cases "items q")
  case Nil
  with pop_none [OF assms] that(2) show thesis by (simp add: queue_pop_def)
next
  case (Cons x xs)
  with pop_item [OF assms Cons] that(1) show thesis
    by (auto simp: queue_pop_def)
qed

end

definition string_queue_ops :: "(string \<Rightarrow> string) \<Rightarrow> string state_cells queue_common queue_ops" where
  "string_queue_ops moved_from = \<lparr>q_new = new_string_queue,
     q_try_push = try_push (AtomicQueueString moved_from),
     q_try_pop = try_pop (AtomicQueueString moved_from)\<rparr>"

lemma string_queue_ops_simps [simp]:
  "q_new (string_queue_ops mv) = new_string_queue"
  "q_try_push (string_queue_ops mv) = try_push (AtomicQueueString mv)"
  "q_try_pop (string_queue_ops mv) = try_pop (AtomicQueueString mv)"
  by (simp_all add: string_queue_ops_def)

interpretation srv: server_queue "string_queue_ops mv" string_queue_inv string_queue_items for mv
  using strq.thread_safe_queue_axioms [of mv]
  by (simp add: server_queue_def server_queue_axioms_def new_string_queue_inv new_string_queue_items)

text \<open>A queue holding the given messages.\<close>

definition loaded_queue :: "string list \<Rightarrow> string state_cells queue_common" where
  "loaded_queue xs = foldl (\<lambda>q x. snd (the (try_push (AtomicQueueString (\<lambda>s. s)) x q))) new_string_queue xs"

lemma loaded_queue_holds:
  "length xs \<le> 128 \<Longrightarrow> string_queue_inv (loaded_queue xs) \<and> string_queue_items (loaded_queue xs) = xs"
proof (induction xs rule: rev_induct)
  case Nil
  then show ?case by (simp add: loaded_queue_def new_string_queue_inv new_string_queue_items)
next
  case (snoc x xs)
  then have "string_queue_inv (loaded_queue xs)" "length (string_queue_items (loaded_queue xs)) < 128"
    "string_queue_items (loaded_queue xs) = xs" by simp_all
  with strq.push_room [where q = "loaded_queue xs" and x = x and mv = "\<lambda>s. s"] show ?case by (auto simp: loaded_queue_def)
qed

end
