(* ===== verification/Server_Table.thy ===== *)
theory Server_Table
  imports Chat_Server
begin

unbundle bit_operations_syntax

text \<open>
  The client table is well formed in every state, and behaves as a registry of clients keyed
  by their id: a partial map with at most \<open>MAX_CLIENTS\<close> entries.
\<close>

subsection \<open>Fields the calls leave alone\<close>

lemma emit_server_simps [simp]:
  "sv_socket (emit e s) = sv_socket s" "nr_of_connections (emit e s) = nr_of_connections s"
  "clients (emit e s) = clients s" "server_done (emit e s) = server_done s"
  "client_data_id (emit e s) = client_data_id s"
  by (simp_all add: emit_def)

lemma print_server_simps [simp]:
  "sv_socket (emit_print x s) = sv_socket s" "nr_of_connections (emit_print x s) = nr_of_connections s"
  "clients (emit_print x s) = clients s" "server_done (emit_print x s) = server_done s"
  "client_data_id (emit_print x s) = client_data_id s"
  by (simp_all add: emit_print_def)

lemma close_server_simps [simp]:
  "sv_socket (close_fd fd s) = sv_socket s" "nr_of_connections (close_fd fd s) = nr_of_connections s"
  "clients (close_fd fd s) = clients s" "server_done (close_fd fd s) = server_done s"
  "client_data_id (close_fd fd s) = client_data_id s"
  by (simp_all add: close_fd_def)

lemma put_server_simps [simp]:
  "sv_socket (put_client i c s) = sv_socket s"
  "nr_of_connections (put_client i c s) = nr_of_connections s"
  "clients (put_client i c s) = (clients s)[i := Some c]"
  "server_done (put_client i c s) = server_done s"
  "client_data_id (put_client i c s) = client_data_id s" "hist (put_client i c s) = hist s"
  by (simp_all add: put_client_def)

lemma state_inc [simp]: "cd_init_state (inc_state c) = cd_init_state c + 1"
  "cd_personal_id (inc_state c) = cd_personal_id c" "cd_fd (inc_state c) = cd_fd c"
  "cd_name (inc_state c) = cd_name c" "cd_color_id (inc_state c) = cd_color_id c"
  "cd_send_queue (inc_state c) = cd_send_queue c"
  by (simp_all add: inc_state_def)

lemma state_set [simp]: "cd_init_state (set_state n c) = n"
  "cd_personal_id (set_state n c) = cd_personal_id c" "cd_fd (set_state n c) = cd_fd c"
  "cd_name (set_state n c) = cd_name c" "cd_color_id (set_state n c) = cd_color_id c"
  "cd_send_queue (set_state n c) = cd_send_queue c"
  by (simp_all add: set_state_def)

lemma wrap_int_id: "INT_MIN \<le> n \<Longrightarrow> n \<le> INT_MAX \<Longrightarrow> wrap_int n = n"
  by (simp add: wrap_int_def INT_MIN_def INT_MAX_def)

subsection \<open>References\<close>

lemma has_id_None [simp]: "\<not> has_id i None"
  and has_id_Some [simp]: "has_id i (Some c) \<longleftrightarrow> cd_personal_id c = i"
  by (simp_all add: has_id_def)

lemma get_client_ref_SomeD:
  assumes "get_client_ref cid s = Some i"
  shows "i < length (clients s) \<and> (\<exists>c. clients s ! i = Some c \<and> cd_personal_id c = cid)"
  using find_index_SomeD [OF assms [unfolded get_client_ref_def]]
  by (cases "clients s ! i") auto

lemma get_client_ref_None_iff:
  "get_client_ref cid s = None \<longleftrightarrow> (\<forall>c. Some c \<in> set (clients s) \<longrightarrow> cd_personal_id c \<noteq> cid)"
  by (auto simp: get_client_ref_def find_index_None has_id_def split: option.splits)

lemma deref_Some [simp]: "i < length (clients s) \<Longrightarrow> clients s ! i = Some c \<Longrightarrow> deref i s = Inr c"
  by (simp add: deref_def)

lemma deref_InrD: "deref i s = Inr c \<Longrightarrow> i < length (clients s) \<and> clients s ! i = Some c"
  by (auto simp: deref_def split: if_splits option.splits)

lemma connected_IDs_iff: "cid \<in> set (get_connected_IDs s) \<longleftrightarrow> get_client_ref cid s \<noteq> None"
proof -
  have "cid \<in> set (List.map_filter (map_option cd_personal_id) cs) \<longleftrightarrow>
      (\<exists>c. Some c \<in> set cs \<and> cd_personal_id c = cid)" for cs :: "'a client_data option list"
    by (induction cs) (auto simp: List.map_filter_simps split: option.splits)
  then show ?thesis
    using get_client_ref_None_iff [of cid s] by (auto simp: get_connected_IDs_def)
qed

subsection \<open>The invariant\<close>

definition ids_unique :: "'q client_data option list \<Rightarrow> bool" where
  "ids_unique cs \<longleftrightarrow> (\<forall>i j a b. i < length cs \<longrightarrow> j < length cs \<longrightarrow> cs ! i = Some a \<longrightarrow>
     cs ! j = Some b \<longrightarrow> cd_personal_id a = cd_personal_id b \<longrightarrow> i = j)"

definition server_wf :: "('q, 'z) server_state_scheme \<Rightarrow> bool" where
  "server_wf s \<longleftrightarrow> length (clients s) = MAX_CLIENTS \<and>
     nr_of_connections s = int (occupied (clients s)) \<and> ids_unique (clients s) \<and>
     (\<forall>c. Some c \<in> set (clients s) \<longrightarrow> 0 \<le> cd_personal_id c \<and> cd_personal_id c < client_data_id s) \<and>
     0 \<le> client_data_id s \<and> client_data_id s \<le> INT_MAX"

text \<open>The client behind an id, the abstract view of the table.\<close>

definition client_of :: "int \<Rightarrow> ('q, 'z) server_state_scheme \<Rightarrow> 'q client_data option" where
  "client_of cid s = (case get_client_ref cid s of None \<Rightarrow> None | Some i \<Rightarrow> clients s ! i)"

lemma server_wf_cong:
  assumes "clients t = clients s" "nr_of_connections t = nr_of_connections s"
    "client_data_id t = client_data_id s"
  shows "server_wf t \<longleftrightarrow> server_wf s"
  using assms by (simp add: server_wf_def)

lemma server_wf_emit [simp]: "server_wf (emit e s) \<longleftrightarrow> server_wf s"
  and server_wf_emit_print [simp]: "server_wf (emit_print x s) \<longleftrightarrow> server_wf s"
  and server_wf_close [simp]: "server_wf (close_fd fd s) \<longleftrightarrow> server_wf s"
  by (rule server_wf_cong; simp)+

lemma server_wf_start: "server_wf (server_start h)"
  by (simp add: server_wf_def server_start_def ids_unique_def INT_MAX_def nth_Cons' )

lemma ids_unique_ref:
  assumes "ids_unique (clients s)" "i < length (clients s)" "clients s ! i = Some c"
  shows "get_client_ref (cd_personal_id c) s = Some i"
proof -
  obtain k where k: "get_client_ref (cd_personal_id c) s = Some k"
    using find_index_SomeI [of i "clients s" "has_id (cd_personal_id c)"] assms
    by (auto simp: get_client_ref_def)
  with get_client_ref_SomeD [OF k] assms have "k = i" by (auto simp: ids_unique_def)
  with k show ?thesis by simp
qed

lemma client_of_Some_iff:
  assumes "ids_unique (clients s)"
  shows "client_of cid s = Some c \<longleftrightarrow> Some c \<in> set (clients s) \<and> cd_personal_id c = cid"
proof
  assume "client_of cid s = Some c"
  then obtain i where "get_client_ref cid s = Some i" "clients s ! i = Some c"
    by (auto simp: client_of_def split: option.splits)
  with get_client_ref_SomeD [of cid s i] show "Some c \<in> set (clients s) \<and> cd_personal_id c = cid"
    by (auto simp: in_set_conv_nth)
next
  assume "Some c \<in> set (clients s) \<and> cd_personal_id c = cid"
  then obtain i where "i < length (clients s)" "clients s ! i = Some c" "cd_personal_id c = cid"
    by (auto simp: in_set_conv_nth)
  with ids_unique_ref [OF assms] show "client_of cid s = Some c" by (auto simp: client_of_def)
qed

lemma client_of_None_iff: "client_of cid s = None \<longleftrightarrow> get_client_ref cid s = None"
  using get_client_ref_SomeD [of cid s] by (auto simp: client_of_def split: option.splits)

lemma distinct_connected_IDs:
  assumes "ids_unique (clients s)"
  shows "distinct (get_connected_IDs s) \<and> length (get_connected_IDs s) = occupied (clients s)"
proof -
  have "distinct (List.map_filter (map_option cd_personal_id) cs) \<and>
      length (List.map_filter (map_option cd_personal_id) cs) = occupied cs"
    if "ids_unique cs" for cs :: "'a client_data option list"
    using that
  proof (induction cs)
    case (Cons x cs)
    have tl: "ids_unique cs"
      unfolding ids_unique_def
    proof (intro allI impI)
      fix i j a b
      assume "i < length cs" "j < length cs" "cs ! i = Some a" "cs ! j = Some b"
        "cd_personal_id a = cd_personal_id b"
      with Cons.prems [unfolded ids_unique_def, rule_format, of "Suc i" "Suc j" a b]
      show "i = j" by simp
    qed
    show ?case
    proof (cases x)
      case (Some c)
      have "cd_personal_id c \<notin> set (List.map_filter (map_option cd_personal_id) cs)"
      proof
        assume "cd_personal_id c \<in> set (List.map_filter (map_option cd_personal_id) cs)"
        then obtain d where d: "Some d \<in> set cs" "cd_personal_id d = cd_personal_id c"
          by (auto simp: List.map_filter_def)
        then obtain j where "j < length cs" "cs ! j = Some d" by (auto simp: in_set_conv_nth)
        with Cons.prems [unfolded ids_unique_def, rule_format, of 0 "Suc j" c d] d Some
        show False by simp
      qed
      with Cons.IH [OF tl] Some show ?thesis by (simp add: List.map_filter_simps)
    qed (use Cons.IH [OF tl] in \<open>simp add: List.map_filter_simps\<close>)
  qed (simp add: List.map_filter_simps)
  with assms show ?thesis by (simp add: get_connected_IDs_def)
qed

subsection \<open>Every operation keeps the invariant\<close>

lemma ids_unique_update_same:
  assumes "ids_unique cs" "i < length cs" "cs ! i = Some c" "cd_personal_id d = cd_personal_id c"
  shows "ids_unique (cs[i := Some d])"
  unfolding ids_unique_def
proof (intro allI impI)
  fix k l a b
  assume "k < length (cs[i := Some d])" "l < length (cs[i := Some d])"
    "cs[i := Some d] ! k = Some a" "cs[i := Some d] ! l = Some b"
    "cd_personal_id a = cd_personal_id b"
  then show "k = l"
    using assms unfolding ids_unique_def
    by (cases "k = i"; cases "l = i") (auto simp: nth_list_update)
qed

lemma ids_unique_free: "ids_unique cs \<Longrightarrow> ids_unique (cs[i := None])"
  unfolding ids_unique_def
proof (intro allI impI)
  fix k l a b
  assume u: "\<forall>i j a b. i < length cs \<longrightarrow> j < length cs \<longrightarrow> cs ! i = Some a \<longrightarrow> cs ! j = Some b \<longrightarrow>
      cd_personal_id a = cd_personal_id b \<longrightarrow> i = j"
    and "k < length (cs[i := None])" "l < length (cs[i := None])" "cs[i := None] ! k = Some a"
    "cs[i := None] ! l = Some b" "cd_personal_id a = cd_personal_id b"
  then have "cs ! k = Some a" "cs ! l = Some b" by (cases "k = i"; cases "l = i"; simp)+
  with u \<open>k < length (cs[i := None])\<close> \<open>l < length (cs[i := None])\<close>
    \<open>cd_personal_id a = cd_personal_id b\<close> show "k = l" by simp
qed

lemma ids_unique_fill:
  assumes "ids_unique cs" "i < length cs" "\<And>d. Some d \<in> set cs \<Longrightarrow> cd_personal_id d \<noteq> cd_personal_id c"
  shows "ids_unique (cs[i := Some c])"
  unfolding ids_unique_def
proof (intro allI impI)
  fix k l a b
  assume "k < length (cs[i := Some c])" "l < length (cs[i := Some c])"
    "cs[i := Some c] ! k = Some a" "cs[i := Some c] ! l = Some b"
    "cd_personal_id a = cd_personal_id b"
  then show "k = l"
    using assms unfolding ids_unique_def
    by (cases "k = i"; cases "l = i") (auto simp: nth_list_update in_set_conv_nth)
qed

lemma in_set_update: "x \<in> set (xs[i := y]) \<Longrightarrow> x = y \<or> x \<in> set xs"
  using set_update_subset_insert [of xs i y] by auto

lemma put_client_wf:
  assumes "server_wf s" "i < length (clients s)" "clients s ! i = Some c"
    "cd_personal_id d = cd_personal_id c"
  shows "server_wf (put_client i d s)"
proof -
  have "0 \<le> cd_personal_id d \<and> cd_personal_id d < client_data_id s"
    using assms by (metis nth_mem server_wf_def)
  with assms show ?thesis
    by (auto simp: server_wf_def ids_unique_update_same occupied_replace dest: in_set_update)
qed

text \<open>Placing an accepted connection in the first free slot.\<close>

lemma place_client_full:
  "occupied (clients s) = length (clients s) \<Longrightarrow>
   place_client os Q sock s = (Inr (- 1, - 1), close_fd sock s)"
proof -
  assume "occupied (clients s) = length (clients s)"
  then have "find_index (\<lambda>c. c = None) (clients s) = None"
    unfolding find_index_None occupied_full_iff by (intro ballI notI) simp
  then show ?thesis by (simp add: place_client_def)
qed

lemma place_client_room:
  assumes wf: "server_wf s" and room: "occupied (clients s) < MAX_CLIENTS"
    and ids: "client_data_id s < INT_MAX"
  obtains i c t where "place_client os Q sock s = (Inr (sock, client_data_id s), t)"
    "i < length (clients s)" "clients s ! i = None" "clients t = (clients s)[i := Some c]"
    "cd_personal_id c = client_data_id s" "cd_fd c = sock" "cd_name c = []"
    "cd_init_state c = INITIAL_STATE" "cd_send_queue c = q_new Q"
    "cd_color_id c = sys_random_color os (hist s)"
    "server_wf t" "client_data_id t = client_data_id s + 1" "sv_socket t = sv_socket s"
    "server_done t = server_done s" "hist t = hist s @ [Ev_random (cd_color_id c)]"
proof -
  have len: "length (clients s) = 6" using wf by (simp add: server_wf_def)
  then obtain j where "j < length (clients s)" "clients s ! j = None"
    using room occupied_less_ex_None [of "clients s"] by auto
  then obtain i where i: "find_index (\<lambda>c. c = None) (clients s) = Some i"
    using find_index_SomeI [of j "clients s" "\<lambda>c. c = None"] by auto
  from find_index_SomeD [OF i] have i': "i < length (clients s)" "clients s ! i = None" by auto
  obtain c t where ct: "place_client os Q sock s = (Inr (sock, cd_personal_id c), t)"
    "clients t = (clients s)[i := Some c]" "cd_personal_id c = client_data_id s" "cd_fd c = sock"
    "cd_name c = []" "cd_init_state c = INITIAL_STATE" "cd_send_queue c = q_new Q"
    "cd_color_id c = sys_random_color os (hist s)"
    "nr_of_connections t = wrap_int (nr_of_connections s + 1)"
    "client_data_id t = wrap_int (client_data_id s + 1)" "sv_socket t = sv_socket s"
    "server_done t = server_done s" "hist t = hist s @ [Ev_random (cd_color_id c)]"
    by (simp add: place_client_def i Client_Data_new_def getRandomColorID_def Let_def)
  have nr: "nr_of_connections t = int (occupied (clients t))"
    using wf room i' ct(2,9) by (simp add: server_wf_def occupied_fill wrap_int_id INT_MIN_def INT_MAX_def)
  have cid: "client_data_id t = client_data_id s + 1"
    using wf ids ct(10) by (simp add: server_wf_def wrap_int_id INT_MIN_def INT_MAX_def)
  have "server_wf t"
    using wf ids nr cid ct(2,3) i' ids_unique_fill [of "clients s" i c]
    by (fastforce simp: server_wf_def dest: in_set_update)
  with ct i' cid show thesis by (intro that [of t i c]) simp_all
qed

lemma place_client_wf:
  assumes "server_wf t" "client_data_id t < INT_MAX"
  shows "server_wf (snd (place_client os Q k t))"
proof (cases "occupied (clients t) < MAX_CLIENTS")
  case True
  from place_client_room [OF assms(1) this assms(2)] show ?thesis by (metis snd_conv)
next
  case False
  with assms have "occupied (clients t) = length (clients t)"
    using occupied_le_length [of "clients t"] by (simp add: server_wf_def)
  from place_client_full [OF this] assms show ?thesis by simp
qed

lemma accept_client_wf:
  assumes "server_wf s" "client_data_id s < INT_MAX"
  shows "server_wf (snd (accept_client os Q nb s))"
  using assms by (auto simp: accept_client_def Let_def intro: place_client_wf split: prod.splits)

text \<open>Removing a client.\<close>

lemma disconnect_client_eq:
  assumes wf: "server_wf s" and i: "get_client_ref cid s = Some i" "clients s ! i = Some c"
  defines "t \<equiv> (close_fd (cd_fd c) s)\<lparr>nr_of_connections := nr_of_connections s - 1,
     clients := (clients s)[i := None]\<rparr>"
  shows "disconnect_client cid s = (Inr (), t)" "server_wf t"
proof -
  have len: "i < length (clients s)" using get_client_ref_SomeD [OF i(1)] by simp
  have occ: "Suc (occupied ((clients s)[i := None])) = occupied (clients s)"
    using len i(2) by (rule occupied_free)
  have nr: "wrap_int (nr_of_connections s - 1) = nr_of_connections s - 1"
    using wf occ occupied_le_length [of "clients s"]
    by (intro wrap_int_id) (simp_all add: server_wf_def INT_MIN_def INT_MAX_def)
  show "disconnect_client cid s = (Inr (), t)"
    using i len nr by (simp add: disconnect_client_def get_client_ref_def t_def)
  show "server_wf t"
    using wf occ ids_unique_free [of "clients s" i]
    by (auto simp: server_wf_def t_def dest: in_set_update)
qed

lemma disconnect_client_known:
  assumes wf: "server_wf s" and i: "get_client_ref cid s = Some i" "clients s ! i = Some c"
  obtains t where "disconnect_client cid s = (Inr (), t)" "server_wf t"
    "clients t = (clients s)[i := None]" "hist t = hist s @ [Ev_close (cd_fd c)]"
  using disconnect_client_eq [OF assms] that by simp

lemma disconnect_client_unknown:
  "get_client_ref cid s = None \<Longrightarrow>
   disconnect_client cid s = (Inl (Runtime_error (ln ''Client not found'')), s)"
  by (simp add: disconnect_client_def)

lemma disconnect_client_wf:
  assumes "server_wf s"
  shows "server_wf (snd (disconnect_client cid s))"
proof (cases "get_client_ref cid s")
  case None
  then show ?thesis using assms by (simp add: disconnect_client_unknown)
next
  case (Some i)
  with get_client_ref_SomeD obtain c where "clients s ! i = Some c" by blast
  with disconnect_client_known [OF assms Some this] show ?thesis by (metis snd_conv)
qed

lemma client_of_removed:
  assumes "ids_unique (clients s)" "get_client_ref cid s = Some i" "clients t = (clients s)[i := None]"
  shows "client_of j t = (if j = cid then None else client_of j s)"
proof -
  obtain c where c: "i < length (clients s)" "clients s ! i = Some c" "cd_personal_id c = cid"
    using get_client_ref_SomeD [OF assms(2)] by blast
  have t: "ids_unique (clients t)" using assms(1,3) by (simp add: ids_unique_free)
  have mem: "Some d \<in> set (clients t) \<longleftrightarrow> Some d \<in> set (clients s) \<and> cd_personal_id d \<noteq> cid" for d
  proof
    assume "Some d \<in> set (clients t)"
    then obtain k where "k < length (clients s)" "(clients s)[i := None] ! k = Some d"
      using assms(3) by (auto simp: in_set_conv_nth)
    then have k: "k < length (clients s)" "k \<noteq> i" "clients s ! k = Some d"
      by (cases "k = i"; simp)+
    then have "cd_personal_id d \<noteq> cid"
      using c assms(1) unfolding ids_unique_def by metis
    with k show "Some d \<in> set (clients s) \<and> cd_personal_id d \<noteq> cid"
      by (auto simp: in_set_conv_nth)
  next
    assume "Some d \<in> set (clients s) \<and> cd_personal_id d \<noteq> cid"
    then obtain k where "k < length (clients s)" "clients s ! k = Some d" "cd_personal_id d \<noteq> cid"
      by (auto simp: in_set_conv_nth)
    with c have "k \<noteq> i" by auto
    with \<open>k < length (clients s)\<close> \<open>clients s ! k = Some d\<close> assms(3)
    show "Some d \<in> set (clients t)" by (auto simp: in_set_conv_nth intro!: exI [of _ k])
  qed
  show ?thesis
    by (rule option_eqI)
      (simp add: mem client_of_Some_iff [OF t] client_of_Some_iff [OF assms(1)], blast)
qed

lemma client_of_put:
  assumes "ids_unique (clients s)" "i < length (clients s)" "clients s ! i = Some c"
    "cd_personal_id d = cd_personal_id c"
  shows "client_of j (put_client i d s) =
     (if j = cd_personal_id c then Some d else client_of j s)"
proof -
  let ?t = "put_client i d s"
  have t: "ids_unique (clients ?t)" using assms by (simp add: ids_unique_update_same)
  have mem: "Some e \<in> set (clients ?t) \<longleftrightarrow>
      e = d \<or> (Some e \<in> set (clients s) \<and> cd_personal_id e \<noteq> cd_personal_id c)" for e
  proof
    assume "Some e \<in> set (clients ?t)"
    then obtain k where k: "k < length (clients s)" "(clients s)[i := Some d] ! k = Some e"
      by (auto simp: in_set_conv_nth)
    show "e = d \<or> (Some e \<in> set (clients s) \<and> cd_personal_id e \<noteq> cd_personal_id c)"
    proof (cases "k = i")
      case False
      with k assms(1-3) show ?thesis unfolding ids_unique_def
        by (metis nth_list_update_neq nth_mem)
    qed (use k assms(2) in simp)
  next
    assume "e = d \<or> (Some e \<in> set (clients s) \<and> cd_personal_id e \<noteq> cd_personal_id c)"
    then show "Some e \<in> set (clients ?t)"
    proof
      assume "Some e \<in> set (clients s) \<and> cd_personal_id e \<noteq> cd_personal_id c"
      then obtain k where "k < length (clients s)" "clients s ! k = Some e" "k \<noteq> i"
        using assms(3) by (metis in_set_conv_nth option.inject)
      then show ?thesis by (auto simp: in_set_conv_nth intro!: exI [of _ k])
    qed (use assms(2) in \<open>simp add: set_update_memI\<close>)
  qed
  show ?thesis
    by (rule option_eqI)
      (auto simp: mem client_of_Some_iff [OF t] client_of_Some_iff [OF assms(1)] assms(4)
        simp del: put_server_simps)
qed

subsection \<open>The registry contract\<close>

text \<open>
  What \<^verbatim>\<open>IServer\<close> promises to the thread manager: a lookup by id, the list of the ids that are
  connected, and a removal that takes out exactly one of them. \<open>close_all\<close> is the client's
  side: removing every listed client one after the other.
\<close>

locale client_registry =
  fixes wf :: "'s \<Rightarrow> bool" and ids :: "'s \<Rightarrow> int list" and lookup :: "int \<Rightarrow> 's \<Rightarrow> 'c option"
    and remove :: "int \<Rightarrow> 's \<Rightarrow> ('e, unit, 's) outcome" and count :: "'s \<Rightarrow> int"
  assumes ids_lookup: "wf s \<Longrightarrow> i \<in> set (ids s) \<longleftrightarrow> lookup i s \<noteq> None"
    and ids_distinct: "wf s \<Longrightarrow> distinct (ids s)"
    and count_ids: "wf s \<Longrightarrow> count s = int (length (ids s))"
    and remove_known: "wf s \<Longrightarrow> lookup i s \<noteq> None \<Longrightarrow>
      \<exists>t. remove i s = (Inr (), t) \<and> wf t \<and> (\<forall>j. lookup j t = (if j = i then None else lookup j s))"
begin

lemma ids_removed: "wf s \<Longrightarrow> remove i s = (Inr (), t) \<Longrightarrow> lookup i s \<noteq> None \<Longrightarrow>
    wf t \<and> set (ids t) = set (ids s) - {i} \<and> count t = count s - 1"
proof -
  assume s: "wf s" "remove i s = (Inr (), t)" "lookup i s \<noteq> None"
  with remove_known [OF s(1,3)] have t: "wf t" and l: "\<And>j. lookup j t = (if j = i then None else lookup j s)"
    by auto
  have e: "set (ids t) = set (ids s) - {i}"
    using ids_lookup [OF s(1)] ids_lookup [OF t] by (auto simp: l split: if_splits)
  have "card (set (ids s)) = Suc (card (set (ids t)))"
    using e s ids_lookup by (metis List.finite_set card_Suc_Diff1)
  then have "count t = count s - 1"
    using count_ids s(1) t ids_distinct by (simp add: distinct_card)
  with t e show ?thesis by simp
qed

lemma remove_all_empties:
  assumes "wf s" "distinct ids'" "set ids' \<subseteq> set (ids s)"
  shows "\<exists>t. fold (\<lambda>i r. bindE r (\<lambda>_. remove i)) ids' (Inr (), s) = (Inr (), t) \<and> wf t \<and>
    set (ids t) = set (ids s) - set ids' \<and> count t = count s - int (length ids')"
  using assms
proof (induction ids' arbitrary: s)
  case (Cons i js)
  then have i: "lookup i s \<noteq> None" using ids_lookup by simp
  then obtain t where t: "remove i s = (Inr (), t)" using remove_known Cons.prems(1) by blast
  with ids_removed [OF Cons.prems(1) t i] have
    *: "wf t" "set (ids t) = set (ids s) - {i}" "count t = count s - 1" by auto
  with Cons.prems have "distinct js" "set js \<subseteq> set (ids t)" by auto
  from Cons.IH [OF *(1) this] t * show ?case by auto
qed simp

end

lemma disconnect_client_registry:
  assumes "server_wf s" "client_of i s \<noteq> None"
  shows "\<exists>t. disconnect_client i s = (Inr (), t) \<and> server_wf t \<and>
    (\<forall>j. client_of j t = (if j = i then None else client_of j s))"
proof -
  obtain k where k: "get_client_ref i s = Some k" using assms(2) by (auto simp: client_of_None_iff)
  then obtain c where "clients s ! k = Some c" using get_client_ref_SomeD by blast
  with assms(1) k obtain t where "disconnect_client i s = (Inr (), t)" "server_wf t"
    "clients t = (clients s)[k := None]" by (rule disconnect_client_known)
  moreover have "ids_unique (clients s)" using assms(1) by (simp add: server_wf_def)
  ultimately show ?thesis using client_of_removed [OF _ k] by blast
qed

lemma server_registry:
  "client_registry server_wf get_connected_IDs client_of disconnect_client get_nr_of_connections"
proof
  fix s :: "('q, 'z) server_state_scheme" and i
  assume wf: "server_wf s"
  then have u: "ids_unique (clients s)" by (simp add: server_wf_def)
  show "i \<in> set (get_connected_IDs s) \<longleftrightarrow> client_of i s \<noteq> None"
    by (simp add: connected_IDs_iff client_of_None_iff)
  show "distinct (get_connected_IDs s)" using distinct_connected_IDs [OF u] by simp
  show "get_nr_of_connections s = int (length (get_connected_IDs s))"
    using distinct_connected_IDs [OF u] wf by (simp add: get_nr_of_connections_def server_wf_def)
  show "client_of i s \<noteq> None \<Longrightarrow> \<exists>t. disconnect_client i s = (Inr (), t) \<and> server_wf t \<and>
      (\<forall>j. client_of j t = (if j = i then None else client_of j s))"
    using wf by (rule disconnect_client_registry)
qed

interpretation reg: client_registry server_wf get_connected_IDs client_of disconnect_client
  get_nr_of_connections
  by (rule server_registry)

subsection \<open>Views of the table\<close>

text \<open>What the client table of two states has in common.\<close>

definition same_table :: "('q, 'z) server_state_scheme \<Rightarrow> ('q, 'y) server_state_scheme \<Rightarrow> bool" where
  "same_table s t \<longleftrightarrow> clients t = clients s \<and> nr_of_connections t = nr_of_connections s \<and>
     client_data_id t = client_data_id s"

lemma same_table_refl [simp]: "same_table s s"
  by (simp add: same_table_def)

lemma same_table_trans: "same_table s t \<Longrightarrow> same_table t u \<Longrightarrow> same_table s u"
  by (simp add: same_table_def)

lemma same_table_wf: "same_table s t \<Longrightarrow> server_wf t \<longleftrightarrow> server_wf s"
  by (simp add: same_table_def server_wf_def)

lemma same_table_client_of: "same_table s t \<Longrightarrow> client_of j t = client_of j s"
  by (simp add: same_table_def client_of_def get_client_ref_def split: option.splits)

lemma same_table_ids: "same_table s t \<Longrightarrow> get_connected_IDs t = get_connected_IDs s"
  by (simp add: same_table_def get_connected_IDs_def)

text \<open>What a client is, apart from its queue.\<close>

definition identity :: "int \<Rightarrow> ('q, 'z) server_state_scheme \<Rightarrow> (int \<times> string \<times> int \<times> int) option" where
  "identity cid s = map_option (\<lambda>c. (cd_fd c, cd_name c, cd_color_id c, cd_init_state c)) (client_of cid s)"

subsection \<open>Properties of the client table\<close>

lemma client_of_filled:
  assumes u: "ids_unique (clients t)" and len: "i < length (clients s)" and free: "clients s ! i = None"
    and t: "clients t = (clients s)[i := Some c]" and us: "ids_unique (clients s)"
  shows "client_of j t = (if j = cd_personal_id c then Some c else client_of j s)"
proof -
  have mem: "Some d \<in> set (clients t) \<longleftrightarrow> d = c \<or> Some d \<in> set (clients s)" for d
  proof
    assume "d = c \<or> Some d \<in> set (clients s)"
    then show "Some d \<in> set (clients t)"
    proof
      assume "Some d \<in> set (clients s)"
      then obtain k where "k < length (clients s)" "clients s ! k = Some d"
        by (auto simp: in_set_conv_nth)
      with free have "clients t ! k = Some d" "k < length (clients t)" by (cases "k = i"; simp add: t)+
      then show ?thesis by (metis nth_mem)
    qed (simp add: t len set_update_memI)
  qed (auto simp: t dest: in_set_update)
  have c: "client_of (cd_personal_id c) t = Some c" by (simp add: client_of_Some_iff [OF u] mem)
  show ?thesis
  proof (cases "j = cd_personal_id c")
    case False
    then show ?thesis
      by (intro option_eqI) (auto simp: mem client_of_Some_iff [OF u] client_of_Some_iff [OF us])
  qed (simp add: c)
qed

lemma accept_client_connected:
  assumes "0 \<le> sv_socket s" "sys_accept4 os (hist s) (sv_socket s) = (sock, err)" "0 \<le> sock"
    "\<And>h. 0 \<le> sys_fcntl_getfl os h sock" "\<And>h fl. 0 \<le> sys_fcntl_setfl os h sock fl"
  shows "accept_client os Q True s =
     place_client os Q sock (emit (Ev_setfl sock (sys_fcntl_getfl os (hist s @ [Ev_accept4 sock]) sock OR O_NONBLOCK))
       (emit (Ev_fcntl sock) (emit (Ev_accept4 sock) s)))"
  using assms(1-3) assms(4,5) [THEN leD] by (simp add: accept_client_def Let_def)

text \<open>C22: accepting a connection while a slot is free registers exactly one new client, under an
  id no other client has or had, in the initial state, with an empty name and a new queue, and
  leaves every other client as it was; with all \<open>MAX_CLIENTS\<close> slots taken the connection is
  closed again, the pair (-1, -1) is returned and the table does not change.\<close>

theorem accept_client_outcome:
  fixes Q :: "'q queue_ops" and s :: "('q, 'z) server_state_scheme"
  assumes wf: "server_wf s" and ids: "client_data_id s < INT_MAX" and sv: "0 \<le> sv_socket s"
    and acc: "sys_accept4 os (hist s) (sv_socket s) = (sock, err)" and sock: "0 \<le> sock"
    and fl: "\<And>h. 0 \<le> sys_fcntl_getfl os h sock" "\<And>h f. 0 \<le> sys_fcntl_setfl os h sock f"
  shows "if occupied (clients s) < MAX_CLIENTS
    then \<exists>t c. accept_client os Q True s = (Inr (sock, client_data_id s), t) \<and> server_wf t \<and>
      cd_fd c = sock \<and> cd_name c = [] \<and> cd_init_state c = INITIAL_STATE \<and> cd_send_queue c = q_new Q \<and>
      client_of (client_data_id s) s = None \<and> client_of (client_data_id s) t = Some c \<and>
      (\<forall>j. j \<noteq> client_data_id s \<longrightarrow> client_of j t = client_of j s) \<and>
      nr_of_connections t = nr_of_connections s + 1
    else \<exists>t. accept_client os Q True s = (Inr (- 1, - 1), t) \<and> clients t = clients s \<and>
      nr_of_connections t = nr_of_connections s \<and> last (hist t) = Ev_close sock"
proof (cases "occupied (clients s) < MAX_CLIENTS")
  case True
  let ?s = "emit (Ev_setfl sock (sys_fcntl_getfl os (hist s @ [Ev_accept4 sock]) sock OR O_NONBLOCK))
       (emit (Ev_fcntl sock) (emit (Ev_accept4 sock) s))"
  have "server_wf ?s" "occupied (clients ?s) < MAX_CLIENTS" "client_data_id ?s < INT_MAX"
    using wf True ids by simp_all
  then obtain i c t where t: "place_client os Q sock ?s = (Inr (sock, client_data_id ?s), t)"
    "i < length (clients ?s)" "clients ?s ! i = None" "clients t = (clients ?s)[i := Some c]"
    "cd_personal_id c = client_data_id ?s" "cd_fd c = sock" "cd_name c = []"
    "cd_init_state c = INITIAL_STATE" "cd_send_queue c = q_new Q" "server_wf t"
    by (rule place_client_room [of ?s os Q sock]) blast
  have us: "ids_unique (clients s)" and ut: "ids_unique (clients t)"
    using wf t(10) by (simp_all add: server_wf_def)
  have fresh: "client_of (client_data_id s) s = None"
    using wf by (auto simp: client_of_None_iff get_client_ref_None_iff server_wf_def)
  have "nr_of_connections t = nr_of_connections s + 1"
    using wf t(2-4,10) by (simp add: server_wf_def occupied_fill)
  with True t fresh client_of_filled [OF ut _ _ _ us, of i c] show ?thesis
    by (auto simp: accept_client_connected [OF sv acc sock fl])
next
  case False
  with wf occupied_le_length [of "clients s"] have full: "occupied (clients s) = length (clients s)"
    by (simp add: server_wf_def)
  from False show ?thesis
    by (simp add: accept_client_connected [OF sv acc sock fl] place_client_full full)
qed

definition table_client :: "'q queue_ops \<Rightarrow> int \<Rightarrow> 'q client_data" where
  "table_client Q i = \<lparr>cd_personal_id = i, cd_fd = 10 + i, cd_name = ''n'', cd_color_id = 2,
     cd_color = [], cd_init_state = INIT_DONE_STATE, cd_send_queue = q_new Q\<rparr>"

definition table_with :: "'q queue_ops \<Rightarrow> int list \<Rightarrow> 'q server_state" where
  "table_with Q ids = (server_start [])\<lparr>sv_socket := 3, nr_of_connections := int (length ids),
     clients := map (\<lambda>i. Some (table_client Q i)) ids @ replicate (MAX_CLIENTS - length ids) None,
     client_data_id := 20\<rparr>"

lemma table_with_wf:
  assumes "distinct ids" "length ids \<le> 6" "\<And>i. i \<in> set ids \<Longrightarrow> 0 \<le> i \<and> i < 20"
  shows "server_wf (table_with Q ids)"
proof -
  have occ: "occupied (clients (table_with Q ids)) = length ids"
    by (simp add: table_with_def occupied_def)
  have "ids_unique (clients (table_with Q ids))"
    unfolding ids_unique_def
  proof (intro allI impI)
    fix i j a b
    assume "clients (table_with Q ids) ! i = Some a" "clients (table_with Q ids) ! j = Some b"
      "cd_personal_id a = cd_personal_id b" "i < length (clients (table_with Q ids))"
      "j < length (clients (table_with Q ids))"
    with assms show "i = j"
      by (auto simp: table_with_def table_client_def nth_append nth_eq_iff_index_eq split: if_splits)
  qed
  with occ assms show ?thesis
    by (auto simp: server_wf_def table_with_def table_client_def INT_MAX_def)
qed

lemma table_with_client:
  assumes "distinct ids" "length ids \<le> 6" "\<And>i. i \<in> set ids \<Longrightarrow> 0 \<le> i \<and> i < 20"
  shows "client_of j (table_with Q ids) = (if j \<in> set ids then Some (table_client Q j) else None)"
proof -
  have "ids_unique (clients (table_with Q ids))" using table_with_wf [OF assms, of Q] by (simp add: server_wf_def)
  from client_of_Some_iff [OF this] show ?thesis
    by (intro option_eqI) (auto simp: table_with_def table_client_def)
qed

lemma table_with_two_wf: "server_wf (table_with Q [4, 7])"
  by (rule table_with_wf) auto

lemma table_with_two_client:
  "client_of j (table_with Q [4, 7]) = (if j = 4 \<or> j = 7 then Some (table_client Q j) else None)"
  by (subst table_with_client) auto

definition list_queue :: "string list queue_ops" where
  "list_queue = \<lparr>q_new = [], q_try_push = (\<lambda>x q. Some (length q < 128, if length q < 128 then q @ [x] else q)),
     q_try_pop = (\<lambda>q. Some (case q of [] \<Rightarrow> (None, []) | x # r \<Rightarrow> (Some x, r)))\<rparr>"

theorem accept_client_outcome_witness:
  "\<exists>t. accept_client quiet_os list_queue True (table_with list_queue [4, 7]) = (Inr (10, 20), t) \<and>
     server_wf t \<and> client_of 7 t = client_of 7 (table_with list_queue [4, 7]) \<and> nr_of_connections t = 3"
proof -
  have "client_data_id (table_with list_queue [4, 7]) = 20" "sv_socket (table_with list_queue [4, 7]) = 3"
    "hist (table_with list_queue [4, 7]) = []" "occupied (clients (table_with list_queue [4, 7])) = 2"
    "nr_of_connections (table_with list_queue [4, 7]) = 2"
    by (simp_all add: table_with_def server_start_def occupied_def)
  moreover have "sys_accept4 quiet_os [] 3 = (10, EAGAIN)" "\<And>h. sys_fcntl_getfl quiet_os h 10 = 0"
    "\<And>h f. sys_fcntl_setfl quiet_os h 10 f = 0"
    by (simp_all add: quiet_os_def)
  ultimately show ?thesis
    using accept_client_outcome [where s = "table_with list_queue [4, 7]" and Q = list_queue
        and os = quiet_os and sock = 10 and err = EAGAIN, OF table_with_two_wf]
    by (auto simp: INT_MAX_def)
qed

text \<open>C23: disconnecting a client that is in the table closes its descriptor, frees its slot and
  leaves every other client untouched; an id that is not in the table is an error that changes
  nothing. Either way the table stays well formed.\<close>

theorem disconnect_removes_exactly_one:
  assumes "server_wf s"
  shows "case client_of cid s of
      None \<Rightarrow> disconnect_client cid s = (Inl (Runtime_error (ln ''Client not found'')), s)
    | Some c \<Rightarrow> \<exists>t. disconnect_client cid s = (Inr (), t) \<and> server_wf t \<and>
        (\<forall>j. client_of j t = (if j = cid then None else client_of j s)) \<and>
        get_nr_of_connections t = get_nr_of_connections s - 1 \<and> hist t = hist s @ [Ev_close (cd_fd c)]"
proof (cases "client_of cid s")
  case None
  then show ?thesis using client_of_None_iff [of cid s] by (simp add: disconnect_client_unknown)
next
  case (Some c)
  then obtain i where i: "get_client_ref cid s = Some i" "clients s ! i = Some c"
    by (auto simp: client_of_def split: option.splits)
  obtain t where t: "disconnect_client cid s = (Inr (), t)" "hist t = hist s @ [Ev_close (cd_fd c)]"
    using disconnect_client_known [OF assms i] by metis
  from reg.remove_known [OF assms, of cid] reg.ids_removed [OF assms t(1)] t Some show ?thesis
    by auto
qed

theorem disconnect_removes_exactly_one_witness:
  "\<exists>t. disconnect_client 4 (table_with list_queue [4, 7]) = (Inr (), t) \<and>
     client_of 7 t = client_of 7 (table_with list_queue [4, 7]) \<and> hist t = [Ev_close 14]"
proof -
  have c: "client_of 4 (table_with list_queue [4, 7]) = Some (table_client list_queue 4)"
    by (simp add: table_with_two_client)
  have h: "hist (table_with list_queue [4, 7]) = []" by (simp add: table_with_def server_start_def)
  show ?thesis
    using disconnect_removes_exactly_one [where s = "table_with list_queue [4, 7]" and cid = 4,
        OF table_with_two_wf]
    by (auto simp: c h table_client_def)
qed

text \<open>Disconnecting the connected ids one after the other succeeds every time and leaves an
  empty table with the counter at zero.\<close>

theorem disconnect_all_empties_table:
  assumes "server_wf s"
  shows "\<exists>t. fold (\<lambda>i r. bindE r (\<lambda>_. disconnect_client i)) (get_connected_IDs s) (Inr (), s) = (Inr (), t)
     \<and> server_wf t \<and> get_connected_IDs t = [] \<and> get_nr_of_connections t = 0"
  using reg.remove_all_empties [OF assms reg.ids_distinct [OF assms] subset_refl]
    reg.count_ids [OF assms] by auto

theorem disconnect_all_empties_table_witness:
  "\<exists>t. fold (\<lambda>i r. bindE r (\<lambda>_. disconnect_client i)) [4, 7] (Inr (), table_with list_queue [4, 7])
     = (Inr (), t) \<and> get_connected_IDs t = [] \<and> get_nr_of_connections t = 0"
proof -
  have "get_connected_IDs (table_with list_queue [4, 7]) = [4, 7]"
    by (simp add: get_connected_IDs_def table_with_def table_client_def List.map_filter_simps server_start_def
        numeral_eq_Suc)
  with disconnect_all_empties_table [where s = "table_with list_queue [4, 7]", OF table_with_two_wf]
  show ?thesis by auto
qed

end
