(* ===== verification/Worker_Pool.thy ===== *)
theory Worker_Pool
  imports Server_Queue Server_Table
begin

text \<open>
  The pool of worker threads: choosing a worker for a new client, and taking a client off a
  worker. The abstract view of the pool is its load, the number of clients of each slot.
\<close>

subsection \<open>Fields the manager's steps leave alone\<close>

lemma emit_manager_simps [simp]:
  "worker_threads (emit e s) = worker_threads s"
  "nr_of_launched_threads (emit e s) = nr_of_launched_threads s"
  "max_clients_per_thread (emit e s) = max_clients_per_thread s"
  "q_worker_to_listener (emit e s) = q_worker_to_listener s"
  "q_listener_to_worker (emit e s) = q_listener_to_worker s"
  by (simp_all add: emit_def)

lemma print_manager_simps [simp]:
  "worker_threads (emit_print x s) = worker_threads s"
  "nr_of_launched_threads (emit_print x s) = nr_of_launched_threads s"
  "max_clients_per_thread (emit_print x s) = max_clients_per_thread s"
  "q_worker_to_listener (emit_print x s) = q_worker_to_listener s"
  "q_listener_to_worker (emit_print x s) = q_listener_to_worker s"
  by (simp_all add: emit_print_def)

lemma close_manager_simps [simp]:
  "worker_threads (close_fd x s) = worker_threads s"
  "nr_of_launched_threads (close_fd x s) = nr_of_launched_threads s"
  "max_clients_per_thread (close_fd x s) = max_clients_per_thread s"
  "q_worker_to_listener (close_fd x s) = q_worker_to_listener s"
  "q_listener_to_worker (close_fd x s) = q_listener_to_worker s"
  by (simp_all add: close_fd_def)

lemma put_manager_simps [simp]:
  "worker_threads (put_client i c s) = worker_threads s"
  "nr_of_launched_threads (put_client i c s) = nr_of_launched_threads s"
  "max_clients_per_thread (put_client i c s) = max_clients_per_thread s"
  "q_worker_to_listener (put_client i c s) = q_worker_to_listener s"
  "q_listener_to_worker (put_client i c s) = q_listener_to_worker s"
  by (simp_all add: put_client_def)

lemma set_worker_simps [simp]:
  "worker_threads (set_worker i w s) = (worker_threads s)[nat i := w]"
  "nr_of_launched_threads (set_worker i w s) = nr_of_launched_threads s"
  "max_clients_per_thread (set_worker i w s) = max_clients_per_thread s"
  "q_worker_to_listener (set_worker i w s) = q_worker_to_listener s"
  "q_listener_to_worker (set_worker i w s) = q_listener_to_worker s"
  "clients (set_worker i w s) = clients s" "hist (set_worker i w s) = hist s"
  "server_done (set_worker i w s) = server_done s" "sv_socket (set_worker i w s) = sv_socket s"
  "nr_of_connections (set_worker i w s) = nr_of_connections s"
  "client_data_id (set_worker i w s) = client_data_id s"
  by (simp_all add: set_worker_def)

lemma put_client_clients [simp]: "(put_client i c s)\<lparr>clients := cs\<rparr> = s\<lparr>clients := cs\<rparr>"
  by (simp add: put_client_def)

subsection \<open>The least and the most loaded worker\<close>

text \<open>Slot \<open>k\<close> is the first running worker with the least count \<open>m\<close>.\<close>

definition first_least :: "worker_arr \<Rightarrow> int \<Rightarrow> nat \<Rightarrow> bool" where
  "first_least es m k \<longleftrightarrow> k < length es \<and> (\<exists>e. es ! k = Some (m, e)) \<and>
     (\<forall>n e. Some (n, e) \<in> set es \<longrightarrow> m \<le> n) \<and>
     (\<forall>j n e. j < k \<longrightarrow> es ! j = Some (n, e) \<longrightarrow> m < n)"

lemma first_least_Cons:
  assumes "first_least es m k" "\<And>n e. x = Some (n, e) \<Longrightarrow> m < n"
  shows "first_least (x # es) m (Suc k)"
proof -
  have "\<forall>j n e. j < Suc k \<longrightarrow> (x # es) ! j = Some (n, e) \<longrightarrow> m < n"
    using assms by (auto simp: first_least_def less_Suc_eq_0_disj)
  with assms show ?thesis by (auto simp: first_least_def less_imp_le)
qed

lemma first_least_here: "\<forall>l f. Some (l, f) \<in> set es \<longrightarrow> n \<le> l \<Longrightarrow> first_least (Some (n, e) # es) n 0"
  by (auto simp: first_least_def)

lemma min_scan_spec:
  "min_scan es m idx mi = (m', mi') \<Longrightarrow>
   m' = m \<and> mi' = mi \<and> (\<forall>l f. Some (l, f) \<in> set es \<longrightarrow> m \<le> l) \<or>
   (\<exists>k. first_least es m' k \<and> mi' = idx + int k \<and> m' < m)"
proof (induction es m idx mi arbitrary: m' mi' rule: min_scan.induct)
  case (2 es m idx mi)
  then have "m' = m \<and> mi' = mi \<and> (\<forall>l f. Some (l, f) \<in> set es \<longrightarrow> m \<le> l) \<or>
    (\<exists>k. first_least es m' k \<and> mi' = idx + 1 + int k \<and> m' < m)" by simp
  then show ?case using first_least_Cons [of es m' _ None] by force
next
  case (3 n evfd es m idx mi)
  show ?case
  proof (cases "n < m")
    case True
    with 3 have "m' = n \<and> mi' = idx \<and> (\<forall>l f. Some (l, f) \<in> set es \<longrightarrow> n \<le> l) \<or>
      (\<exists>k. first_least es m' k \<and> mi' = idx + 1 + int k \<and> m' < n)" by simp
    then show ?thesis
    proof (elim disjE conjE exE)
      fix k
      assume "first_least es m' k" "mi' = idx + 1 + int k" "m' < n"
      with True show ?thesis
        using first_least_Cons [of es m' k "Some (n, evfd)"] by (intro disjI2 exI [of _ "Suc k"]) simp
    qed (use True first_least_here [of es n evfd] in \<open>intro disjI2 exI [of _ 0], simp\<close>)
  next
    case False
    with 3 have "m' = m \<and> mi' = mi \<and> (\<forall>l f. Some (l, f) \<in> set es \<longrightarrow> m \<le> l) \<or>
      (\<exists>k. first_least es m' k \<and> mi' = idx + 1 + int k \<and> m' < m)" by simp
    then show ?thesis using False first_least_Cons [of es m' _ "Some (n, evfd)"] by force
  qed
qed simp

text \<open>The scan for the largest count is the scan for the least of the negated counts.\<close>

definition negate_counts :: "worker_arr \<Rightarrow> worker_arr" where
  "negate_counts = map (map_option (\<lambda>(n, e). (- n, e)))"

lemma max_scan_negate:
  "max_scan es m idx mi = (let (a, b) = min_scan (negate_counts es) (- m) idx mi in (- a, b))"
  by (induction es m idx mi rule: max_scan.induct) (auto simp: negate_counts_def)

lemma in_negate_counts: "Some (n, e) \<in> set es \<Longrightarrow> Some (- n, e) \<in> set (negate_counts es)"
  by (force simp: negate_counts_def)

lemma get_max_value:
  assumes "get_max_and_idx es = (m, i)"
  shows "0 \<le> m" "\<And>n e. Some (n, e) \<in> set es \<Longrightarrow> n \<le> m" "m = 0 \<or> (\<exists>e. Some (m, e) \<in> set es)"
proof -
  obtain a where a: "min_scan (negate_counts es) 0 0 (- 1) = (a, i)" "m = - a"
    using assms by (auto simp: get_max_and_idx_def max_scan_negate split: prod.splits)
  from min_scan_spec [OF a(1)] show "0 \<le> m" using a(2) by auto
  have low: "a \<le> n" if "Some (n, e) \<in> set (negate_counts es)" for n e
    using min_scan_spec [OF a(1)] that by (auto simp: first_least_def)
  show "n \<le> m" if "Some (n, e) \<in> set es" for n e
    using low [OF in_negate_counts, OF that] a(2) by simp
  show "m = 0 \<or> (\<exists>e. Some (m, e) \<in> set es)"
  proof (cases "a = 0")
    case False
    with min_scan_spec [OF a(1)] obtain k e where "k < length es" "negate_counts es ! k = Some (a, e)"
      by (auto simp: first_least_def negate_counts_def)
    then have "es ! k = Some (m, e)" using a(2) by (auto simp: negate_counts_def)
    with \<open>k < length es\<close> show ?thesis by (metis nth_mem)
  qed (simp add: a(2))
qed

lemma get_min_cases:
  assumes "get_min_and_idx es = (m, i)" "\<And>n e. Some (n, e) \<in> set es \<Longrightarrow> n < INT_MAX"
  shows "if is_worker_arr_empty es then m = INT_MAX \<and> i = - 1 else 0 \<le> i \<and> first_least es m (nat i)"
proof (cases "is_worker_arr_empty es")
  case True
  then have "\<not> first_least es m k" for k
    by (auto simp: is_worker_arr_empty_def find_index_None first_least_def)
  with min_scan_spec [OF assms(1) [unfolded get_min_and_idx_def]] True show ?thesis by auto
next
  case False
  then obtain n e where "Some (n, e) \<in> set es" by (auto simp: is_worker_arr_empty_def find_index_None)
  with assms(2) [of n e] min_scan_spec [OF assms(1) [unfolded get_min_and_idx_def]] False
  show ?thesis by auto
qed

subsection \<open>The pool\<close>

definition load :: "('q, 'z) manager_state_scheme \<Rightarrow> int list" where
  "load s = map (\<lambda>w. case w of None \<Rightarrow> 0 | Some (n, e) \<Rightarrow> n) (worker_threads s)"

text \<open>
  The pool's invariant: the number of launched threads is the number of occupied slots, every
  running worker has a client and a descriptor, and the cap on clients per thread is at most
  \<open>MAX_CLIENTS_PER_THREAD\<close>. A worker has at most as many clients as the cap says, except
  after the pool was empty, when the cap restarts at zero and lags behind by one.
\<close>

definition within_cap :: "worker_arr \<Rightarrow> int \<Rightarrow> bool" where
  "within_cap ws m \<longleftrightarrow> (\<forall>n e. Some (n, e) \<in> set ws \<longrightarrow> n \<le> m) \<or>
     m = 0 \<and> (\<forall>n e. Some (n, e) \<in> set ws \<longrightarrow> n = 1) \<or>
     m = 1 \<and> (\<exists>e f. ws = [Some (2, e), Some (1, f)])"

definition pool_wf :: "('q, 'z) manager_state_scheme \<Rightarrow> bool" where
  "pool_wf s \<longleftrightarrow> length (worker_threads s) = MAX_NR_OF_THREADS \<and>
     nr_of_launched_threads s = int (occupied (worker_threads s)) \<and>
     (\<forall>n e. Some (n, e) \<in> set (worker_threads s) \<longrightarrow> 1 \<le> n \<and> 0 \<le> e) \<and>
     0 \<le> max_clients_per_thread s \<and> max_clients_per_thread s \<le> int MAX_CLIENTS_PER_THREAD \<and>
     within_cap (worker_threads s) (max_clients_per_thread s)"

text \<open>No free slot before an occupied one.\<close>

definition packed :: "('q, 'z) manager_state_scheme \<Rightarrow> bool" where
  "packed s \<longleftrightarrow> (worker_threads s ! 0 = None \<longrightarrow> worker_threads s ! 1 = None)"

lemma two_slots:
  assumes "pool_wf s"
  obtains a b where "worker_threads s = [a, b]"
  using assms by (auto simp: pool_wf_def length_Suc_conv numeral_2_eq_2)

lemma pool_wf_cong:
  assumes "worker_threads t = worker_threads s" "nr_of_launched_threads t = nr_of_launched_threads s"
    "max_clients_per_thread t = max_clients_per_thread s"
  shows "pool_wf t \<longleftrightarrow> pool_wf s"
  using assms by (simp add: pool_wf_def)

lemma pool_start: "pool_wf (manager_start Q h)" "packed (manager_start Q h)"
  by (simp_all add: pool_wf_def packed_def manager_start_def server_state.extend_def server_start_def
      manager_state.fields_def within_cap_def numeral_2_eq_2)

lemma pool_load_bound:
  assumes "pool_wf s" "n \<in> set (load s)"
  shows "0 \<le> n \<and> n \<le> int MAX_CLIENTS_PER_THREAD"
proof -
  from assms(2) consider "n = 0" | e where "Some (n, e) \<in> set (worker_threads s)"
    by (auto simp: load_def split: option.splits)
  then show ?thesis
  proof cases
    case 2
    with assms(1) show ?thesis by (fastforce simp: pool_wf_def within_cap_def)
  qed simp
qed

lemma write_one_ok:
  assumes "evfd_spec os" "0 \<le> fd"
  shows "write_one os fd err s = (Inr (), emit (Ev_write_evfd fd event_size) s)"
  using assms by (simp add: write_one_def call_write_evfd_def evfd_spec_def)

subsection \<open>A new client\<close>

context server_queue
begin

text \<open>A client handed to a running worker: a message for it, and a wake-up.\<close>

lemma add_to_worker_outcome:
  assumes w: "0 \<le> i" "nat i < length (worker_threads s)" "worker_threads s ! nat i = Some (n, evfd)" "0 \<le> evfd"
    and os: "evfd_spec os" and q: "inv (q_listener_to_worker s)" "length (items (q_listener_to_worker s)) < QUEUE_SIZE"
  shows "\<exists>q. add_to_worker os Q i sock cid s = (Inr (), emit (Ev_write_evfd evfd event_size)
      ((set_worker i (Some (n + 1, evfd)) s)\<lparr>q_listener_to_worker := q\<rparr>)) \<and> inv q \<and>
      items q = items (q_listener_to_worker s) @ [get_concatenated_msg (accept_message i sock cid)]"
proof -
  obtain q where "queue_push Q (get_concatenated_msg (accept_message i sock cid)) (q_listener_to_worker s)
      = Inr (True, q)" "inv q" "items q = items (q_listener_to_worker s) @ [get_concatenated_msg (accept_message i sock cid)]"
    using q(2) by (cases rule: push_cases [OF q(1), of "get_concatenated_msg (accept_message i sock cid)"]) auto
  with w show ?thesis
    by (intro exI [of _ q])
      (simp add: add_to_worker_def worker_val_def worker_at_def assign_client_to_worker_def write_one_ok [OF os])
qed

end

text \<open>A client that gets a new worker, in a free slot.\<close>

lemma emplace_outcome:
  assumes "nr_of_launched_threads s = i" "0 \<le> i" "nat i < length (worker_threads s)"
    "worker_threads s ! nat i = None" "0 \<le> sys_eventfd os (hist s)"
  defines "e \<equiv> sys_eventfd os (hist s)"
  shows "emplace_new_worker os sock cid i levfd s = (Inr (),
     (set_worker i (Some (1, e)) (emit (Ev_spawn_worker sock cid i e levfd) (emit (Ev_eventfd e) s)))
       \<lparr>nr_of_launched_threads := i + 1\<rparr>)"
  using assms by (simp add: emplace_new_worker_def get_evfd_def worker_at_def worker_val_def Let_def)
    (simp add: set_worker_def emit_def)

text \<open>The decision \<open>process_new_client\<close> takes in a pool without gaps.\<close>

lemma min_of_two:
  "n < INT_MAX \<Longrightarrow> k < INT_MAX \<Longrightarrow>
   get_min_and_idx [Some (n, e), Some (k, f)] = (if n \<le> k then (n, 0) else (k, 1))"
  by (simp add: get_min_and_idx_def)

lemma placement_two:
  assumes ws: "worker_threads s = [Some (n, e), Some (k, f)]" and pool: "pool_wf s"
  obtains (refuse) "n = 3" "k = 3" "process_new_client os Q sock cid levfd s =
      (Inl (Server_full (ln ''Server full, all threads are occupied!'')), s\<lparr>max_clients_per_thread := 4\<rparr>)"
  | (assign) i l g m where "i < 2" "worker_threads s ! i = Some (l, g)" "0 \<le> m" "m \<le> 3" "l \<le> n" "l \<le> k"
      "within_cap ((worker_threads s)[i := Some (l + 1, g)]) m"
      "process_new_client os Q sock cid levfd s =
        add_to_worker os Q (int i) sock cid (s\<lparr>max_clients_per_thread := m\<rparr>)"
proof -
  let ?m = "max_clients_per_thread s"
  have nr: "nr_of_launched_threads s = 2" and m: "0 \<le> ?m" "?m \<le> 3"
    using pool ws by (auto simp: pool_wf_def)
  have cap: "n \<le> ?m \<and> k \<le> ?m \<or> ?m = 0 \<and> n = 1 \<and> k = 1 \<or> ?m = 1 \<and> n = 2 \<and> k = 1"
    using pool ws by (auto simp: pool_wf_def within_cap_def)
  define i where "i = (if n \<le> k then 0 else 1 :: nat)"
  define l where "l = min n k"
  define g where "g = (if n \<le> k then e else f)"
  have i: "get_min_and_idx (worker_threads s) = (l, int i)" "i < 2" "worker_threads s ! i = Some (l, g)"
    using min_of_two [of n k e f] cap m by (auto simp: ws i_def l_def g_def INT_MAX_def)
  have up: "(worker_threads s)[i := Some (l + 1, g)] =
      (if n \<le> k then [Some (n + 1, e), Some (k, f)] else [Some (n, e), Some (k + 1, f)])"
    by (simp add: ws i_def l_def g_def)
  have new: "process_new_client os Q sock cid levfd s =
      (if l < ?m then add_to_worker os Q (int i) sock cid s
       else if ?m = 3 then (Inl (Server_full (ln ''Server full, all threads are occupied!'')),
         s\<lparr>max_clients_per_thread := 4\<rparr>)
       else add_to_worker os Q (int i) sock cid (s\<lparr>max_clients_per_thread := ?m + 1\<rparr>))"
    using i(1,2) nr m by (auto simp: process_new_client_def as_unsigned_def)
  consider "l < ?m" | "\<not> l < ?m" "?m = 3" | "\<not> l < ?m" "?m \<noteq> 3" by blast
  then show thesis
  proof cases
    case 1
    then have "within_cap ((worker_threads s)[i := Some (l + 1, g)]) ?m"
      using cap unfolding up by (auto simp: within_cap_def l_def)
    with 1 i(2,3) m new show thesis by (intro assign [of i l g ?m]) (auto simp: l_def)
  next
    case 2
    with cap new show thesis by (intro refuse) (auto simp: l_def)
  next
    case 3
    then have "within_cap ((worker_threads s)[i := Some (l + 1, g)]) (?m + 1)"
      using cap unfolding up by (auto simp: within_cap_def l_def)
    with 3 i(2,3) m new show thesis by (intro assign [of i l g "?m + 1"]) (auto simp: l_def)
  qed
qed

lemma placement_choice:
  assumes pool: "pool_wf s" "packed s"
  obtains (refuse) "load s = [3, 3]" "process_new_client os Q sock cid levfd s =
      (Inl (Server_full (ln ''Server full, all threads are occupied!'')), s\<lparr>max_clients_per_thread := 4\<rparr>)"
  | (assign) i n e m where "i < 2" "worker_threads s ! i = Some (n, e)" "0 \<le> m" "m \<le> 3"
      "\<forall>l f. Some (l, f) \<in> set (worker_threads s) \<longrightarrow> n \<le> l"
      "within_cap ((worker_threads s)[i := Some (n + 1, e)]) m"
      "process_new_client os Q sock cid levfd s =
        add_to_worker os Q (int i) sock cid (s\<lparr>max_clients_per_thread := m\<rparr>)"
  | (launch) i where "i < 2" "worker_threads s ! i = None" "nr_of_launched_threads s = int i"
      "i = 0 \<or> worker_threads s ! 0 \<noteq> None"
      "\<And>e. within_cap ((worker_threads s)[i := Some (1, e)]) (max_clients_per_thread s)"
      "process_new_client os Q sock cid levfd s = emplace_new_worker os sock cid (int i) levfd s"
proof -
  let ?m = "max_clients_per_thread s"
  have same: "s\<lparr>max_clients_per_thread := ?m\<rparr> = s" by simp
  obtain a b where ab: "worker_threads s = [a, b]" using two_slots [OF pool(1)] .
  note wf = pool(1) [unfolded pool_wf_def ab within_cap_def, simplified]
  consider "a = None" "b = None" | n e where "a = Some (n, e)" "b = None"
    | n e k f where "a = Some (n, e)" "b = Some (k, f)"
    using pool(2) ab by (cases a; cases b) (auto simp: packed_def)
  then show thesis
  proof cases
    case 1
    with wf ab show thesis by (intro launch [of 0]) (auto simp: process_new_client_def within_cap_def)
  next
    case (2 n e)
    have min: "get_min_and_idx [Some (n, e), None] = (n, 0)"
      using wf 2 by (auto simp: get_min_and_idx_def INT_MAX_def)
    show thesis
    proof (cases "n < ?m")
      case True
      with min wf 2 ab same show thesis
        by (intro assign [of 0 n e ?m]) (auto simp: process_new_client_def within_cap_def)
    next
      case False
      with min wf 2 ab show thesis
        by (intro launch [of 1]) (auto simp: process_new_client_def within_cap_def as_unsigned_def)
    qed
  next
    case (3 n e k f)
    with ab have ws: "worker_threads s = [Some (n, e), Some (k, f)]" by simp
    show thesis
    proof (cases rule: placement_two [OF ws pool(1), of os Q sock cid levfd])
      case 1
      with ws refuse show thesis by (simp add: load_def)
    next
      case (2 i l g m)
      with ws assign [of i l g m] show thesis by auto
    qed
  qed
qed

text \<open>What the slot's occupant learns of its new client: at its start, or by a message.\<close>

definition handed_over ::
  "('q \<Rightarrow> string list) \<Rightarrow> nat \<Rightarrow> int \<Rightarrow> int \<Rightarrow> int \<Rightarrow> ('q, 'z) manager_state_scheme \<Rightarrow>
   ('q, 'y) manager_state_scheme \<Rightarrow> bool" where
  "handed_over items i sock cid levfd s t \<longleftrightarrow>
     (case worker_threads s ! i of
        None \<Rightarrow> (\<exists>e. hist t = hist s @ [Ev_eventfd e, Ev_spawn_worker sock cid (int i) e levfd] \<and>
                  worker_threads t ! i = Some (1, e)) \<and>
                items (q_listener_to_worker t) = items (q_listener_to_worker s)
      | Some (n, e) \<Rightarrow>
          items (q_listener_to_worker t) = items (q_listener_to_worker s)
            @ [get_concatenated_msg (accept_message (int i) sock cid)] \<and>
          evfd_count (hist t) e = Suc (evfd_count (hist s) e))"

lemma load_update:
  "i < length (worker_threads s) \<Longrightarrow> worker_threads t = (worker_threads s)[i := Some (n, e)] \<Longrightarrow>
   load t = (load s)[i := n]"
  by (simp add: load_def map_update)

lemma load_nth: "i < length (worker_threads s) \<Longrightarrow>
   load s ! i = (case worker_threads s ! i of None \<Rightarrow> 0 | Some (n, e) \<Rightarrow> n)"
  by (simp add: load_def)

lemma pool_wf_update:
  assumes s: "pool_wf s" and i: "i < 2" and t: "worker_threads t = (worker_threads s)[i := Some (n, e)]"
    and n: "1 \<le> n" "0 \<le> e" and m: "0 \<le> max_clients_per_thread t" "max_clients_per_thread t \<le> 3"
    "within_cap (worker_threads t) (max_clients_per_thread t)"
    and nr: "nr_of_launched_threads t = nr_of_launched_threads s + (if worker_threads s ! i = None then 1 else 0)"
  shows "pool_wf t"
proof -
  have len: "i < length (worker_threads s)" using s i by (simp add: pool_wf_def)
  have "int (occupied (worker_threads t)) = int (occupied (worker_threads s)) + (if worker_threads s ! i = None then 1 else 0)"
    using len occupied_fill [OF len, of "(n, e)"] occupied_replace [OF len, of _ "(n, e)"]
    by (auto simp: t)
  with s n m nr t show ?thesis by (auto simp: pool_wf_def dest: in_set_update)
qed

text \<open>The client was given to worker \<open>i\<close>, a least loaded one of those running or a new one.\<close>

definition placed_at ::
  "('q \<Rightarrow> string list) \<Rightarrow> nat \<Rightarrow> int \<Rightarrow> int \<Rightarrow> int \<Rightarrow> ('q, 'z) manager_state_scheme \<Rightarrow>
   ('q, 'z) manager_state_scheme \<Rightarrow> bool" where
  "placed_at items i sock cid levfd s t \<longleftrightarrow> i < MAX_NR_OF_THREADS \<and>
     load t = (load s)[i := load s ! i + 1] \<and>
     (\<forall>k < MAX_NR_OF_THREADS. worker_threads s ! k \<noteq> None \<longrightarrow> load s ! i \<le> load s ! k) \<and>
     handed_over items i sock cid levfd s t \<and>
     q_worker_to_listener t = q_worker_to_listener s \<and> same_table s t"

lemma launch_placed:
  assumes pool: "pool_wf s" and i: "i < 2" "worker_threads s ! i = None" "nr_of_launched_threads s = int i"
    "i = 0 \<or> worker_threads s ! 0 \<noteq> None"
    "\<And>e. within_cap ((worker_threads s)[i := Some (1, e)]) (max_clients_per_thread s)"
    and os: "0 \<le> sys_eventfd os (hist s)"
  shows "\<exists>t. emplace_new_worker os sock cid (int i) levfd s = (Inr (), t) \<and> pool_wf t \<and> packed t \<and>
    placed_at items i sock cid levfd s t \<and> q_listener_to_worker t = q_listener_to_worker s \<and> load s ! i = 0"
proof -
  let ?e = "sys_eventfd os (hist s)"
  have len: "length (worker_threads s) = 2" using pool by (simp add: pool_wf_def)
  have p: "0 \<le> int i" "nat (int i) < length (worker_threads s)" "worker_threads s ! nat (int i) = None"
    using i(1,2) len by simp_all
  define t where "t = (set_worker (int i) (Some (1, ?e)) (emit (Ev_spawn_worker sock cid (int i) ?e levfd)
      (emit (Ev_eventfd ?e) s)))\<lparr>nr_of_launched_threads := int i + 1\<rparr>"
  have t: "emplace_new_worker os sock cid (int i) levfd s = (Inr (), t)"
    using emplace_outcome [OF i(3) p os] by (simp add: t_def)
  have ws: "worker_threads t = (worker_threads s)[i := Some (1, ?e)]" by (simp add: t_def)
  have wf: "pool_wf t"
    by (rule pool_wf_update [OF pool i(1) ws]) (use i os pool in \<open>simp_all add: t_def pool_wf_def\<close>)
  have i0: "load s ! i = 0" using i(1,2) len by (simp add: load_nth)
  have "load s ! i \<le> load s ! k" if "k < 2" for k
    using i0 pool_load_bound [OF pool, of "load s ! k"] that len by (simp add: load_def)
  moreover have "handed_over items i sock cid levfd s t"
    using i(1,2) len by (simp add: handed_over_def t_def)
  moreover have "load t = (load s)[i := 1]" using load_update [OF _ ws] i(1) len by simp
  ultimately have "placed_at items i sock cid levfd s t"
    using i(1) i0 by (simp add: placed_at_def t_def same_table_def)
  moreover have "packed t"
    using i(1,4) len by (auto simp: packed_def ws less_2_cases_iff nth_list_update)
  ultimately show ?thesis using t wf i0 by (auto simp: t_def)
qed

context server_queue
begin

lemma assign_placed:
  assumes pool: "pool_wf s" "packed s" and i: "i < 2" "worker_threads s ! i = Some (n, e)" "0 \<le> m" "m \<le> 3"
    "\<forall>l f. Some (l, f) \<in> set (worker_threads s) \<longrightarrow> n \<le> l"
    "within_cap ((worker_threads s)[i := Some (n + 1, e)]) m"
    and os: "evfd_spec os"
    and q: "inv (q_listener_to_worker s)" "length (items (q_listener_to_worker s)) < QUEUE_SIZE"
  shows "\<exists>t. add_to_worker os Q (int i) sock cid (s\<lparr>max_clients_per_thread := m\<rparr>) = (Inr (), t) \<and>
    pool_wf t \<and> packed t \<and> placed_at items i sock cid levfd s t \<and> inv (q_listener_to_worker t) \<and>
    load s ! i < 3"
proof -
  let ?s = "s\<lparr>max_clients_per_thread := m\<rparr>"
  have len: "length (worker_threads s) = 2" using pool(1) by (simp add: pool_wf_def)
  have e: "1 \<le> n" "0 \<le> e" using pool(1) i(1,2) len by (metis nth_mem pool_wf_def)+
  have w: "0 \<le> int i" "nat (int i) < length (worker_threads ?s)" "worker_threads ?s ! nat (int i) = Some (n, e)"
    "inv (q_listener_to_worker ?s)" "length (items (q_listener_to_worker ?s)) < QUEUE_SIZE"
    using i(1,2) len q by simp_all
  obtain q' where q': "add_to_worker os Q (int i) sock cid ?s = (Inr (), emit (Ev_write_evfd e event_size)
      ((set_worker (int i) (Some (n + 1, e)) ?s)\<lparr>q_listener_to_worker := q'\<rparr>))" "inv q'"
    "items q' = items (q_listener_to_worker s) @ [get_concatenated_msg (accept_message (int i) sock cid)]"
    using add_to_worker_outcome [OF w(1-3) e(2) os w(4,5), of sock cid] by auto
  define t where "t = emit (Ev_write_evfd e event_size)
      ((set_worker (int i) (Some (n + 1, e)) ?s)\<lparr>q_listener_to_worker := q'\<rparr>)"
  have ws: "worker_threads t = (worker_threads s)[i := Some (n + 1, e)]" by (simp add: t_def)
  have wf: "pool_wf t"
    by (rule pool_wf_update [OF pool(1) i(1) ws]) (use i e in \<open>simp_all add: t_def\<close>)
  have n: "load s ! i = n" using i(1,2) len by (simp add: load_nth)
  have load_t: "load t = (load s)[i := n + 1]" using load_update [OF _ ws] i(1) len by simp
  then have "n + 1 \<in> set (load t)" using i(1) len by (simp add: load_def set_update_memI)
  with pool_load_bound [OF wf] have "n < 3" by fastforce
  moreover have "load s ! i \<le> load s ! k" if k: "k < 2" "worker_threads s ! k \<noteq> None" for k
  proof -
    obtain a b where "worker_threads s ! k = Some (a, b)" using k(2) by auto
    with i(5) n k(1) len nth_mem [of k "worker_threads s"] show ?thesis by (fastforce simp: load_nth)
  qed
  moreover have "handed_over items i sock cid levfd s t"
    using i(2) q'(3) by (simp add: handed_over_def t_def)
  moreover have "packed t" using pool(2) i(1,2) len by (auto simp: packed_def ws less_2_cases_iff)
  ultimately show ?thesis
    using q'(1,2) wf load_t n i(1) by (auto simp: placed_at_def t_def same_table_def)
qed

lemma process_new_client_outcome:
  assumes pool: "pool_wf s" "packed s" and os: "evfd_spec os" "0 \<le> sys_eventfd os (hist s)"
    and q: "inv (q_listener_to_worker s)" "length (items (q_listener_to_worker s)) < QUEUE_SIZE"
  shows "if load s = [3, 3]
    then process_new_client os Q sock cid levfd s =
      (Inl (Server_full (ln ''Server full, all threads are occupied!'')), s\<lparr>max_clients_per_thread := 4\<rparr>)
    else \<exists>t i. process_new_client os Q sock cid levfd s = (Inr (), t) \<and> pool_wf t \<and> packed t \<and>
      placed_at items i sock cid levfd s t \<and> inv (q_listener_to_worker t)"
proof (cases rule: placement_choice [OF pool, of os Q sock cid levfd])
  case 1
  then show ?thesis by simp
next
  case (2 i n e m)
  from assign_placed [OF pool 2(1-6) os(1) q, of sock cid levfd] 2(1,7) show ?thesis
    by (auto simp: less_2_cases_iff)
next
  case (3 i)
  from launch_placed [OF pool(1) 3(1-5) os(2), of sock cid levfd items] 3(1,6) q(1) show ?thesis
    by (auto simp: less_2_cases_iff)
qed

end

subsection \<open>A client leaves its worker\<close>

lemma within_cap_max: "get_max_and_idx ws = (m, i) \<Longrightarrow> within_cap ws m"
  using get_max_value(2) [of ws m i] by (auto simp: within_cap_def)

lemma worker_client_disconnect_running:
  assumes pool: "pool_wf s" and i: "i < 2" "worker_threads s ! i = Some (n, e)"
  shows "\<exists>t. worker_client_disconnect (int i) s = (Inr (), t) \<and> pool_wf t \<and>
    worker_threads t = (worker_threads s)[i := if n = 1 then None else Some (n - 1, e)] \<and>
    (Ev_join_worker i \<in> set (drop (length (hist s)) (hist t)) \<longleftrightarrow> n = 1) \<and>
    same_table s t \<and> q_worker_to_listener t = q_worker_to_listener s \<and>
    q_listener_to_worker t = q_listener_to_worker s"
proof -
  have len: "i < length (worker_threads s)" using pool i(1) by (simp add: pool_wf_def)
  have n: "1 \<le> n" "n \<le> 3" "0 \<le> e"
    using pool i(2) nth_mem [OF len] pool_load_bound [OF pool, of n]
    by (force simp: pool_wf_def load_def)+
  define ws where "ws = (worker_threads s)[i := if n = 1 then None else Some (n - 1, e)]"
  obtain m k where mk: "get_max_and_idx ws = (m, k)" by (cases "get_max_and_idx ws")
  define u where "u = (if n = 1 then (set_worker (int i) None (emit (Ev_join_worker i) s))
      \<lparr>nr_of_launched_threads := nr_of_launched_threads s - 1\<rparr>
      else set_worker (int i) (Some (n - 1, e)) s)"
  define t where "t = emit_print (Cout (ln (''New max clients per thr: '' @ to_string m)))
      (u\<lparr>max_clients_per_thread := m\<rparr>)"
  have u: "worker_threads u = ws" by (simp add: u_def ws_def)
  have run: "worker_client_disconnect (int i) s = (Inr (), t)"
    using len i n mk by (cases "n = 1")
      (simp_all add: worker_client_disconnect_def worker_at_def t_def u_def ws_def)
  have mem: "Some w \<in> set ws \<Longrightarrow> w = (n - 1, e) \<and> n \<noteq> 1 \<or> Some w \<in> set (worker_threads s)" for w
    by (auto simp: ws_def dest: in_set_update split: if_splits)
  have occ: "int (occupied ws) = int (occupied (worker_threads s)) - (if n = 1 then 1 else 0)"
    using occupied_free [OF len i(2)] occupied_replace [OF len i(2)] by (auto simp: ws_def)
  have "0 \<le> m \<and> m \<le> 3"
    using get_max_value(1,3) [OF mk] mem n pool_load_bound [OF pool]
    by (force simp: load_def)
  moreover have "1 \<le> l \<and> 0 \<le> f" if "Some (l, f) \<in> set ws" for l f
    using mem [OF that] pool n by (auto simp: pool_wf_def)
  ultimately have "pool_wf t"
    using pool occ within_cap_max [OF mk] u by (auto simp: pool_wf_def t_def u_def ws_def)
  then show ?thesis using run u by (auto simp: t_def u_def ws_def same_table_def)
qed

subsection \<open>Properties of the worker pool\<close>

text \<open>
  What every pool satisfies, with or without a gap, whatever the cap has become, and also after a
  worker's record has been overwritten: then the number of launched threads is one more than that
  of the occupied slots, and the first slot is free.
\<close>

definition pool_ok :: "('q, 'z) manager_state_scheme \<Rightarrow> bool" where
  "pool_ok s \<longleftrightarrow> length (worker_threads s) = MAX_NR_OF_THREADS \<and>
     (nr_of_launched_threads s = int (occupied (worker_threads s)) \<or>
      worker_threads s ! 0 = None \<and> nr_of_launched_threads s = int (occupied (worker_threads s)) + 1) \<and>
     (\<forall>n e. Some (n, e) \<in> set (worker_threads s) \<longrightarrow> 1 \<le> n \<and> 0 \<le> e) \<and> 0 \<le> max_clients_per_thread s"

text \<open>No count is at the end of \<^verbatim>\<open>int\<close>.\<close>

definition small_counts :: "('q, 'z) manager_state_scheme \<Rightarrow> bool" where
  "small_counts s \<longleftrightarrow> max_clients_per_thread s < INT_MAX \<and>
     (\<forall>n e. Some (n, e) \<in> set (worker_threads s) \<longrightarrow> n < INT_MAX)"

text \<open>Two workers count as launched and each that runs is at a cap of three or more: the server is
  full.\<close>

definition all_busy :: "('q, 'z) manager_state_scheme \<Rightarrow> bool" where
  "all_busy s \<longleftrightarrow> nr_of_launched_threads s = int MAX_NR_OF_THREADS \<and>
     int MAX_CLIENTS_PER_THREAD \<le> max_clients_per_thread s \<and>
     (\<forall>n e. Some (n, e) \<in> set (worker_threads s) \<longrightarrow> max_clients_per_thread s \<le> n)"

text \<open>The first worker is gone, one is counted, and the second is at the cap.\<close>

definition gap_at_cap :: "('q, 'z) manager_state_scheme \<Rightarrow> bool" where
  "gap_at_cap s \<longleftrightarrow> nr_of_launched_threads s = 1 \<and> worker_threads s ! 0 = None \<and>
     (case worker_threads s ! 1 of None \<Rightarrow> False | Some (n, e) \<Rightarrow> max_clients_per_thread s \<le> n)"

text \<open>No worker runs, but one is counted.\<close>

definition count_astray :: "('q, 'z) manager_state_scheme \<Rightarrow> bool" where
  "count_astray s \<longleftrightarrow> nr_of_launched_threads s = 1 \<and> worker_threads s = [None, None]"

lemma pool_ok_start: "pool_ok (manager_start Q h)"
  using pool_start(1) [of Q h] by (auto simp: pool_ok_def pool_wf_def)

lemma pool_wf_ok:
  assumes "pool_wf s"
  shows "pool_ok s" "small_counts s"
proof -
  show "pool_ok s" using assms by (auto simp: pool_wf_def pool_ok_def)
  have "n < INT_MAX" if "Some (n, e) \<in> set (worker_threads s)" for n e
  proof -
    have "n \<in> set (load s)" using that by (force simp: load_def)
    with pool_load_bound [OF assms this] show ?thesis by (simp add: INT_MAX_def)
  qed
  then show "small_counts s" using assms by (auto simp: pool_wf_def small_counts_def INT_MAX_def)
qed

lemma pool_ok_cap: "pool_ok s \<Longrightarrow> 0 \<le> m \<Longrightarrow> pool_ok (s\<lparr>max_clients_per_thread := m\<rparr>)"
  by (simp add: pool_ok_def)

lemma pool_ok_assigned:
  assumes "pool_ok s" "i < 2" "worker_threads s ! i = Some (n, e)"
    "worker_threads t = (worker_threads s)[i := Some (n + 1, e)]"
    "nr_of_launched_threads t = nr_of_launched_threads s" "0 \<le> max_clients_per_thread t"
  shows "pool_ok t"
proof -
  obtain a b where "worker_threads s = [a, b]"
    using assms(1) by (auto simp: pool_ok_def length_Suc_conv numeral_2_eq_2)
  with assms show ?thesis by (auto simp: pool_ok_def less_2_cases_iff all_conj_distrib split: if_splits)
qed

lemma pool_ok_launched:
  assumes "pool_ok s" "i < 2" "worker_threads s ! i = None" "0 \<le> e"
    "nr_of_launched_threads s = int (occupied (worker_threads s))"
    "worker_threads t = (worker_threads s)[i := Some (1, e)]"
    "nr_of_launched_threads t = nr_of_launched_threads s + 1"
    "max_clients_per_thread t = max_clients_per_thread s"
  shows "pool_ok t"
proof -
  obtain a b where "worker_threads s = [a, b]"
    using assms(1) by (auto simp: pool_ok_def length_Suc_conv numeral_2_eq_2)
  with assms show ?thesis by (auto simp: pool_ok_def less_2_cases_iff split: if_splits)
qed

context server_queue
begin

lemma assigned_at:
  assumes pool: "pool_ok s" "0 \<le> m" and i: "i < 2" "worker_threads s ! i = Some (n, e)" "0 \<le> e"
    and least: "\<forall>l f. Some (l, f) \<in> set (worker_threads s) \<longrightarrow> n \<le> l" and os: "evfd_spec os"
    and q: "inv (q_listener_to_worker s)" "length (items (q_listener_to_worker s)) < QUEUE_SIZE"
  shows "\<exists>t. add_to_worker os Q (int i) sock cid (s\<lparr>max_clients_per_thread := m\<rparr>) = (Inr (), t) \<and>
    placed_at items i sock cid levfd s t \<and> inv (q_listener_to_worker t) \<and> pool_ok t"
proof -
  let ?s = "s\<lparr>max_clients_per_thread := m\<rparr>"
  have len: "length (worker_threads s) = 2" using pool(1) by (simp add: pool_ok_def)
  obtain q' where q': "add_to_worker os Q (int i) sock cid ?s = (Inr (), emit (Ev_write_evfd e event_size)
      ((set_worker (int i) (Some (n + 1, e)) ?s)\<lparr>q_listener_to_worker := q'\<rparr>))" "inv q'"
    "items q' = items (q_listener_to_worker s) @ [get_concatenated_msg (accept_message (int i) sock cid)]"
    using add_to_worker_outcome [of "int i" ?s n e os sock cid] i len os q by auto
  define t where "t = emit (Ev_write_evfd e event_size)
      ((set_worker (int i) (Some (n + 1, e)) ?s)\<lparr>q_listener_to_worker := q'\<rparr>)"
  have ws: "worker_threads t = (worker_threads s)[i := Some (n + 1, e)]" by (simp add: t_def)
  have n: "load s ! i = n" using i(1,2) len by (simp add: load_nth)
  have "load t = (load s)[i := n + 1]" using load_update [OF _ ws] i(1) len by simp
  moreover have "load s ! i \<le> load s ! k" if k: "k < 2" "worker_threads s ! k \<noteq> None" for k
  proof -
    obtain a b where "worker_threads s ! k = Some (a, b)" using k(2) by auto
    with least n k(1) len nth_mem [of k "worker_threads s"] show ?thesis by (fastforce simp: load_nth)
  qed
  moreover have "handed_over items i sock cid levfd s t" using i(2) q'(3) by (simp add: handed_over_def t_def)
  moreover have "pool_ok t" using pool_ok_assigned [OF pool(1) i(1,2) ws] pool(2) by (simp add: t_def)
  ultimately show ?thesis
    using q'(1,2) n i(1) by (auto simp: placed_at_def t_def same_table_def)
qed

lemma launched_at:
  assumes pool: "pool_ok s" and i: "i < 2" "worker_threads s ! i = None" "nr_of_launched_threads s = int i"
      "nr_of_launched_threads s = int (occupied (worker_threads s))"
    and os: "0 \<le> sys_eventfd os (hist s)" and q: "inv (q_listener_to_worker s)"
  shows "\<exists>t. emplace_new_worker os sock cid (int i) levfd s = (Inr (), t) \<and>
    placed_at items i sock cid levfd s t \<and> inv (q_listener_to_worker t) \<and> pool_ok t"
proof -
  have len: "length (worker_threads s) = 2"
    and pos: "\<forall>l f. Some (l, f) \<in> set (worker_threads s) \<longrightarrow> 1 \<le> l" using pool by (auto simp: pool_ok_def)
  let ?e = "sys_eventfd os (hist s)"
  define t where "t = (set_worker (int i) (Some (1, ?e)) (emit (Ev_spawn_worker sock cid (int i) ?e levfd)
      (emit (Ev_eventfd ?e) s)))\<lparr>nr_of_launched_threads := int i + 1\<rparr>"
  have t: "emplace_new_worker os sock cid (int i) levfd s = (Inr (), t)"
    using emplace_outcome [OF i(3) _ _ _ os] i(1,2) len by (simp add: t_def)
  have ws: "worker_threads t = (worker_threads s)[i := Some (1, ?e)]" by (simp add: t_def)
  have i0: "load s ! i = 0" using i(1,2) len by (simp add: load_nth)
  have "load s ! i \<le> load s ! k" if "k < 2" for k
  proof (cases "worker_threads s ! k")
    case (Some w)
    obtain l f where "w = (l, f)" by (cases w)
    with Some pos that len nth_mem [of k "worker_threads s"] have "1 \<le> l" by auto
    with Some i0 that len \<open>w = (l, f)\<close> show ?thesis by (simp add: load_nth)
  qed (use i0 that len in \<open>simp add: load_nth\<close>)
  moreover have "load t = (load s)[i := 1]" using load_update [OF _ ws] i(1) len by simp
  ultimately have "placed_at items i sock cid levfd s t"
    using i(1,2) i0 len by (simp add: placed_at_def t_def same_table_def handed_over_def)
  moreover have "pool_ok t" using pool_ok_launched [OF pool i(1,2) os i(4) ws] i(3) by (simp add: t_def)
  ultimately show ?thesis using t q by (auto simp: t_def)
qed

text \<open>Two running workers: the decision is that of the smaller count.\<close>

lemma new_client_two:
  assumes pool: "pool_ok s" "worker_threads s = [Some (n, e), Some (k, f)]" "small_counts s" and os: "evfd_spec os"
    and q: "inv (q_listener_to_worker s)" "length (items (q_listener_to_worker s)) < QUEUE_SIZE"
  shows "if all_busy s
    then process_new_client os Q sock cid levfd s = (Inl (Server_full (ln ''Server full, all threads are occupied!'')),
        s\<lparr>max_clients_per_thread := max_clients_per_thread s + 1\<rparr>)
    else \<exists>t i. process_new_client os Q sock cid levfd s = (Inr (), t) \<and>
      placed_at items i sock cid levfd s t \<and> inv (q_listener_to_worker t) \<and> pool_ok t"
proof -
  let ?m = "max_clients_per_thread s"
  define i where "i = (if n \<le> k then 0 else 1 :: nat)"
  define l where "l = min n k"
  define g where "g = (if n \<le> k then e else f)"
  have nr: "nr_of_launched_threads s = 2" and m: "0 \<le> ?m" "?m < INT_MAX" "0 \<le> g"
    using pool by (auto simp: pool_ok_def small_counts_def g_def)
  have i: "get_min_and_idx (worker_threads s) = (l, int i)" "i < 2" "worker_threads s ! i = Some (l, g)"
    using min_of_two [of n k e f] pool by (auto simp: small_counts_def i_def l_def g_def)
  have least: "\<forall>a b. Some (a, b) \<in> set (worker_threads s) \<longrightarrow> l \<le> a" using pool(2) by (auto simp: l_def)
  have new: "process_new_client os Q sock cid levfd s =
      (if l < ?m then add_to_worker os Q (int i) sock cid (s\<lparr>max_clients_per_thread := ?m\<rparr>)
       else if 3 \<le> ?m then (Inl (Server_full (ln ''Server full, all threads are occupied!'')),
         s\<lparr>max_clients_per_thread := ?m + 1\<rparr>)
       else add_to_worker os Q (int i) sock cid (s\<lparr>max_clients_per_thread := ?m + 1\<rparr>))"
    using i(1,2) nr m by (auto simp: process_new_client_def as_unsigned_def INT_MAX_def)
  have busy: "all_busy s \<longleftrightarrow> 3 \<le> ?m \<and> \<not> l < ?m" using pool(2) nr by (auto simp: all_busy_def l_def all_conj_distrib)
  show ?thesis
    using assigned_at [OF pool(1) m(1) i(2,3) m(3) least os q, of sock cid levfd]
      assigned_at [OF pool(1) _ i(2,3) m(3) least os q, of "?m + 1" sock cid levfd] new busy m(1) by (auto split: if_splits)
qed

text \<open>Only the second worker runs.\<close>

lemma new_client_second:
  assumes pool: "pool_ok s" "worker_threads s = [None, Some (n, e)]" "small_counts s"
    and os: "evfd_spec os" "0 \<le> sys_eventfd os (hist s)"
    and q: "inv (q_listener_to_worker s)" "length (items (q_listener_to_worker s)) < QUEUE_SIZE"
  shows "if all_busy s
    then process_new_client os Q sock cid levfd s = (Inl (Server_full (ln ''Server full, all threads are occupied!'')),
        s\<lparr>max_clients_per_thread := max_clients_per_thread s + 1\<rparr>)
    else if gap_at_cap s
    then \<exists>t. process_new_client os Q sock cid levfd s = (Inr (), t) \<and> Ev_join_worker 1 \<in> set (hist t) \<and>
      worker_threads t = [None, Some (1, sys_eventfd os (hist s))] \<and> nr_of_launched_threads t = 2 \<and> pool_ok t
    else \<exists>t i. process_new_client os Q sock cid levfd s = (Inr (), t) \<and>
      placed_at items i sock cid levfd s t \<and> inv (q_listener_to_worker t) \<and> pool_ok t"
proof -
  let ?m = "max_clients_per_thread s"
  have wf: "1 \<le> n" "0 \<le> e" "n < INT_MAX" "0 \<le> ?m" "?m < INT_MAX"
    and nr: "nr_of_launched_threads s = 1 \<or> nr_of_launched_threads s = 2"
    using pool by (auto simp: pool_ok_def small_counts_def)
  have min: "get_min_and_idx (worker_threads s) = (n, 1)" using wf pool(2) by (simp add: get_min_and_idx_def)
  have same: "s\<lparr>max_clients_per_thread := ?m\<rparr> = s" by simp
  note at = assigned_at [OF pool(1), of _ 1 n e os sock cid levfd]
  show ?thesis
  proof (cases "n < ?m")
    case True
    with at [of ?m] wf nr pool(2) os q min same show ?thesis
      by (auto simp: all_busy_def gap_at_cap_def process_new_client_def)
  next
    case False
    show ?thesis
    proof (cases "nr_of_launched_threads s = 1")
      case True
      with False wf pool(2) os min show ?thesis
        by (auto simp: all_busy_def gap_at_cap_def process_new_client_def as_unsigned_def emplace_new_worker_def
            get_evfd_def worker_at_def worker_val_def Let_def pool_ok_def)
    next
      case nr1: False
      with False nr at [of "?m + 1"] wf pool(2) os q min show ?thesis
        by (auto simp: all_busy_def gap_at_cap_def process_new_client_def as_unsigned_def INT_MAX_def)
    qed
  qed
qed

lemma new_client_cases:
  assumes pool: "pool_ok s" "small_counts s" and os: "evfd_spec os" "0 \<le> sys_eventfd os (hist s)"
    and q: "inv (q_listener_to_worker s)" "length (items (q_listener_to_worker s)) < QUEUE_SIZE"
  shows "if count_astray s
    then fst (process_new_client os Q sock cid levfd s) = Inl (Undefined_behaviour ''access to an empty worker slot'')
    else if all_busy s
    then process_new_client os Q sock cid levfd s = (Inl (Server_full (ln ''Server full, all threads are occupied!'')),
        s\<lparr>max_clients_per_thread := max_clients_per_thread s + 1\<rparr>)
    else if gap_at_cap s
    then \<exists>t. process_new_client os Q sock cid levfd s = (Inr (), t) \<and> Ev_join_worker 1 \<in> set (hist t) \<and>
      worker_threads t = [None, Some (1, sys_eventfd os (hist s))] \<and> nr_of_launched_threads t = 2 \<and> pool_ok t
    else \<exists>t i. process_new_client os Q sock cid levfd s = (Inr (), t) \<and>
      placed_at items i sock cid levfd s t \<and> inv (q_listener_to_worker t) \<and> pool_ok t"
proof -
  let ?m = "max_clients_per_thread s"
  obtain a b where ab: "worker_threads s = [a, b]"
    using pool by (auto simp: pool_ok_def length_Suc_conv numeral_2_eq_2)
  note wf = pool [unfolded pool_ok_def small_counts_def ab, simplified]
  consider "a = None" "b = None" | n e where "a = Some (n, e)" "b = None"
    | n e where "a = None" "b = Some (n, e)" | n e k f where "a = Some (n, e)" "b = Some (k, f)"
    by (cases a; cases b) auto
  then show ?thesis
  proof cases
    case 1
    show ?thesis
    proof (cases "nr_of_launched_threads s = 0")
      case True
      with 1 launched_at [OF pool(1), of 0 os sock cid levfd] ab os q show ?thesis
        by (auto simp: count_astray_def all_busy_def gap_at_cap_def process_new_client_def)
    next
      case False
      with 1 wf ab os show ?thesis
        by (auto simp: count_astray_def process_new_client_def get_min_and_idx_def emplace_new_worker_def
            get_evfd_def worker_at_def worker_val_def Let_def)
    qed
  next
    case (2 n e)
    have min: "get_min_and_idx [Some (n, e), None] = (n, 0)" using wf 2 by (auto simp: get_min_and_idx_def)
    have same: "s\<lparr>max_clients_per_thread := ?m\<rparr> = s" by simp
    show ?thesis
    proof (cases "n < ?m")
      case True
      with assigned_at [OF pool(1), of ?m 0 n e os sock cid levfd] wf ab 2 os q min same show ?thesis
        by (auto simp: count_astray_def all_busy_def gap_at_cap_def process_new_client_def)
    next
      case False
      with launched_at [OF pool(1), of 1 os sock cid levfd] wf ab 2 os q min show ?thesis
        by (auto simp: count_astray_def all_busy_def gap_at_cap_def process_new_client_def as_unsigned_def)
    qed
  next
    case (3 n e)
    with ab have "worker_threads s = [None, Some (n, e)]" by simp
    with new_client_second [OF pool(1) this pool(2) os q, of sock cid levfd] show ?thesis
      by (simp only: count_astray_def list.inject option.distinct simp_thms if_False)
  next
    case (4 n e k f)
    with ab have ws: "worker_threads s = [Some (n, e), Some (k, f)]" by simp
    then have "\<not> gap_at_cap s" "\<not> count_astray s" by (simp_all add: gap_at_cap_def count_astray_def)
    with new_client_two [OF pool(1) ws pool(2) os(1) q, of sock cid levfd] show ?thesis by (simp only: if_False)
  qed
qed

end

text \<open>A disconnect keeps these facts, too, so they hold after any sequence of arrivals and
  departures that has not run into the undefined case.\<close>

lemma pool_ok_disconnect: "pool_ok s \<Longrightarrow> pool_ok (snd (worker_client_disconnect i s))"
proof -
  assume pool: "pool_ok s"
  then obtain a b where ab: "worker_threads s = [a, b]" by (auto simp: pool_ok_def length_Suc_conv numeral_2_eq_2)
  consider "i < 0 \<or> 2 \<le> i" | "i = 0" | "i = 1" by linarith
  then show ?thesis
  proof cases
    case 1
    with pool ab show ?thesis by (auto simp: worker_client_disconnect_def worker_at_def)
  next
    case 2
    with pool ab show ?thesis
      by (cases a; cases b)
        (auto simp: worker_client_disconnect_def worker_at_def Let_def pool_ok_def get_max_and_idx_def set_worker_def split: if_splits)
  next
    case 3
    with pool ab show ?thesis
      by (cases a; cases b)
        (auto simp: worker_client_disconnect_def worker_at_def Let_def pool_ok_def get_max_and_idx_def set_worker_def split: if_splits)
  qed
qed

text \<open>C10: where a new client goes, in every state of the pool. When one worker is counted but
  none runs, the call dereferences an empty slot. When two workers are counted, the cap has reached
  three and every running worker is at it, the call throws and leaves the cap one higher. When one
  worker is counted, the first is gone and the second is at the cap, the second worker's record is
  overwritten by the new one. In every other state the client goes to a least loaded running worker
  or to a new one in a free slot: exactly one count grows by one and the worker learns of the
  client, at its start or by a queued message and a wake-up. Every call but the undefined one leads
  to such a state of the pool again. In a pool without gaps whose counts agree and whose cap is at
  most three the call throws exactly when both workers have three clients, is never undefined and
  never overwrites a worker, and leads to such a pool again.\<close>

theorem new_client_goes_to_least_loaded:
  fixes s :: "(string state_cells queue_common, 'z) manager_state_scheme"
  assumes "pool_ok s" and "small_counts s" and "evfd_spec os" and "0 \<le> sys_eventfd os (hist s)"
    and "string_queue_inv (q_listener_to_worker s)"
    and "length (string_queue_items (q_listener_to_worker s)) < QUEUE_SIZE"
  shows "(if count_astray s
    then fst (process_new_client os (string_queue_ops mv) sock cid levfd s) =
      Inl (Undefined_behaviour ''access to an empty worker slot'')
    else if all_busy s
    then process_new_client os (string_queue_ops mv) sock cid levfd s =
      (Inl (Server_full (ln ''Server full, all threads are occupied!'')), s\<lparr>max_clients_per_thread := max_clients_per_thread s + 1\<rparr>)
    else if gap_at_cap s
    then \<exists>t. process_new_client os (string_queue_ops mv) sock cid levfd s = (Inr (), t) \<and> Ev_join_worker 1 \<in> set (hist t) \<and>
      worker_threads t = [None, Some (1, sys_eventfd os (hist s))] \<and> nr_of_launched_threads t = 2 \<and> pool_ok t
    else \<exists>t i. process_new_client os (string_queue_ops mv) sock cid levfd s = (Inr (), t) \<and>
      placed_at string_queue_items i sock cid levfd s t \<and> string_queue_inv (q_listener_to_worker t) \<and> pool_ok t) \<and>
   (pool_wf s \<and> packed s \<longrightarrow> \<not> count_astray s \<and> \<not> gap_at_cap s \<and> (all_busy s \<longleftrightarrow> load s = [3, 3]) \<and>
     (\<forall>t. process_new_client os (string_queue_ops mv) sock cid levfd s = (Inr (), t) \<longrightarrow> pool_wf t \<and> packed t))"
proof
  let ?r = "process_new_client os (string_queue_ops mv) sock cid levfd s"
  note cases = srv.new_client_cases [OF assms, of mv sock cid levfd]
  have gap: "\<not> gap_at_cap s" if "packed s" using that by (auto simp: gap_at_cap_def packed_def split: option.splits)
  have astray: "\<not> count_astray s" if "pool_wf s" using that by (auto simp: count_astray_def pool_wf_def)
  have "(all_busy s \<longleftrightarrow> load s = [3, 3]) \<and> (\<forall>t. ?r = (Inr (), t) \<longrightarrow> pool_wf t \<and> packed t)" if wf: "pool_wf s" "packed s"
  proof (cases "load s = [3, 3]")
    case True
    with srv.process_new_client_outcome [OF wf assms(3-6), of mv sock cid levfd] have "fst ?r \<noteq> Inr ()" by simp
    moreover from this cases gap [OF wf(2)] astray [OF wf(1)] have "all_busy s" by (metis fst_conv)
    ultimately show ?thesis using True by auto
  next
    case False
    with srv.process_new_client_outcome [OF wf assms(3-6), of mv sock cid levfd] obtain t where
      t: "?r = (Inr (), t)" "pool_wf t" "packed t" by auto
    with cases astray [OF wf(1)] have "\<not> all_busy s" by (metis Inl_Inr_False fst_conv)
    with t False show ?thesis by simp
  qed
  with gap astray show "pool_wf s \<and> packed s \<longrightarrow> \<not> count_astray s \<and> \<not> gap_at_cap s \<and> (all_busy s \<longleftrightarrow> load s = [3, 3]) \<and>
     (\<forall>t. ?r = (Inr (), t) \<longrightarrow> pool_wf t \<and> packed t)" by blast
qed (rule srv.new_client_cases [OF assms])

lemma manager_start_simps [simp]:
  "worker_threads (manager_start Q h) = [None, None]" "hist (manager_start Q h) = h"
  "q_listener_to_worker (manager_start Q h) = q_new Q" "q_worker_to_listener (manager_start Q h) = q_new Q"
  "max_clients_per_thread (manager_start Q h) = 1" "nr_of_launched_threads (manager_start Q h) = 0"
  "clients (manager_start Q h) = replicate MAX_CLIENTS None" "sv_socket (manager_start Q h) = - 1"
  "nr_of_connections (manager_start Q h) = 0" "client_data_id (manager_start Q h) = 0"
  "server_done (manager_start Q h) = False"
  by (simp_all add: manager_start_def server_state.extend_def server_start_def manager_state.fields_def
      numeral_2_eq_2)

theorem new_client_goes_to_least_loaded_witness:
  "\<exists>t i. process_new_client quiet_os (string_queue_ops (\<lambda>s. s)) 10 0 5
      (manager_start (string_queue_ops (\<lambda>s. s)) []) = (Inr (), t) \<and> pool_wf t \<and> packed t \<and>
    placed_at string_queue_items i 10 0 5 (manager_start (string_queue_ops (\<lambda>s. s)) []) t"
proof -
  let ?s = "manager_start (string_queue_ops (\<lambda>s. s)) []"
  let ?r = "process_new_client quiet_os (string_queue_ops (\<lambda>s. s)) 10 0 5 ?s"
  have s: "\<not> count_astray ?s" "\<not> all_busy ?s" "\<not> gap_at_cap ?s" "string_queue_inv (q_listener_to_worker ?s)"
    "length (string_queue_items (q_listener_to_worker ?s)) < QUEUE_SIZE" "0 \<le> sys_eventfd quiet_os (hist ?s)"
    by (simp_all add: count_astray_def all_busy_def gap_at_cap_def INT_MAX_def new_string_queue_inv new_string_queue_items quiet_os_def)
  note ok = pool_wf_ok [OF pool_start(1), of "string_queue_ops (\<lambda>s. s)" "[]"]
  note main = new_client_goes_to_least_loaded [OF ok quiet_os_specs(2) s(6,4,5),
      of "\<lambda>s. s" 10 0 5]
  from main [THEN conjunct1, simplified s(1-3) if_False] obtain t i where
    t: "?r = (Inr (), t)" "placed_at string_queue_items i 10 0 5 ?s t" by blast
  moreover from main [THEN conjunct2] pool_start t(1) have "pool_wf t \<and> packed t" by blast
  ultimately show ?thesis by blast
qed

text \<open>Taking a client off a worker lowers that worker's count by one and no other, ends and
  joins the thread exactly when it was the last client, sets the cap to the largest remaining
  count and keeps the pool's invariant; a slot without a thread is an error that changes
  nothing.\<close>

theorem client_leaves_worker:
  assumes "pool_wf s" and "i < MAX_NR_OF_THREADS"
  shows "case worker_threads s ! i of
      None \<Rightarrow> worker_client_disconnect (int i) s =
        (Inl (Thread_managing (ln ''Can't disconnect from a thread that isn't running'')), s)
    | Some (n, e) \<Rightarrow> \<exists>t. worker_client_disconnect (int i) s = (Inr (), t) \<and> pool_wf t \<and>
        worker_threads t = (worker_threads s)[i := if n = 1 then None else Some (n - 1, e)] \<and>
        (Ev_join_worker i \<in> set (drop (length (hist s)) (hist t)) \<longleftrightarrow> n = 1) \<and> same_table s t"
proof (cases "worker_threads s ! i")
  case None
  with assms show ?thesis
    by (simp add: worker_client_disconnect_def worker_at_def pool_wf_def)
next
  case (Some w)
  with worker_client_disconnect_running [OF assms(1), of i] assms(2) show ?thesis
    by (cases w) fastforce
qed

definition two_workers :: "int \<Rightarrow> int \<Rightarrow> string state_cells queue_common manager_state" where
  "two_workers n k = (manager_start (string_queue_ops (\<lambda>s. s)) [])
     \<lparr>worker_threads := [Some (n, 7), Some (k, 8)], nr_of_launched_threads := 2,
      max_clients_per_thread := max n k\<rparr>"

lemma two_workers_wf: "1 \<le> n \<Longrightarrow> n \<le> 3 \<Longrightarrow> 1 \<le> k \<Longrightarrow> k \<le> 3 \<Longrightarrow> pool_wf (two_workers n k)"
  by (auto simp: two_workers_def pool_wf_def within_cap_def)

theorem client_leaves_worker_witness:
  "\<exists>t. worker_client_disconnect 0 (two_workers 1 2) = (Inr (), t) \<and>
     worker_threads t = [None, Some (2, 8)] \<and> Ev_join_worker 0 \<in> set (hist t)"
  using client_leaves_worker [OF two_workers_wf [of 1 2], of 0]
  by (auto simp: two_workers_def)

text \<open>C26: new workers are put at the index given by the number of running threads. When the
  first worker is gone and the second one is at its cap, that index is the slot of the second
  worker although the first slot is free: its record is overwritten and its thread joined,
  so the listener waits for the clients of a live worker, and the count of launched threads
  is one too many.\<close>

theorem gap_overwrites_live_worker:
  assumes "worker_threads s = [None, Some (n, e)]" and "nr_of_launched_threads s = 1"
    and "max_clients_per_thread s \<le> n" and "n < INT_MAX" and "0 \<le> sys_eventfd os (hist s)"
  shows "\<exists>t. process_new_client os Q sock cid levfd s = (Inr (), t) \<and>
    worker_threads t = [None, Some (1, sys_eventfd os (hist s))] \<and> nr_of_launched_threads t = 2 \<and>
    hist t = hist s @ [Ev_eventfd (sys_eventfd os (hist s)),
      Ev_spawn_worker sock cid 1 (sys_eventfd os (hist s)) levfd, Ev_join_worker 1]"
  using assms
  by (simp add: process_new_client_def get_min_and_idx_def as_unsigned_def emplace_new_worker_def
      get_evfd_def worker_at_def worker_val_def Let_def)

definition second_worker_only :: "string state_cells queue_common manager_state" where
  "second_worker_only =
     (let Q = string_queue_ops (\<lambda>s. s);
          s = snd (process_new_client quiet_os Q 10 0 5 (manager_start Q []));
          s = snd (process_new_client quiet_os Q 11 1 5 s)
      in snd (worker_client_disconnect 0 s))"

lemma second_worker_only_state:
  "worker_threads second_worker_only = [None, Some (1, 7)]" "nr_of_launched_threads second_worker_only = 1"
  "max_clients_per_thread second_worker_only = 1"
  by (simp_all add: second_worker_only_def process_new_client_def get_min_and_idx_def as_unsigned_def
      emplace_new_worker_def get_evfd_def worker_at_def worker_val_def Let_def quiet_os_def INT_MAX_def
      worker_client_disconnect_def get_max_and_idx_def)

theorem gap_overwrites_live_worker_witness:
  "\<exists>t. process_new_client quiet_os (string_queue_ops (\<lambda>s. s)) 12 2 5 second_worker_only = (Inr (), t) \<and>
    worker_threads t = [None, Some (1, 7)] \<and> Ev_join_worker 1 \<in> set (hist t)"
proof -
  have "sys_eventfd quiet_os (hist second_worker_only) = 7" by (simp add: quiet_os_def)
  with gap_overwrites_live_worker [OF second_worker_only_state(1,2), of quiet_os "string_queue_ops (\<lambda>s. s)" 12 2 5]
  show ?thesis by (auto simp: second_worker_only_state(3) INT_MAX_def)
qed

end
