(* ===== verification/Delivery.thy ===== *)
theory Delivery
  imports Thread_Loops Worker_Pool
begin

text \<open>
  How messages travel inside the server: from the queue the workers fill, through the
  listener, into the send queues of the clients, and out of them to the sockets. The proofs
  use the queue only through its contract, the locale \<open>server_queue\<close>, which is interpreted
  on the queue type of \<^verbatim>\<open>Server_main.cpp\<close>.
\<close>

text \<open>
  Every client's queue is sound; the messages waiting for a client; and whether one of the
  addressed clients has no room. \<open>qinv\<close> and \<open>items\<close> are the invariant and the contents of a queue.
\<close>

definition queues_ok :: "('q \<Rightarrow> bool) \<Rightarrow> ('q, 'z) server_state_scheme \<Rightarrow> bool" where
  "queues_ok qinv s \<longleftrightarrow> (\<forall>c. Some c \<in> set (clients s) \<longrightarrow> qinv (cd_send_queue c))"

definition pending :: "('q \<Rightarrow> string list) \<Rightarrow> int \<Rightarrow> ('q, 'z) server_state_scheme \<Rightarrow> string list option" where
  "pending items cid s = map_option (\<lambda>c. items (cd_send_queue c)) (client_of cid s)"

definition full_queue ::
  "('q \<Rightarrow> string list) \<Rightarrow> int \<Rightarrow> int list \<Rightarrow> ('q, 'z) server_state_scheme \<Rightarrow> bool" where
  "full_queue items ex ids s \<longleftrightarrow>
     (\<exists>j m. j \<in> set ids \<and> j \<noteq> ex \<and> pending items j s = Some m \<and> length m = QUEUE_SIZE)"

subsection \<open>Distributing a message\<close>

context server_queue
begin

lemma queues_ok_client: "queues_ok inv s \<Longrightarrow> server_wf s \<Longrightarrow> client_of j s = Some c \<Longrightarrow> inv (cd_send_queue c)"
  by (auto simp: queues_ok_def client_of_Some_iff server_wf_def)

lemma queues_ok_put: "queues_ok inv s \<Longrightarrow> inv (cd_send_queue c) \<Longrightarrow> queues_ok inv (put_client i c s)"
  by (auto simp: queues_ok_def dest: in_set_update)

lemma queues_ok_same: "same_table s t \<Longrightarrow> queues_ok inv t \<longleftrightarrow> queues_ok inv s"
  by (simp add: queues_ok_def same_table_def)

text \<open>Putting a client back with another queue.\<close>

lemma requeue:
  assumes s: "server_wf s" "queues_ok inv s" and i: "get_client_ref cid s = Some i" "clients s ! i = Some c"
    and q: "inv q"
  defines "t \<equiv> put_client i (c\<lparr>cd_send_queue := q\<rparr>) s"
  shows "server_wf t" "queues_ok inv t" "t = s\<lparr>clients := clients t\<rparr>"
    "pending items j t = (if j = cid then Some (items q) else pending items j s)" "identity j t = identity j s"
    "get_client_ref j t = get_client_ref j s"
proof -
  have len: "i < length (clients s)" and cid: "cd_personal_id c = cid"
    using get_client_ref_SomeD [OF i(1)] i(2) by auto
  have u: "ids_unique (clients s)" using s(1) by (simp add: server_wf_def)
  have c: "client_of j t = (if j = cid then Some (c\<lparr>cd_send_queue := q\<rparr>) else client_of j s)" for j
    using client_of_put [OF u len i(2), of "c\<lparr>cd_send_queue := q\<rparr>" j] cid by (simp add: t_def)
  have "client_of cid s = Some c" using i by (simp add: client_of_def)
  with c show "pending items j t = (if j = cid then Some (items q) else pending items j s)"
    "identity j t = identity j s" by (simp_all add: pending_def identity_def)
  show "server_wf t" using put_client_wf [OF s(1) len i(2)] by (simp add: t_def)
  show "queues_ok inv t" using queues_ok_put [OF s(2)] q by (simp add: t_def)
  show "t = s\<lparr>clients := clients t\<rparr>" by (simp add: t_def put_client_def)
  have "find_index (has_id j) ((clients s)[i := Some (c\<lparr>cd_send_queue := q\<rparr>)]) = find_index (has_id j) (clients s)"
    using len i(2) by (intro find_index_update) (auto simp: has_id_def)
  then show "get_client_ref j t = get_client_ref j s" by (simp add: t_def get_client_ref_def)
qed

text \<open>
  Distributing a message: it is appended to the queue of every addressed client, or one of
  them is full and the call throws.
\<close>

lemma unicast_outcome:
  assumes "server_wf s" "queues_ok inv s" "distinct ids"
  shows "\<exists>t. unicast_repeated Q ex ids msg s =
      (if full_queue items ex ids s
       then Inl (Queue_exception (ln ''Failed to push message to corresponding client'')) else Inr (), t) \<and>
    server_wf t \<and> queues_ok inv t \<and> t = s\<lparr>clients := clients t\<rparr> \<and> (\<forall>j. identity j t = identity j s) \<and>
    (\<not> full_queue items ex ids s \<longrightarrow> (\<forall>j. pending items j t =
      (if j \<in> set ids \<and> j \<noteq> ex then map_option (\<lambda>m. m @ [msg]) (pending items j s) else pending items j s)))"
  using assms
proof (induction ids arbitrary: s)
  case Nil
  then show ?case by (simp add: full_queue_def)
next
  case (Cons k ids)
  show ?case
  proof (cases "ex = k \<or> get_client_ref k s = None")
    case True
    then have k: "ex \<noteq> k \<Longrightarrow> pending items k s = None"
      using client_of_None_iff [of k s] by (auto simp: pending_def)
    then have full: "full_queue items ex (k # ids) s \<longleftrightarrow> full_queue items ex ids s" by (auto simp: full_queue_def)
    have step: "unicast_repeated Q ex (k # ids) msg s = unicast_repeated Q ex ids msg s" using True by auto
    show ?thesis
      unfolding full step using Cons.IH [OF Cons.prems(1,2)] Cons.prems(3) k by auto
  next
    case False
    then obtain i where i: "get_client_ref k s = Some i" by blast
    then obtain c where c: "clients s ! i = Some c" "i < length (clients s)"
      using get_client_ref_SomeD by blast
    then have k: "client_of k s = Some c" using i by (simp add: client_of_def)
    then have pk: "pending items k s = Some (items (cd_send_queue c))" by (simp add: pending_def)
    have inv: "inv (cd_send_queue c)" using queues_ok_client [OF Cons.prems(2,1) k] .
    show ?thesis
    proof (cases rule: push_cases [OF inv, of msg])
      case (1 q)
      let ?t = "put_client i (c\<lparr>cd_send_queue := q\<rparr>) s"
      note t = requeue [OF Cons.prems(1,2) i c(1) 1(2)]
      have full: "full_queue items ex (k # ids) s \<longleftrightarrow> full_queue items ex ids ?t"
        using 1(4) Cons.prems(3) pk by (auto simp: full_queue_def t(4))
      have step: "unicast_repeated Q ex (k # ids) msg s = unicast_repeated Q ex ids msg ?t"
        using False i c 1(1) by simp
      show ?thesis
        using Cons.IH [OF t(1,2)] Cons.prems(3) pk False
        unfolding step full t(4,5) by (auto simp: 1(3))
    next
      case 2
      then have "full_queue items ex (k # ids) s" using pk False by (force simp: full_queue_def)
      moreover have "c\<lparr>cd_send_queue := cd_send_queue c\<rparr> = c" by simp
      ultimately show ?thesis
        using False i c 2(1) requeue [OF Cons.prems(1,2) i c(1) inv] by simp
    qed
  qed
qed

text \<open>A worker that finds a client writable sends everything that waits for it, in order.\<close>

lemma drain_outcome:
  assumes send: "\<And>h b. 0 \<le> sys_send os h fd b" and fd: "0 \<le> fd"
  shows "server_wf s \<Longrightarrow> queues_ok inv s \<Longrightarrow> get_client_ref cid s = Some i \<Longrightarrow> clients s ! i = Some c \<Longrightarrow>
    0 \<le> sv_socket s \<Longrightarrow> cd_fd c = fd \<Longrightarrow> length (items (cd_send_queue c)) < n \<Longrightarrow>
    \<exists>t rs. drain_send_queue n os Q i s = (Inr (), t) \<and> server_wf t \<and> queues_ok inv t \<and>
      pending items cid t = Some [] \<and> (\<forall>j. j \<noteq> cid \<longrightarrow> pending items j t = pending items j s) \<and>
      (\<forall>j. identity j t = identity j s) \<and> length rs = length (items (cd_send_queue c)) \<and>
      t = s\<lparr>hist := hist s @ map2 (Ev_send fd) (items (cd_send_queue c)) rs, clients := clients t\<rparr>"
proof (induction n arbitrary: s c)
  case (Suc n)
  have i: "i < length (clients s)" "cd_personal_id c = cid"
    using get_client_ref_SomeD [OF Suc.prems(3)] Suc.prems(4) by auto
  have inv: "inv (cd_send_queue c)"
    using Suc.prems(2,4) i(1) by (metis nth_mem queues_ok_def)
  show ?case
  proof (cases rule: pop_cases [OF inv])
    case (1 x xs q)
    let ?c = "c\<lparr>cd_send_queue := q\<rparr>" and ?r = "sys_send os (hist s) fd x"
    let ?t = "put_client i ?c s"
    let ?u = "emit (Ev_send fd x ?r) ?t"
    note t = requeue [OF Suc.prems(1-4) 1(3)]
    have c': "clients ?t ! i = Some ?c" using i by simp
    have same: "same_table ?t ?u" by (simp add: same_table_def)
    have u: "server_wf ?u" "queues_ok inv ?u" "get_client_ref cid ?u = Some i" "clients ?u ! i = Some ?c"
      "0 \<le> sv_socket ?u" "cd_fd ?c = fd" "length (items (cd_send_queue ?c)) < n"
      using t(1,2,6) queues_ok_same [OF same] same_table_wf [OF same] Suc.prems c' 1
      by (simp_all add: get_client_ref_def)
    have send': "server_send_msg os x cid ?t = (Inr (), ?u)"
      using t(6) [of cid] Suc.prems(3,5,6) c' i send [of "hist s" x] fd
      by (simp add: server_send_msg_def get_selected_client_fd_def call_send_def Let_def)
    have step: "drain_send_queue (Suc n) os Q i s = drain_send_queue n os Q i ?u"
      using i Suc.prems(4) 1(2) send' by simp
    have keep: "pending items j ?u = pending items j ?t" "identity j ?u = identity j ?t" for j
      using same_table_client_of [OF same] by (simp_all add: pending_def identity_def)
    from Suc.IH [OF u] obtain v rs where v: "drain_send_queue n os Q i ?u = (Inr (), v)"
      "server_wf v" "queues_ok inv v" "pending items cid v = Some []" "\<forall>j. j \<noteq> cid \<longrightarrow> pending items j v = pending items j ?u"
      "\<forall>j. identity j v = identity j ?u" "length rs = length xs"
      "v = ?u\<lparr>hist := hist ?u @ map2 (Ev_send fd) xs rs, clients := clients v\<rparr>"
      using 1(4) by auto
    have "v = s\<lparr>hist := hist s @ map2 (Ev_send fd) (items (cd_send_queue c)) (?r # rs), clients := clients v\<rparr>"
      by (subst v(8)) (simp add: 1(1) emit_def put_client_def)
    with v 1(1) t(4,5) keep step show ?thesis by (intro exI [of _ v] exI [of _ "?r # rs"]) simp
  next
    case 2
    have "put_client i (c\<lparr>cd_send_queue := cd_send_queue c\<rparr>) s = s"
      using i Suc.prems(4) list_update_id [of "clients s" i] by (simp add: put_client_def)
    moreover have "pending items cid s = Some []"
      using Suc.prems(3,4) 2(1) by (simp add: pending_def client_of_def)
    ultimately show ?thesis using i Suc.prems 2 by simp
  qed
qed simp

end

subsection \<open>Waking up\<close>

lemma read_wakeup_woken:
  assumes "evfd_spec os" "0 \<le> fd" "0 < evfd_count (hist s) fd"
  shows "read_wakeup os fd err s = (Inr True, emit (Ev_read_evfd fd event_size) s)"
proof -
  have "fst (sys_read_evfd os (hist s) fd) = event_size" using assms by (simp add: evfd_spec_def)
  then show ?thesis
    by (cases "sys_read_evfd os (hist s) fd") (simp add: read_wakeup_def call_read_evfd_def)
qed

lemma read_wakeup_spurious:
  assumes "evfd_spec os" "0 \<le> fd" "evfd_count (hist s) fd = 0"
  shows "read_wakeup os fd err s = (Inr False, emit (Ev_read_evfd fd (- 1)) s)"
  using assms by (auto simp: read_wakeup_def call_read_evfd_def evfd_spec_def Let_def event_size_def)


subsection \<open>The listener distributes\<close>

lemma w2l_update_simps [simp]:
  "clients (s\<lparr>q_worker_to_listener := q\<rparr>) = clients s" "hist (s\<lparr>q_worker_to_listener := q\<rparr>) = hist s"
  "worker_threads (s\<lparr>q_worker_to_listener := q\<rparr>) = worker_threads s"
  "client_of j (s\<lparr>q_worker_to_listener := q\<rparr>) = client_of j s"
  "get_client_ref j (s\<lparr>q_worker_to_listener := q\<rparr>) = get_client_ref j s"
  "get_connected_IDs (s\<lparr>q_worker_to_listener := q\<rparr>) = get_connected_IDs s"
  "server_wf (s\<lparr>q_worker_to_listener := q\<rparr>) \<longleftrightarrow> server_wf s"
  by (simp_all add: client_of_def get_client_ref_def get_connected_IDs_def server_wf_def split: option.splits)

context server_queue
begin

text \<open>
  What the listener's function comes to when it was woken and a message is waiting: one
  message is taken off the queue, and the wake-up counter goes to zero.
\<close>

lemma listener_takes_one:
  assumes os: "evfd_spec os" "0 \<le> evfd" "0 < evfd_count (hist s) evfd"
    and q: "inv (q_worker_to_listener s)" "items (q_worker_to_listener s) = wire # rest"
    and msg: "construct_from_string wire empty_message = Inr msg" and ids: "get_connected_IDs s \<noteq> []"
  obtains q' t where "listener_process_worker_to_listener_q os Q evfd s =
      dispatch_message Q msg wire (get_connected_IDs s) t"
    "t = (emit (Ev_read_evfd evfd event_size) s)\<lparr>q_worker_to_listener := q'\<rparr>"
    "inv q'" "items q' = rest" "evfd_count (hist t) evfd = 0" "same_table s t"
proof -
  let ?s = "emit (Ev_read_evfd evfd event_size) s"
  obtain q' where q': "queue_pop Q (q_worker_to_listener s) = Inr (Some wire, q')" "inv q'" "items q' = rest"
    using q(2) by (cases rule: pop_cases [OF q(1)]) auto
  let ?t = "?s\<lparr>q_worker_to_listener := q'\<rparr>"
  have same: "same_table s ?t" by (simp add: same_table_def)
  have "get_connected_IDs ?t = get_connected_IDs s" using same by (rule same_table_ids)
  then have "listener_process_worker_to_listener_q os Q evfd s =
      dispatch_message Q msg wire (get_connected_IDs s) ?t"
    using read_wakeup_woken [OF os] q'(1) msg ids
    by (simp add: listener_process_worker_to_listener_q_def Let_def)
  then show thesis using q' same by (intro that [of ?t q']) simp_all
qed

lemma pending_None_iff: "pending items j s = None \<longleftrightarrow> j \<notin> set (get_connected_IDs s)"
  using connected_IDs_iff [of j s] client_of_None_iff [of j s] by (auto simp: pending_def)

lemma same_table_views:
  "same_table s t \<Longrightarrow> pending items j t = pending items j s" "same_table s t \<Longrightarrow> identity j t = identity j s"
  "same_table s t \<Longrightarrow> full_queue items ex ids t \<longleftrightarrow> full_queue items ex ids s"
  by (simp_all add: pending_def identity_def full_queue_def same_table_client_of)

lemma unicast_to_all:
  assumes s: "server_wf s" "queues_ok inv s" and full: "\<not> full_queue items ex (get_connected_IDs s) s"
  shows "\<exists>t. unicast_repeated Q ex (get_connected_IDs s) msg s = (Inr (), t) \<and>
    server_wf t \<and> queues_ok inv t \<and> t = s\<lparr>clients := clients t\<rparr> \<and> (\<forall>j. identity j t = identity j s) \<and>
    (\<forall>j. pending items j t = (if j = ex then pending items j s else map_option (\<lambda>m. m @ [msg]) (pending items j s)))"
proof -
  have "distinct (get_connected_IDs s)" using s(1) by (rule reg.ids_distinct)
  from unicast_outcome [OF s this, of ex msg] full obtain t where
    "unicast_repeated Q ex (get_connected_IDs s) msg s = (Inr (), t)" "server_wf t" "queues_ok inv t"
    "t = s\<lparr>clients := clients t\<rparr>" "\<forall>j. identity j t = identity j s"
    and p: "\<forall>j. pending items j t = (if j \<in> set (get_connected_IDs s) \<and> j \<noteq> ex
        then map_option (\<lambda>m. m @ [msg]) (pending items j s) else pending items j s)" by auto
  moreover have "pending items j t = (if j = ex then pending items j s else map_option (\<lambda>m. m @ [msg]) (pending items j s))"
    for j using p pending_None_iff [of j s] by (cases "j \<in> set (get_connected_IDs s)") auto
  ultimately show ?thesis by blast
qed

text \<open>
  The two messages the listener only passes on: a chat line, which every other client gets as
  it came, and the end of a handshake, which everybody else gets as a chat line.
\<close>

lemma listener_unicasts:
  fixes s :: "('q, 'z) manager_state_scheme"
  assumes s: "server_wf s" "queues_ok inv s"
    and os: "evfd_spec os" "0 \<le> evfd" "0 < evfd_count (hist s) evfd"
    and q: "inv (q_worker_to_listener s)" "items (q_worker_to_listener s) = wire # rest"
    and msg: "construct_from_string wire empty_message = Inr msg"
    and disp: "\<And>ids (t :: ('q, 'z) manager_state_scheme). dispatch_message Q msg wire ids t = unicast_repeated Q ex ids out t"
    and full: "\<not> full_queue items ex (get_connected_IDs s) s" and ids: "get_connected_IDs s \<noteq> []"
  shows "\<exists>t. listener_process_worker_to_listener_q os Q evfd s = (Inr (), t) \<and>
    server_wf t \<and> queues_ok inv t \<and> (\<forall>j. identity j t = identity j s) \<and>
    (\<forall>j. pending items j t = (if j = ex then pending items j s else map_option (\<lambda>m. m @ [out]) (pending items j s))) \<and>
    inv (q_worker_to_listener t) \<and> items (q_worker_to_listener t) = rest \<and> evfd_count (hist t) evfd = 0 \<and>
    sv_socket t = sv_socket s"
proof -
  obtain q' t where t: "listener_process_worker_to_listener_q os Q evfd s =
      dispatch_message Q msg wire (get_connected_IDs s) t"
    "t = (emit (Ev_read_evfd evfd event_size) s)\<lparr>q_worker_to_listener := q'\<rparr>"
    "inv q'" "items q' = rest" "evfd_count (hist t) evfd = 0" "same_table s t"
    by (rule listener_takes_one [OF os q msg ids])
  note views = same_table_views [OF t(6)] same_table_ids [OF t(6)]
  have "server_wf t" "queues_ok inv t" "\<not> full_queue items ex (get_connected_IDs t) t"
    using s full same_table_wf [OF t(6)] queues_ok_same [OF t(6)] by (simp_all add: views)
  from unicast_to_all [OF this, of out] obtain u where
    u: "unicast_repeated Q ex (get_connected_IDs t) out t = (Inr (), u)" "server_wf u" "queues_ok inv u"
    "u = t\<lparr>clients := clients u\<rparr>" "\<forall>j. identity j u = identity j t"
    "\<forall>j. pending items j u = (if j = ex then pending items j t else map_option (\<lambda>m. m @ [out]) (pending items j t))"
    by blast
  have "hist u = hist t" "q_worker_to_listener u = q'" "sv_socket u = sv_socket s" by (subst u(4), simp add: t(2))+
  with t(1,3,4,5) u show ?thesis by (simp add: disp views)
qed

lemma dispatch_chat:
  assumes "sm_action msg = get_action UNICAST_REPEATED" "stoi (sm_id msg) = Inr sender"
  shows "dispatch_message Q msg wire ids t = unicast_repeated Q sender ids wire t"
  using assms by (simp add: dispatch_message_def)

lemma dispatch_init_done:
  assumes "sm_action msg = get_action INIT_DONE" "stoi (sm_id msg) = Inr newcomer"
  shows "dispatch_message Q msg wire ids t = unicast_repeated Q newcomer ids
     (get_concatenated_msg (msg\<lparr>sm_action := get_action UNICAST_REPEATED\<rparr>)) t"
  using assms by (simp add: dispatch_message_def)

text \<open>A client that left: it is removed, everybody else is told, and its worker has one less.\<close>

lemma pending_removed:
  assumes "server_wf s" "get_client_ref cid s = Some k" "clients t = (clients s)[k := None]"
  shows "pending items j t = (if j = cid then None else pending items j s)"
    "identity j t = (if j = cid then None else identity j s)"
  using client_of_removed [OF _ assms(2,3), of j] assms(1)
  by (simp_all add: pending_def identity_def server_wf_def)

lemma dispatch_disconnect_outcome:
  assumes s: "server_wf s" "queues_ok inv s" "pool_wf s"
    and msg: "stoi (sm_id msg) = Inr cid" "stoi (sm_thread_number msg) = Inr (int i)"
    and cid: "client_of cid s = Some c" and i: "i < 2" "worker_threads s ! i = Some (n, e)"
    and full: "\<not> full_queue items cid (get_connected_IDs s) s"
  defines "out \<equiv> get_concatenated_msg (msg\<lparr>sm_action := get_action UNICAST_REPEATED,
      sm_msg_content := sm_name msg @ '' Has just left!'', sm_name := SERVER_NAME\<rparr>)"
  shows "\<exists>t. dispatch_disconnect Q msg (get_connected_IDs s) s = (Inr (), t) \<and>
    server_wf t \<and> queues_ok inv t \<and> pool_wf t \<and> client_of cid t = None \<and>
    (\<forall>j. j \<noteq> cid \<longrightarrow> identity j t = identity j s \<and>
       pending items j t = map_option (\<lambda>m. m @ [out]) (pending items j s)) \<and>
    worker_threads t = (worker_threads s)[i := if n = 1 then None else Some (n - 1, e)] \<and>
    q_worker_to_listener t = q_worker_to_listener s"
proof -
  let ?s0 = "emit_print (Cout (ln ''Client disconnected'')) s" and ?ids = "get_connected_IDs s"
  obtain k where k: "get_client_ref cid s = Some k" "clients s ! k = Some c"
    using cid by (auto simp: client_of_def split: option.splits)
  have wf0: "server_wf ?s0" and k0: "get_client_ref cid ?s0 = Some k" "clients ?s0 ! k = Some c"
    using s(1) k by (simp_all add: get_client_ref_def)
  define u where "u = (close_fd (cd_fd c) ?s0)\<lparr>nr_of_connections := nr_of_connections ?s0 - 1,
     clients := (clients ?s0)[k := None]\<rparr>"
  have u: "disconnect_client cid ?s0 = (Inr (), u)" "server_wf u"
    using disconnect_client_eq [OF wf0 k0] by (simp_all add: u_def)
  have uc: "clients u = (clients s)[k := None]" by (simp add: u_def)
  note gone = pending_removed [OF s(1) k(1) uc]
  have uq: "queues_ok inv u" using s(2) by (auto simp: queues_ok_def uc dest: in_set_update)
  have "\<not> full_queue items cid ?ids u" using full by (auto simp: full_queue_def gone split: if_splits)
  with unicast_outcome [OF u(2) uq reg.ids_distinct [OF s(1)], of cid out] obtain v where
    v: "unicast_repeated Q cid ?ids out u = (Inr (), v)" "server_wf v" "queues_ok inv v"
    "v = u\<lparr>clients := clients v\<rparr>" "\<forall>j. identity j v = identity j u"
    "\<forall>j. pending items j v = (if j \<in> set ?ids \<and> j \<noteq> cid
      then map_option (\<lambda>m. m @ [out]) (pending items j u) else pending items j u)" by auto
  have vf: "worker_threads v = worker_threads s" "nr_of_launched_threads v = nr_of_launched_threads s"
    "max_clients_per_thread v = max_clients_per_thread s" "q_worker_to_listener v = q_worker_to_listener s"
    by (subst v(4), simp add: u_def)+
  have vp: "pool_wf v" using s(3) pool_wf_cong [OF vf(1-3)] by simp
  have vi: "worker_threads v ! i = Some (n, e)" using i(2) vf(1) by simp
  from worker_client_disconnect_running [OF vp i(1) vi] obtain t where
    t: "worker_client_disconnect (int i) v = (Inr (), t)" "pool_wf t"
    "worker_threads t = (worker_threads v)[i := if n = 1 then None else Some (n - 1, e)]"
    "same_table v t" "q_worker_to_listener t = q_worker_to_listener v" by blast
  have len: "i < length (worker_threads s)" and n: "n \<noteq> 0"
    using s(3) i nth_mem [of i "worker_threads s"] by (fastforce simp: pool_wf_def)+
  have "worker_threads u = worker_threads s" by (simp add: u_def)
  with len n i(2) u(1) v(1) [unfolded out_def] t(1) msg have run: "dispatch_disconnect Q msg ?ids s = (Inr (), t)"
    by (simp add: dispatch_disconnect_def Let_def worker_at_def)
  have "pending items j v = map_option (\<lambda>m. m @ [out]) (pending items j s)" if "j \<noteq> cid" for j
    using v(6) that pending_None_iff [of j s] by (auto simp: gone)
  moreover have "client_of cid v = None" using v(5) [rule_format, of cid] gone(2) [of cid] by (simp add: identity_def)
  ultimately show ?thesis
    using run t v(2,3,5) vf same_table_wf [OF t(4)] queues_ok_same [OF t(4)] gone(2)
    by (simp add: same_table_views [OF t(4)] same_table_client_of [OF t(4)])
qed

end

subsection \<open>Properties of message delivery\<close>

text \<open>A server with the given clients connected, messages waiting for the listener, history.\<close>

definition busy_server :: "int list \<Rightarrow> string list \<Rightarrow> history \<Rightarrow> string state_cells queue_common manager_state" where
  "busy_server ids msgs h = (manager_start (string_queue_ops (\<lambda>s. s)) h)\<lparr>sv_socket := 3,
     nr_of_connections := int (length ids), clients := clients (table_with (string_queue_ops (\<lambda>s. s)) ids),
     client_data_id := 20, q_worker_to_listener := loaded_queue msgs,
     worker_threads := [Some (1, 7), Some (1, 8)], nr_of_launched_threads := 2\<rparr>"

lemma busy_server_table: "same_table (table_with (string_queue_ops (\<lambda>s. s)) ids) (busy_server ids msgs h)"
  by (simp add: same_table_def busy_server_def table_with_def)

lemma busy_server_wf: "server_wf (busy_server [4, 7] msgs h)"
  using same_table_wf [OF busy_server_table] table_with_two_wf by blast

lemma table_queues_new:
  "queues_ok string_queue_inv (table_with (string_queue_ops mv) ids)"
  by (auto simp: queues_ok_def table_with_def table_client_def new_string_queue_inv)

lemma busy_server_queues: "queues_ok string_queue_inv (busy_server ids msgs h)"
  using srv.queues_ok_same [OF busy_server_table] table_queues_new by blast

lemma busy_server_pending:
  "pending string_queue_items j (busy_server [4, 7] msgs h) = (if j = 4 \<or> j = 7 then Some [] else None)"
proof -
  have "client_of j (busy_server [4, 7] msgs h) =
      (if j = 4 \<or> j = 7 then Some (table_client (string_queue_ops (\<lambda>s. s)) j) else None)"
    using same_table_client_of [OF busy_server_table, of j "[4, 7]"] by (simp add: table_with_two_client)
  then show ?thesis by (simp add: pending_def table_client_def new_string_queue_items)
qed

text \<open>Handing a message to a list of clients appends it exactly once to the queue of every
  connected client of the list other than the excepted one and to no other, and leaves names,
  colours, states and descriptors alone; it throws exactly when one of the addressed queues
  holds 128 messages, and it never blocks.\<close>

theorem unicast_repeated_delivers:
  fixes s :: "(string state_cells queue_common, 'z) server_state_scheme"
  assumes "server_wf s" and "queues_ok string_queue_inv s" and "distinct ids"
  shows "\<exists>t. unicast_repeated (string_queue_ops mv) ex ids msg s =
      (if full_queue string_queue_items ex ids s
       then Inl (Queue_exception (ln ''Failed to push message to corresponding client'')) else Inr (), t) \<and>
    server_wf t \<and> queues_ok string_queue_inv t \<and> t = s\<lparr>clients := clients t\<rparr> \<and>
    (\<forall>j. identity j t = identity j s) \<and>
    (\<not> full_queue string_queue_items ex ids s \<longrightarrow> (\<forall>j. pending string_queue_items j t =
      (if j \<in> set ids \<and> j \<noteq> ex then map_option (\<lambda>m. m @ [msg]) (pending string_queue_items j s)
       else pending string_queue_items j s)))"
  using assms by (rule srv.unicast_outcome)

theorem unicast_repeated_delivers_witness:
  "\<exists>t. unicast_repeated (string_queue_ops (\<lambda>s. s)) 4 [4, 7] ''hi'' (busy_server [4, 7] [] []) = (Inr (), t) \<and>
     pending string_queue_items 7 t = Some [''hi''] \<and> pending string_queue_items 4 t = Some []"
proof -
  have "\<not> full_queue string_queue_items 4 [4, 7] (busy_server [4, 7] [] [])"
    by (auto simp: full_queue_def busy_server_pending)
  with unicast_repeated_delivers [where s = "busy_server [4, 7] [] []" and ids = "[4, 7]" and mv = "\<lambda>s. s"
      and ex = 4 and msg = "''hi''", OF busy_server_wf busy_server_queues]
  show ?thesis by (auto simp: busy_server_pending simp del: unicast_repeated.simps)
qed

lemma busy_server_ids: "get_connected_IDs (busy_server [4, 7] msgs h) = [4, 7]"
  using same_table_ids [OF busy_server_table, of "[4, 7]" msgs h]
  by (simp add: get_connected_IDs_def table_with_def table_client_def List.map_filter_simps server_start_def numeral_eq_Suc)

lemma busy_server_room: "\<not> full_queue string_queue_items ex ids (busy_server [4, 7] msgs h)"
  by (auto simp: full_queue_def busy_server_pending split: if_splits)

lemma busy_server_queue:
  "length msgs \<le> 128 \<Longrightarrow> string_queue_inv (q_worker_to_listener (busy_server ids msgs h)) \<and>
   string_queue_items (q_worker_to_listener (busy_server ids msgs h)) = msgs"
  using loaded_queue_holds [of msgs] by (simp add: busy_server_def)

lemma busy_server_hist [simp]: "hist (busy_server ids msgs h) = h"
  by (simp add: busy_server_def)

text \<open>C4: a chat line at the head of the workers' queue, once the listener is woken, ends up
  unchanged and in order at the end of the send queue of every connected client except the
  one whose id it carries, provided none of those queues is full.\<close>

theorem chat_line_reaches_everyone_else:
  fixes s :: "(string state_cells queue_common, 'z) manager_state_scheme"
  assumes "server_wf s" and "queues_ok string_queue_inv s"
    and "evfd_spec os" and "0 \<le> evfd" and "0 < evfd_count (hist s) evfd"
    and "string_queue_inv (q_worker_to_listener s)"
    and "string_queue_items (q_worker_to_listener s) = wire # rest"
    and "construct_from_string wire empty_message = Inr msg"
    and "sm_action msg = get_action UNICAST_REPEATED" and "stoi (sm_id msg) = Inr sender"
    and "\<not> full_queue string_queue_items sender (get_connected_IDs s) s" and "get_connected_IDs s \<noteq> []"
  shows "\<exists>t. listener_process_worker_to_listener_q os (string_queue_ops mv) evfd s = (Inr (), t) \<and>
    server_wf t \<and> queues_ok string_queue_inv t \<and> (\<forall>j. identity j t = identity j s) \<and>
    (\<forall>j. pending string_queue_items j t = (if j = sender then pending string_queue_items j s
       else map_option (\<lambda>m. m @ [wire]) (pending string_queue_items j s))) \<and>
    string_queue_inv (q_worker_to_listener t) \<and> string_queue_items (q_worker_to_listener t) = rest \<and>
    evfd_count (hist t) evfd = 0"
  using srv.listener_unicasts [OF assms(1-8) srv.dispatch_chat [OF assms(9,10)] assms(11,12), of mv] by blast

definition sample_chat :: server_message where
  "sample_chat = empty_message\<lparr>sm_action := ''UNICAST_REPEATED'', sm_id := to_string 4, sm_name := ''ann'',
     sm_color_id := ''2'', sm_msg_content := ''hi''\<rparr>"

lemma sample_chat_parses:
  "construct_from_string (get_concatenated_msg sample_chat) empty_message = Inr sample_chat"
  "sm_action sample_chat = get_action UNICAST_REPEATED" "stoi (sm_id sample_chat) = Inr 4"
proof -
  have "split_token \<notin> set (to_string 4)"
    using to_string_chars [of split_token 4] by (auto simp: split_token_def is_digit_def)
  then have "sendable sample_chat"
    by (simp add: sample_chat_def empty_message_def sendable_iff split_token_def)
  then show "construct_from_string (get_concatenated_msg sample_chat) empty_message = Inr sample_chat"
    using construct_concatenated [of sample_chat "[]"] by (simp add: split_token_def)
  show "sm_action sample_chat = get_action UNICAST_REPEATED" by (simp add: sample_chat_def)
  show "stoi (sm_id sample_chat) = Inr 4"
    using stoi_to_string [of 4] by (simp add: sample_chat_def INT_MIN_def INT_MAX_def)
qed

theorem chat_line_reaches_everyone_else_witness:
  "\<exists>t. listener_process_worker_to_listener_q quiet_os (string_queue_ops (\<lambda>s. s)) 5
      (busy_server [4, 7] [get_concatenated_msg sample_chat] [Ev_write_evfd 5 8]) = (Inr (), t) \<and>
    pending string_queue_items 7 t = Some [get_concatenated_msg sample_chat] \<and>
    pending string_queue_items 4 t = Some []"
proof -
  let ?w = "get_concatenated_msg sample_chat"
  have q: "string_queue_inv (q_worker_to_listener (busy_server [4, 7] [?w] [Ev_write_evfd 5 8]))"
    "string_queue_items (q_worker_to_listener (busy_server [4, 7] [?w] [Ev_write_evfd 5 8])) = [?w]"
    using busy_server_queue [of "[?w]"] by simp_all
  have h: "0 < evfd_count (hist (busy_server [4, 7] [?w] [Ev_write_evfd 5 8])) 5"
    by (simp add: evfd_count_def event_size_def)
  show ?thesis
    using chat_line_reaches_everyone_else [OF busy_server_wf busy_server_queues quiet_os_specs(2) _ h q
        sample_chat_parses busy_server_room, of "\<lambda>s. s"]
    by (auto simp: busy_server_ids busy_server_pending)
qed

text \<open>C16: a client's departure: the listener removes it from the table and from its worker,
  ends the worker if it was its last client, and queues the same notice for every other
  client, whose data it does not touch otherwise; both invariants are kept.\<close>

theorem departure_cleans_up:
  fixes s :: "(string state_cells queue_common, 'z) manager_state_scheme"
  assumes "server_wf s" and "queues_ok string_queue_inv s" and "pool_wf s"
    and "sm_action msg = get_action CL_DISCONNECTED"
    and "stoi (sm_id msg) = Inr cid" and "stoi (sm_thread_number msg) = Inr (int i)"
    and "client_of cid s = Some c" and "i < 2" and "worker_threads s ! i = Some (n, e)"
    and "\<not> full_queue string_queue_items cid (get_connected_IDs s) s"
  shows "\<exists>t. dispatch_message (string_queue_ops mv) msg wire (get_connected_IDs s) s = (Inr (), t) \<and>
    server_wf t \<and> queues_ok string_queue_inv t \<and> pool_wf t \<and> client_of cid t = None \<and>
    (\<forall>j. j \<noteq> cid \<longrightarrow> identity j t = identity j s \<and>
       pending string_queue_items j t = map_option (\<lambda>m. m @ [get_concatenated_msg
         (msg\<lparr>sm_action := get_action UNICAST_REPEATED, sm_msg_content := sm_name msg @ '' Has just left!'',
              sm_name := SERVER_NAME\<rparr>)]) (pending string_queue_items j s)) \<and>
    worker_threads t = (worker_threads s)[i := if n = 1 then None else Some (n - 1, e)] \<and>
    q_worker_to_listener t = q_worker_to_listener s"
  using srv.dispatch_disconnect_outcome [OF assms(1-3,5-10), of mv] assms(4)
  by (simp add: dispatch_message_def)

lemma busy_server_pool: "pool_wf (busy_server ids msgs h)"
  by (auto simp: pool_wf_def within_cap_def busy_server_def)

theorem departure_cleans_up_witness:
  "\<exists>t. dispatch_message (string_queue_ops (\<lambda>s. s)) (empty_message\<lparr>sm_action := ''CL_DISCONNECTED'',
        sm_id := to_string 4, sm_thread_number := to_string 0, sm_name := ''ann''\<rparr>) [] [4, 7]
        (busy_server [4, 7] [] []) = (Inr (), t) \<and> client_of 4 t = None \<and> client_of 7 t \<noteq> None \<and>
     worker_threads t = [None, Some (1, 8)]"
proof -
  let ?s = "busy_server [4, 7] [] []" and ?m = "empty_message\<lparr>sm_action := ''CL_DISCONNECTED'',
      sm_id := to_string 4, sm_thread_number := to_string 0, sm_name := ''ann''\<rparr>"
  have c: "client_of 4 ?s = Some (table_client (string_queue_ops (\<lambda>s. s)) 4)"
    using same_table_client_of [OF busy_server_table, of 4 "[4, 7]"] by (simp add: table_with_two_client)
  have w: "worker_threads ?s ! 0 = Some (1, 7)" "worker_threads ?s = [Some (1, 7), Some (1, 8)]"
    by (simp_all add: busy_server_def)
  have m: "stoi (sm_id ?m) = Inr 4" "stoi (sm_thread_number ?m) = Inr (int 0)"
    by (simp_all add: stoi_to_string INT_MIN_def INT_MAX_def)
  obtain t where t: "dispatch_message (string_queue_ops (\<lambda>s. s)) ?m [] (get_connected_IDs ?s) ?s = (Inr (), t)"
    "client_of 4 t = None" "identity 7 t = identity 7 ?s" "worker_threads t = [None, Some (1, 8)]"
    using departure_cleans_up [OF busy_server_wf busy_server_queues busy_server_pool _ m c _ w(1)
        busy_server_room, of "\<lambda>s. s" "[]"] w(2) by auto
  have "client_of 7 ?s \<noteq> None"
    using same_table_client_of [OF busy_server_table, of 7 "[4, 7]"] by (simp add: table_with_two_client)
  with t(3) have "client_of 7 t \<noteq> None" by (auto simp: identity_def)
  with t show ?thesis by (auto simp: busy_server_ids)
qed

lemma output_drains:
  fixes s :: "(string state_cells queue_common, 'z) manager_state_scheme"
  assumes wf: "server_wf s" and ok: "queues_ok string_queue_inv s"
    and ref: "get_client_ref cid s = Some i" and cl: "clients s ! i = Some c"
    and state: "cd_init_state c = INIT_DONE_STATE"
    and sock: "0 \<le> sv_socket s" and fd: "0 \<le> cd_fd c" and send: "\<And>h b. 0 \<le> sys_send os h (cd_fd c) b"
  shows "\<exists>t rs. process_output os (string_queue_ops mv) msg i s = (Inr msg, t) \<and> server_wf t \<and>
    queues_ok string_queue_inv t \<and> pending string_queue_items cid t = Some [] \<and>
    (\<forall>j. j \<noteq> cid \<longrightarrow> pending string_queue_items j t = pending string_queue_items j s) \<and>
    (\<forall>j. identity j t = identity j s) \<and> length rs = length (string_queue_items (cd_send_queue c)) \<and>
    hist t = hist s @ map2 (Ev_send (cd_fd c)) (string_queue_items (cd_send_queue c)) rs"
proof -
  have i: "i < length (clients s)" using get_client_ref_SomeD [OF ref] by simp
  have "string_queue_inv (cd_send_queue c)" using ok cl i by (metis nth_mem queues_ok_def)
  then have "length (string_queue_items (cd_send_queue c)) < drain_fuel"
    using strq.bounded by (force simp: drain_fuel_def)
  from srv.drain_outcome [OF send fd wf ok ref cl sock refl this, of mv] obtain t rs where
    t: "drain_send_queue drain_fuel os (string_queue_ops mv) i s = (Inr (), t)" "server_wf t"
    "queues_ok string_queue_inv t" "pending string_queue_items cid t = Some []"
    "\<forall>j. j \<noteq> cid \<longrightarrow> pending string_queue_items j t = pending string_queue_items j s"
    "\<forall>j. identity j t = identity j s" "length rs = length (string_queue_items (cd_send_queue c))"
    "t = s\<lparr>hist := hist s @ map2 (Ev_send (cd_fd c)) (string_queue_items (cd_send_queue c)) rs,
        clients := clients t\<rparr>" by blast
  have "process_output os (string_queue_ops mv) msg i s = (Inr msg, t)"
    using i cl state t(1) by (simp add: process_output_def get_state_def state_constants)
  moreover have "hist t = hist s @ map2 (Ev_send (cd_fd c)) (string_queue_items (cd_send_queue c)) rs"
    by (subst t(8)) simp
  ultimately show ?thesis using t(2-7) by blast
qed

text \<open>C21: when the socket of a client that finished its handshake is writable, the worker sends
  every message waiting for that client, each once and in the order they were queued, and
  leaves its queue empty and all other clients alone; the loop ends within its 129 turns.\<close>

theorem send_queue_drained_in_order:
  fixes s :: "(string state_cells queue_common, 'z) manager_state_scheme"
  assumes wf: "server_wf s" and ok: "queues_ok string_queue_inv s"
    and ref: "get_client_ref cid s = Some i" and cl: "clients s ! i = Some c"
    and state: "cd_init_state c = INIT_DONE_STATE"
    and sock: "0 \<le> sv_socket s" and fd: "0 \<le> cd_fd c" and send: "\<And>h b. 0 \<le> sys_send os h (cd_fd c) b"
  shows "\<exists>t rs. process_output os (string_queue_ops mv) msg i s = (Inr msg, t) \<and> server_wf t \<and>
    queues_ok string_queue_inv t \<and> pending string_queue_items cid t = Some [] \<and>
    (\<forall>j. j \<noteq> cid \<longrightarrow> pending string_queue_items j t = pending string_queue_items j s) \<and>
    (\<forall>j. identity j t = identity j s) \<and> length rs = length (string_queue_items (cd_send_queue c)) \<and>
    hist t = hist s @ map2 (Ev_send (cd_fd c)) (string_queue_items (cd_send_queue c)) rs"
  using assms by (rule output_drains)

lemma quiet_send: "0 \<le> sys_send quiet_os h fd b"
  by (simp add: quiet_os_def)

theorem send_queue_drained_in_order_witness:
  "\<exists>t. process_output quiet_os (string_queue_ops (\<lambda>s. s)) empty_message 0
      (put_client 0 ((table_client (string_queue_ops (\<lambda>s. s)) 4)\<lparr>cd_send_queue := loaded_queue [''x'', ''y'']\<rparr>)
         (busy_server [4, 7] [] [])) = (Inr empty_message, t) \<and>
     (\<exists>r1 r2. hist t = [Ev_send 14 ''x'' r1, Ev_send 14 ''y'' r2])"
proof -
  let ?c = "(table_client (string_queue_ops (\<lambda>s. s)) 4)\<lparr>cd_send_queue := loaded_queue [''x'', ''y'']\<rparr>"
  let ?b = "busy_server [4, 7] [] []"
  let ?s = "put_client 0 ?c ?b"
  have r: "get_client_ref 4 ?b = Some 0" "clients ?b ! 0 = Some (table_client (string_queue_ops (\<lambda>s. s)) 4)"
    "0 < length (clients ?b)"
    by (simp_all add: get_client_ref_def busy_server_def table_with_def table_client_def)
  have q: "string_queue_inv (loaded_queue [''x'', ''y''])" "string_queue_items (loaded_queue [''x'', ''y'']) = [''x'', ''y'']"
    using loaded_queue_holds [of "[''x'', ''y'']"] by simp_all
  note s = srv.requeue [OF busy_server_wf busy_server_queues r(1,2) q(1)]
  have c: "clients ?s ! 0 = Some ?c" using r(3) by simp
  have "get_client_ref 4 ?s = Some 0" using s(6) r(1) by simp
  from send_queue_drained_in_order [OF s(1,2) this c, of quiet_os "\<lambda>s. s" empty_message]
  obtain t rs where t: "process_output quiet_os (string_queue_ops (\<lambda>s. s)) empty_message 0 ?s = (Inr empty_message, t)"
    "length rs = 2" "hist t = map2 (Ev_send 14) [''x'', ''y''] rs"
    by (auto simp: table_client_def state_constants busy_server_def quiet_send q(2) numeral_2_eq_2)
  then obtain r1 r2 where "rs = [r1, r2]" by (auto simp: length_Suc_conv numeral_2_eq_2)
  with t show ?thesis by auto
qed

text \<open>C24: a wake-up takes the whole counter of the event descriptor but only one message off
  the queue. When two messages were announced before the listener reads, the second one stays
  in the queue with the counter at zero: the listener's function, called again, does nothing
  until some worker pushes another message.\<close>

theorem one_message_per_wakeup:
  fixes s :: "(string state_cells queue_common, 'z) manager_state_scheme"
  assumes "server_wf s" and "queues_ok string_queue_inv s"
    and "evfd_spec os" and "0 \<le> evfd" and "0 < evfd_count (hist s) evfd"
    and "string_queue_inv (q_worker_to_listener s)"
    and "string_queue_items (q_worker_to_listener s) = wire # second # rest"
    and "construct_from_string wire empty_message = Inr msg"
    and "sm_action msg = get_action UNICAST_REPEATED" and "stoi (sm_id msg) = Inr sender"
    and "\<not> full_queue string_queue_items sender (get_connected_IDs s) s" and "get_connected_IDs s \<noteq> []"
  shows "\<exists>t. listener_process_worker_to_listener_q os (string_queue_ops mv) evfd s = (Inr (), t) \<and>
    string_queue_items (q_worker_to_listener t) = second # rest \<and>
    listener_process_worker_to_listener_q os (string_queue_ops mv) evfd t =
      (Inr (), emit (Ev_read_evfd evfd (- 1)) t)"
proof -
  obtain t where "listener_process_worker_to_listener_q os (string_queue_ops mv) evfd s = (Inr (), t)"
    "string_queue_items (q_worker_to_listener t) = second # rest" "evfd_count (hist t) evfd = 0"
    using srv.listener_unicasts [OF assms(1-8) srv.dispatch_chat [OF assms(9,10)] assms(11,12), of mv] by blast
  moreover from this have "listener_process_worker_to_listener_q os (string_queue_ops mv) evfd t =
      (Inr (), emit (Ev_read_evfd evfd (- 1)) t)"
    by (simp add: listener_process_worker_to_listener_q_def read_wakeup_spurious [OF assms(3,4)])
  ultimately show ?thesis by blast
qed

theorem one_message_per_wakeup_witness:
  "\<exists>t. listener_process_worker_to_listener_q quiet_os (string_queue_ops (\<lambda>s. s)) 5
      (busy_server [4, 7] [get_concatenated_msg sample_chat, get_concatenated_msg sample_chat]
        [Ev_write_evfd 5 8, Ev_write_evfd 5 8]) = (Inr (), t) \<and>
    string_queue_items (q_worker_to_listener t) = [get_concatenated_msg sample_chat] \<and>
    listener_process_worker_to_listener_q quiet_os (string_queue_ops (\<lambda>s. s)) 5 t =
      (Inr (), emit (Ev_read_evfd 5 (- 1)) t)"
proof -
  let ?w = "get_concatenated_msg sample_chat" and ?h = "[Ev_write_evfd 5 8, Ev_write_evfd 5 8]"
  have q: "string_queue_inv (q_worker_to_listener (busy_server [4, 7] [?w, ?w] ?h))"
    "string_queue_items (q_worker_to_listener (busy_server [4, 7] [?w, ?w] ?h)) = [?w, ?w]"
    using busy_server_queue [of "[?w, ?w]"] by simp_all
  have h: "0 < evfd_count (hist (busy_server [4, 7] [?w, ?w] ?h)) 5"
    by (simp add: evfd_count_def event_size_def)
  show ?thesis
    using one_message_per_wakeup [OF busy_server_wf busy_server_queues quiet_os_specs(2) _ h q
        sample_chat_parses busy_server_room, of "\<lambda>s. s"]
    by (auto simp: busy_server_ids)
qed

end
