(* ===== verification/Handshake.thy ===== *)
theory Handshake
  imports Delivery "HOL-Library.Sublist"
begin

text \<open>
  The protocol a worker runs with one client: the stages of \<^verbatim>\<open>Client_Data::init_state\<close> as a
  step relation, and the proof that \<open>process_client_state\<close> only takes steps of it.
\<close>

subsection \<open>The stages\<close>

datatype stage_event = Received string | Writable | Eof

inductive stage_step :: "int \<Rightarrow> stage_event \<Rightarrow> int \<Rightarrow> bool" where
  request: "stage_step INITIAL_STATE (Received (get_action INIT_REQ)) REQUESTED_INIT"
| confirm: "stage_step REQUESTED_INIT Writable SENT_INIT_CONFIRMATION"
| finish: "stage_step SENT_INIT_CONFIRMATION (Received (get_action INIT_DONE)) INIT_DONE_STATE"
| quit: "stage_step n (Received (get_action CL_DISCONNECTED)) DISCONNECT_STATE"
| hangup: "stage_step n Eof DISCONNECT_STATE"
| ignore: "\<lbrakk>a \<noteq> get_action CL_DISCONNECTED; n = INITIAL_STATE \<longrightarrow> a \<noteq> get_action INIT_REQ;
     n = SENT_INIT_CONFIRMATION \<longrightarrow> a \<noteq> get_action INIT_DONE\<rbrakk> \<Longrightarrow> stage_step n (Received a) n"
| flush: "n \<noteq> REQUESTED_INIT \<Longrightarrow> stage_step n Writable n"

inductive_cases stage_stepE: "stage_step n e n'"

inductive stage_reach :: "int \<Rightarrow> bool" where
  start: "stage_reach INITIAL_STATE"
| step: "stage_reach n \<Longrightarrow> stage_step n e n' \<Longrightarrow> stage_reach n'"

lemma stage_reach_range: "stage_reach n \<Longrightarrow> n \<in> {DISCONNECT_STATE, INITIAL_STATE, REQUESTED_INIT,
    SENT_INIT_CONFIRMATION, INIT_DONE_STATE}"
  by (induction rule: stage_reach.induct) (auto elim!: stage_stepE)

lemma stage_disconnect_final: "stage_step DISCONNECT_STATE e n \<Longrightarrow> n = DISCONNECT_STATE"
  by (auto elim!: stage_stepE simp: state_constants)

lemma stage_step_up: "stage_step n e n' \<Longrightarrow> n' = DISCONNECT_STATE \<or> n' = n \<or> n' = n + 1"
  by (auto elim!: stage_stepE simp: state_constants)

subsection \<open>The code takes steps of the machine\<close>

text \<open>The stage of the client in slot \<open>i\<close>.\<close>

definition stage_at :: "nat \<Rightarrow> ('q, 'z) server_state_scheme \<Rightarrow> int option" where
  "stage_at i s = (if i < length (clients s) then map_option cd_init_state (clients s ! i) else None)"

lemma stage_at_put: "i < length (clients s) \<Longrightarrow> stage_at i (put_client i c s) = Some (cd_init_state c)"
  by (simp add: stage_at_def)

lemma send_clients [simp]: "clients (snd (server_send_msg os m cid s)) = clients s"
  by (auto simp: server_send_msg_def call_send_def Let_def split: sum.splits)

lemma write_one_clients [simp]: "clients (snd (write_one os fd err s)) = clients s"
  by (simp add: write_one_def call_write_evfd_def Let_def)

lemma worker_push_clients [simp]: "clients (snd (worker_push os Q m fd s)) = clients s"
  by (auto simp: worker_push_def write_one_clients Let_def split: sum.splits)

lemma stage_at_cong: "clients t = clients s \<Longrightarrow> stage_at i t = stage_at i s"
  by (simp add: stage_at_def)

lemma stage_at_calls [simp]:
  "stage_at i (snd (server_send_msg os m cid s)) = stage_at i s"
  "stage_at i (emit_print x s) = stage_at i s"
  "stage_at i (snd (worker_push os Q msg fd t)) = stage_at i t"
  by (simp_all add: stage_at_def)

lemma bindE_clients:
  assumes "clients (snd r) = cs" "\<And>a s. r = (Inr a, s) \<Longrightarrow> clients s = cs \<Longrightarrow> clients (snd (f a s)) = cs"
  shows "clients (snd (bindE r f)) = cs"
  using assms by (rule bindE_preserves)

lemma drain_keeps_stage:
  "stage_at j (snd (drain_send_queue n os Q i s)) = stage_at j s"
proof (induction n arbitrary: s)
  case (Suc n)
  show ?case
  proof (cases "deref i s")
    case (Inr c)
    then have i: "i < length (clients s)" "clients s ! i = Some c" by (auto dest: deref_InrD)
    have put: "stage_at j (put_client i (c\<lparr>cd_send_queue := q\<rparr>) s) = stage_at j s" for q
      using i by (cases "j = i") (auto simp: stage_at_def)
    show ?thesis
    proof (cases "queue_pop Q (cd_send_queue c)")
      case r: (Inr r)
      obtain x q where xq: "r = (x, q)" by (cases r)
      show ?thesis
      proof (cases x)
        case (Some m)
        let ?r = "server_send_msg os m (cd_personal_id c) (put_client i (c\<lparr>cd_send_queue := q\<rparr>) s)"
        have "stage_at j (snd (bindE ?r (\<lambda>_ t. drain_send_queue n os Q i t))) = stage_at j s"
          by (rule bindE_preserves) (simp_all add: put Suc.IH)
        with Inr r xq Some show ?thesis by simp
      qed (use Inr r xq put in simp)
    qed (use Inr in simp)
  qed simp
qed simp

lemma output_takes_stage_step:
  assumes "stage_at i s = Some n"
  shows "\<exists>n'. stage_step n Writable n' \<and> stage_at i (snd (process_output os Q msg i s)) = Some n'"
proof -
  obtain c where c: "i < length (clients s)" "clients s ! i = Some c" "cd_init_state c = n"
    using assms by (auto simp: stage_at_def split: if_splits)
  show ?thesis
  proof (cases "n = REQUESTED_INIT")
    case True
    let ?t = "put_client i (inc_state c) s"
    have "clients (snd (process_output os Q msg i s)) = clients ?t"
      using c True by (auto simp: process_output_def get_state_def Let_def intro!: bindE_clients)
    then have "stage_at i (snd (process_output os Q msg i s)) = Some (n + 1)"
      using c by (simp add: stage_at_def)
    with True stage_step.confirm show ?thesis by (auto simp: state_constants)
  next
    case False
    then have "stage_at i (snd (process_output os Q msg i s)) = Some n"
      using c assms drain_keeps_stage [of i drain_fuel os Q i s]
      by (cases "drain_send_queue drain_fuel os Q i s")
        (auto simp: process_output_def get_state_def bindE_def split: sum.splits)
    with stage_step.flush [OF False] show ?thesis by blast
  qed
qed

text \<open>What a received message makes of a client's record, whatever becomes of the sends.\<close>

definition after_input :: "server_message \<Rightarrow> 'q client_data \<Rightarrow> 'q client_data" where
  "after_input msg c =
     (if sm_action msg = get_action CL_DISCONNECTED then set_state DISCONNECT_STATE c
      else if cd_init_state c = INITIAL_STATE \<and> sm_action msg = get_action INIT_REQ
        then (inc_state c)\<lparr>cd_name := sm_name msg\<rparr>
      else if cd_init_state c = SENT_INIT_CONFIRMATION \<and> sm_action msg = get_action INIT_DONE
        then inc_state c
      else c)"

lemma input_clients:
  assumes "i < length (clients s)" "clients s ! i = Some c"
  shows "clients (snd (process_input os Q msg i levfd s)) = (clients s)[i := Some (after_input msg c)]"
  using assms list_update_id [of "clients s" i]
  by (auto simp: process_input_def get_state_def Let_def after_input_def state_constants
      intro!: bindE_clients)

lemma input_takes_stage_step:
  assumes "stage_at i s = Some n"
  shows "\<exists>n'. stage_step n (Received (sm_action msg)) n' \<and>
     stage_at i (snd (process_input os Q msg i levfd s)) = Some n'"
proof -
  obtain c where c: "i < length (clients s)" "clients s ! i = Some c" "cd_init_state c = n"
    using assms by (auto simp: stage_at_def split: if_splits)
  have "stage_step n (Received (sm_action msg)) (cd_init_state (after_input msg c))"
    using c(3) stage_step.request stage_step.finish stage_step.quit [of n] stage_step.ignore [of "sm_action msg" n]
    by (auto simp: after_input_def state_constants)
  moreover have "stage_at i (snd (process_input os Q msg i levfd s)) = Some (cd_init_state (after_input msg c))"
    using input_clients [OF c(1,2)] c(1) by (simp add: stage_at_def)
  ultimately show ?thesis by blast
qed

subsection \<open>The calls that succeed\<close>

lemma send_ok:
  assumes "get_client_ref cid s = Some i" "clients s ! i = Some c" "0 \<le> sv_socket s" "0 \<le> cd_fd c"
    "0 \<le> sys_send os (hist s) (cd_fd c) m"
  shows "server_send_msg os m cid s = (Inr (), emit (Ev_send (cd_fd c) m (sys_send os (hist s) (cd_fd c) m)) s)"
proof -
  have "i < length (clients s)" using get_client_ref_SomeD [OF assms(1)] by simp
  with assms show ?thesis
    by (simp add: server_send_msg_def get_selected_client_fd_def call_send_def Let_def)
qed

lemma get_client_ref_put:
  assumes "i < length (clients s)" "clients s ! i = Some c" "cd_personal_id d = cd_personal_id c"
  shows "get_client_ref j (put_client i d s) = get_client_ref j s"
  using assms unfolding get_client_ref_def put_server_simps
  by (intro find_index_update) (simp_all add: has_id_def)

lemma get_client_ref_calls [simp]:
  "get_client_ref j (emit e s) = get_client_ref j s" "get_client_ref j (emit_print x s) = get_client_ref j s"
  by (simp_all add: get_client_ref_def)

lemma put_put [simp]: "put_client i d (put_client i c s) = put_client i d s"
  by (simp add: put_client_def)

lemma put_emit: "put_client i d (emit e s) = emit e (put_client i d s)"
  by (simp add: put_client_def emit_def)

context server_queue
begin

lemma worker_push_ok:
  assumes "inv (q_worker_to_listener s)" "length (items (q_worker_to_listener s)) < QUEUE_SIZE"
    "evfd_spec os" "0 \<le> fd"
  shows "\<exists>q. worker_push os Q m fd s =
      (Inr (), emit (Ev_write_evfd fd event_size) (s\<lparr>q_worker_to_listener := q\<rparr>)) \<and> inv q \<and>
      items q = items (q_worker_to_listener s) @ [get_concatenated_msg m]"
proof -
  obtain q where "queue_push Q (get_concatenated_msg m) (q_worker_to_listener s) = Inr (True, q)" "inv q"
    "items q = items (q_worker_to_listener s) @ [get_concatenated_msg m]"
    using assms(2) by (cases rule: push_cases [OF assms(1), of "get_concatenated_msg m"]) auto
  with assms(3,4) show ?thesis
    by (intro exI [of _ q]) (simp add: worker_push_def write_one_ok)
qed

lemma finish_outcome:
  assumes c: "get_client_ref (cd_personal_id c) s = Some i" "clients s ! i = Some c"
      "cd_init_state c = SENT_INIT_CONFIRMATION"
    and msg: "sm_action msg = get_action INIT_DONE"
    and os: "0 \<le> sv_socket s" "0 \<le> cd_fd c" "\<And>h m. 0 \<le> sys_send os h (cd_fd c) m" "evfd_spec os" "0 \<le> levfd"
    and q: "inv (q_worker_to_listener s)" "length (items (q_worker_to_listener s)) < QUEUE_SIZE"
  shows "\<exists>t r x. process_input os Q msg i levfd s = (Inr empty_message, t) \<and>
    clients t = (clients s)[i := Some (inc_state c)] \<and>
    hist t = hist s @ [Ev_print x, Ev_send (cd_fd c) (get_concatenated_msg (welcome_message (inc_state c) msg)) r,
      Ev_write_evfd levfd event_size] \<and>
    inv (q_worker_to_listener t) \<and> items (q_worker_to_listener t) = items (q_worker_to_listener s)
      @ [get_concatenated_msg (joined_message (inc_state c) (welcome_message (inc_state c) msg))]"
proof -
  have i: "i < length (clients s)" using get_client_ref_SomeD [OF c(1)] by simp
  let ?c = "inc_state c"
  let ?w = "welcome_message ?c msg"
  let ?p = "Cout (ln (''Client ID:'' @ to_string (cd_personal_id ?c) @ '' Name: '' @ cd_name ?c @ '' has connected!''))"
  let ?s = "emit_print ?p (put_client i ?c s)"
  let ?r = "sys_send os (hist ?s) (cd_fd c) (get_concatenated_msg ?w)"
  let ?u = "emit (Ev_send (cd_fd c) (get_concatenated_msg ?w) ?r) ?s"
  have send: "server_send_msg os (get_concatenated_msg ?w) (cd_personal_id ?c) ?s = (Inr (), ?u)"
    using send_ok [of "cd_personal_id c" ?s i ?c os] c i os by (simp add: get_client_ref_put)
  have "inv (q_worker_to_listener ?u)" "length (items (q_worker_to_listener ?u)) < QUEUE_SIZE" using q by simp_all
  from worker_push_ok [OF this os(4,5), of "joined_message ?c ?w"] obtain q' where
    q': "worker_push os Q (joined_message ?c ?w) levfd ?u =
      (Inr (), emit (Ev_write_evfd levfd event_size) (?u\<lparr>q_worker_to_listener := q'\<rparr>))" "inv q'"
    "items q' = items (q_worker_to_listener s) @ [get_concatenated_msg (joined_message ?c ?w)]" by auto
  have same: "put_client i c s = s" using c(2) i list_update_id [of "clients s" i] by (simp add: put_client_def)
  have "process_input os Q msg i levfd s =
      (Inr empty_message, emit (Ev_write_evfd levfd event_size) (?u\<lparr>q_worker_to_listener := q'\<rparr>))"
    using i c msg send q'(1) same
    by (simp add: process_input_def get_state_def Let_def reset_msg_empty state_constants)
  then show ?thesis using q'(2,3)
    by (intro exI [of _ "emit (Ev_write_evfd levfd event_size) (?u\<lparr>q_worker_to_listener := q'\<rparr>)"]) auto
qed

end

subsection \<open>Properties of the handshake\<close>

lemma output_other_stages:
  assumes "j \<noteq> i"
  shows "stage_at j (snd (process_output os Q msg i s)) = stage_at j s"
proof (cases "deref i s")
  case (Inr c)
  have put: "stage_at j (put_client i d s) = stage_at j s" for d using assms by (simp add: stage_at_def)
  show ?thesis
    using Inr drain_keeps_stage [of j drain_fuel os Q i s]
    by (auto simp: process_output_def Let_def put intro!: bindE_preserves [where P = "\<lambda>t. stage_at j t = stage_at j s"])
qed (simp add: process_output_def)

definition event_of :: "bool \<Rightarrow> server_message \<Rightarrow> stage_event" where
  "event_of is_input msg = (if is_input then Received (sm_action msg) else Writable)"

lemma client_state_takes_step:
  assumes "stage_at i s = Some n"
  shows "\<exists>n'. stage_step n (event_of is_input msg) n' \<and>
    stage_at i (snd (process_client_state os Q is_input msg (Some i) levfd s)) = Some n'"
  using input_takes_stage_step [OF assms] output_takes_stage_step [OF assms]
  by (cases is_input) (simp_all add: process_client_state_def event_of_def)

text \<open>Whatever message a client sends and whatever the system calls answer, one call of
  \<open>process_client_state\<close> moves the client along the protocol or not at all: from the initial
  state to the requested one on an \<open>INIT_REQ\<close>, to the confirmed one when its socket is
  writable, to the final one on an \<open>INIT_DONE\<close>, to the disconnect state on a \<open>CL_DISCONNECTED\<close>;
  the stages of all other clients stay.\<close>

theorem client_stages_follow_protocol:
  assumes "stage_at i s = Some n"
  shows "(\<exists>n'. stage_step n (event_of is_input msg) n' \<and>
      stage_at i (snd (process_client_state os Q is_input msg (Some i) levfd s)) = Some n') \<and>
    (\<forall>j. j \<noteq> i \<longrightarrow> stage_at j (snd (process_client_state os Q is_input msg (Some i) levfd s)) = stage_at j s)"
proof -
  obtain c where "i < length (clients s)" "clients s ! i = Some c"
    using assms by (auto simp: stage_at_def split: if_splits)
  from input_clients [OF this] have "j \<noteq> i \<Longrightarrow>
      stage_at j (snd (process_input os Q msg i levfd s)) = stage_at j s" for j
    by (simp add: stage_at_def)
  then show ?thesis
    using client_state_takes_step [OF assms, of is_input msg os Q levfd] output_other_stages [of _ i os Q msg s]
    by (cases is_input) (auto simp: process_client_state_def)
qed

lemma busy_server_stage: "stage_at 0 (busy_server [4, 7] msgs h) = Some INIT_DONE_STATE"
  by (simp add: stage_at_def busy_server_def table_with_def table_client_def)

theorem client_stages_follow_protocol_witness:
  "\<exists>n'. stage_step INIT_DONE_STATE (event_of True (empty_message\<lparr>sm_action := ''CL_DISCONNECTED''\<rparr>)) n' \<and>
     stage_at 0 (snd (process_client_state quiet_os (string_queue_ops (\<lambda>s. s)) True
       (empty_message\<lparr>sm_action := ''CL_DISCONNECTED''\<rparr>) (Some 0) 5 (busy_server [4, 7] [] []))) = Some n'"
  using client_stages_follow_protocol [OF busy_server_stage] by blast

text \<open>The worker serving one client: a list of received messages and writable sockets.\<close>

fun client_run ::
  "os \<Rightarrow> 'q queue_ops \<Rightarrow> nat \<Rightarrow> int \<Rightarrow> (bool \<times> server_message) list \<Rightarrow>
   ('q, 'z) manager_state_scheme \<Rightarrow> ('q, 'z) manager_state_scheme" where
  "client_run os Q i levfd [] s = s"
| "client_run os Q i levfd ((is_input, msg) # es) s =
     client_run os Q i levfd es (snd (process_client_state os Q is_input msg (Some i) levfd s))"

definition handshake_events :: "stage_event list" where
  "handshake_events = [Received (get_action INIT_REQ), Writable, Received (get_action INIT_DONE)]"

lemma client_run_disconnected:
  assumes "stage_at i s = Some DISCONNECT_STATE"
  shows "stage_at i (client_run os Q i levfd es s) = Some DISCONNECT_STATE"
  using assms
proof (induction es arbitrary: s)
  case (Cons e es)
  with client_state_takes_step [of i s DISCONNECT_STATE "fst e" "snd e" os Q levfd] stage_disconnect_final
  show ?case by (cases e) auto
qed simp

lemma client_run_pattern:
  assumes "stage_at i s = Some n" "0 \<le> n"
    "stage_at i (client_run os Q i levfd es s) = Some INIT_DONE_STATE"
  shows "subseq (drop (nat n) handshake_events) (map (\<lambda>(b, m). event_of b m) es)"
  using assms
proof (induction es arbitrary: s n)
  case Nil
  then show ?case by (simp add: handshake_events_def state_constants)
next
  case (Cons e es)
  obtain b m where e: "e = (b, m)" by (cases e)
  let ?t = "snd (process_client_state os Q b m (Some i) levfd s)"
  obtain n' where n': "stage_step n (event_of b m) n'" "stage_at i ?t = Some n'"
    using client_state_takes_step [OF Cons.prems(1)] by blast
  have end_stage: "stage_at i (client_run os Q i levfd es ?t) = Some INIT_DONE_STATE"
    using Cons.prems(3) e by simp
  then have "n' \<noteq> DISCONNECT_STATE"
    using client_run_disconnected [of i ?t os Q levfd es] n'(2) by (auto simp: state_constants)
  with n'(1) Cons.prems(2) have pos: "0 \<le> n'" by (auto elim!: stage_stepE simp: state_constants)
  from Cons.IH [OF n'(2) pos end_stage]
  have IH: "subseq (drop (nat n') handshake_events) (map (\<lambda>(b, m). event_of b m) es)" .
  show ?case using n'(1) IH Cons.prems(2) \<open>n' \<noteq> DISCONNECT_STATE\<close> unfolding e
    by (cases rule: stage_step.cases) (auto simp: state_constants handshake_events_def)
qed

text \<open>C11: a client that started in the initial state and is now allowed to chat has gone
  through the whole handshake: among what happened to it are, in this order, an \<open>INIT_REQ\<close>
  from it, a writable socket, and an \<open>INIT_DONE\<close> from it.\<close>

theorem chat_requires_handshake:
  assumes "stage_at i s = Some INITIAL_STATE"
    and "stage_at i (client_run os Q i levfd es s) = Some INIT_DONE_STATE"
  shows "subseq [Received (get_action INIT_REQ), Writable, Received (get_action INIT_DONE)]
     (map (\<lambda>(b, m). event_of b m) es)"
  using client_run_pattern [OF assms(1) _ assms(2)]
  by (simp add: handshake_events_def state_constants)

definition fresh_client_server :: "string list manager_state" where
  "fresh_client_server = (manager_start list_queue [])\<lparr>sv_socket := 3, nr_of_connections := 1,
     clients := Some ((table_client list_queue 4)\<lparr>cd_init_state := INITIAL_STATE\<rparr>) # replicate 5 None,
     client_data_id := 20\<rparr>"

lemmas client_step_defs = process_client_state_def process_input_def process_output_def get_state_def
  server_send_msg_def get_selected_client_fd_def get_client_ref_def deref_def call_send_def worker_push_def
  queue_push_def write_one_def call_write_evfd_def state_constants Let_def

theorem chat_requires_handshake_witness:
  "subseq [Received ''INIT_REQ'', Writable, Received ''INIT_DONE'']
     (map (\<lambda>(b, m). event_of b m)
       [(True, empty_message\<lparr>sm_action := ''INIT_REQ'', sm_name := ''ann''\<rparr>), (False, empty_message),
        (True, empty_message\<lparr>sm_action := ''INIT_DONE''\<rparr>)])"
proof -
  have "stage_at 0 (client_run quiet_os list_queue 0 5
       [(True, empty_message\<lparr>sm_action := ''INIT_REQ'', sm_name := ''ann''\<rparr>), (False, empty_message),
        (True, empty_message\<lparr>sm_action := ''INIT_DONE''\<rparr>)] fresh_client_server) = Some INIT_DONE_STATE"
    by (simp add: client_step_defs fresh_client_server_def table_client_def stage_at_def quiet_os_def
        list_queue_def event_size_def)
  moreover have "stage_at 0 fresh_client_server = Some INITIAL_STATE"
    by (simp add: fresh_client_server_def stage_at_def table_client_def)
  ultimately show ?thesis using chat_requires_handshake [of 0 fresh_client_server] by fastforce
qed

lemma w2l_calls [simp]:
  "q_worker_to_listener (snd (server_send_msg os m cid s)) = q_worker_to_listener s"
  "q_worker_to_listener (snd (drain_send_queue n os Q i s)) = q_worker_to_listener s"
proof -
  show send: "q_worker_to_listener (snd (server_send_msg os m cid s)) = q_worker_to_listener s" for m cid s
    by (auto simp: server_send_msg_def call_send_def Let_def split: sum.splits)
  show "q_worker_to_listener (snd (drain_send_queue n os Q i s)) = q_worker_to_listener s"
  proof (induction n arbitrary: s)
    case (Suc n)
    then show ?case
      by (auto simp: send liftE_def split: sum.splits option.splits
          intro!: bindE_preserves [where P = "\<lambda>t. q_worker_to_listener t = q_worker_to_listener s"])
  qed simp
qed

text \<open>Nothing a client does before its handshake is over reaches the listener, and so the
  other clients: only the message that ends the handshake and, after it, chat lines are put
  on the listener's queue; messages with any other action never are.\<close>

theorem no_chat_before_handshake:
  assumes "stage_at i s = Some n"
    and "\<not> (is_input \<and> n = SENT_INIT_CONFIRMATION \<and> sm_action msg = get_action INIT_DONE)"
    and "\<not> (is_input \<and> n = INIT_DONE_STATE \<and> sm_action msg = get_action UNICAST_REPEATED)"
  shows "q_worker_to_listener (snd (process_client_state os Q is_input msg (Some i) levfd s))
     = q_worker_to_listener s"
proof -
  obtain c where c: "i < length (clients s)" "clients s ! i = Some c" "cd_init_state c = n"
    using assms(1) by (auto simp: stage_at_def split: if_splits)
  show ?thesis
  proof (cases is_input)
    case True
    with c assms(2,3) show ?thesis
      by (auto simp: process_client_state_def process_input_def get_state_def Let_def state_constants)
  next
    case False
    with c show ?thesis
      by (auto simp: process_client_state_def process_output_def get_state_def Let_def
          intro!: bindE_preserves [where P = "\<lambda>t. q_worker_to_listener t = q_worker_to_listener s"])
  qed
qed

theorem no_chat_before_handshake_witness:
  "q_worker_to_listener (snd (process_client_state quiet_os list_queue True sample_chat (Some 0) 5
     fresh_client_server)) = []"
  by (subst no_chat_before_handshake [where n = INITIAL_STATE])
    (simp_all add: stage_at_def fresh_client_server_def table_client_def state_constants list_queue_def)

subsection \<open>The handshake completes\<close>

lemma request_outcome:
  assumes "i < length (clients s)" "clients s ! i = Some c" "cd_init_state c = INITIAL_STATE"
    "sm_action msg = get_action INIT_REQ"
  shows "process_input os Q msg i levfd s =
     (Inr empty_message, put_client i ((inc_state c)\<lparr>cd_name := sm_name msg\<rparr>) s)"
  using assms by (simp add: process_input_def get_state_def reset_msg_empty Let_def)

lemma confirm_outcome:
  assumes c: "get_client_ref (cd_personal_id c) s = Some i" "clients s ! i = Some c"
    "cd_init_state c = REQUESTED_INIT"
    and os: "0 \<le> sv_socket s" "0 \<le> cd_fd c" "\<And>h m. 0 \<le> sys_send os h (cd_fd c) m"
  shows "\<exists>r. process_output os Q msg i s = (Inr (confirm_message c msg),
     emit (Ev_send (cd_fd c) (get_concatenated_msg (confirm_message c msg)) r) (put_client i (inc_state c) s))"
proof -
  have i: "i < length (clients s)" using get_client_ref_SomeD [OF c(1)] by simp
  have m: "confirm_message (inc_state c) msg = confirm_message c msg" by (simp add: confirm_message_def)
  show ?thesis
    using i c os send_ok [of "cd_personal_id c" "put_client i (inc_state c) s" i "inc_state c" os]
    by (auto simp: process_output_def get_state_def Let_def get_client_ref_put m)
qed

definition chatting_as :: "server_message \<Rightarrow> 'q client_data \<Rightarrow> 'q client_data" where
  "chatting_as req c = c\<lparr>cd_name := sm_name req, cd_init_state := INIT_DONE_STATE\<rparr>"

lemma handshake_steps:
  fixes s :: "(string state_cells queue_common, 'z) manager_state_scheme"
  assumes c: "get_client_ref (cd_personal_id c) s = Some i" "clients s ! i = Some c"
      "cd_init_state c = INITIAL_STATE"
    and msgs: "sm_action req = get_action INIT_REQ" "sm_action fin = get_action INIT_DONE"
    and os: "0 \<le> sv_socket s" "0 \<le> cd_fd c" "\<And>h m. 0 \<le> sys_send os h (cd_fd c) m" "evfd_spec os" "0 \<le> levfd"
    and q: "string_queue_inv (q_worker_to_listener s)"
      "length (string_queue_items (q_worker_to_listener s)) < QUEUE_SIZE"
  shows "\<exists>m s1 s2 t r1 r2 x. process_input os (string_queue_ops mv) req i levfd s = (Inr empty_message, s1) \<and>
    process_output os (string_queue_ops mv) empty_message i s1 = (Inr m, s2) \<and>
    process_input os (string_queue_ops mv) fin i levfd s2 = (Inr empty_message, t) \<and>
    clients t = (clients s)[i := Some (chatting_as req c)] \<and>
    hist s2 = hist s @ [Ev_send (cd_fd c) (get_concatenated_msg (confirm_message (chatting_as req c) empty_message)) r1] \<and>
    hist t = hist s2 @ [Ev_print x, Ev_send (cd_fd c) (get_concatenated_msg (welcome_message (chatting_as req c) fin)) r2,
      Ev_write_evfd levfd event_size] \<and>
    string_queue_items (q_worker_to_listener t) = string_queue_items (q_worker_to_listener s)
      @ [get_concatenated_msg (joined_message (chatting_as req c) (welcome_message (chatting_as req c) fin))]"
proof -
  let ?Q = "string_queue_ops mv" and ?d = "chatting_as req c"
  have i: "i < length (clients s)" using get_client_ref_SomeD [OF c(1)] by simp
  define c1 where "c1 = (inc_state c)\<lparr>cd_name := sm_name req\<rparr>"
  let ?s1 = "put_client i c1 s"
  have c1: "get_client_ref (cd_personal_id c1) ?s1 = Some i" "clients ?s1 ! i = Some c1"
    "cd_init_state c1 = REQUESTED_INIT"
    using c i by (simp_all add: c1_def get_client_ref_put state_constants)
  obtain r1 where r1: "process_output os ?Q empty_message i ?s1 = (Inr (confirm_message c1 empty_message),
     emit (Ev_send (cd_fd c) (get_concatenated_msg (confirm_message c1 empty_message)) r1) (put_client i (inc_state c1) ?s1))"
    using confirm_outcome [OF c1, of os ?Q empty_message] os by (auto simp: c1_def)
  define u where "u = emit (Ev_send (cd_fd c) (get_concatenated_msg (confirm_message c1 empty_message)) r1)
      (put_client i (inc_state c1) s)"
  have c2: "get_client_ref (cd_personal_id (inc_state c1)) u = Some i" "clients u ! i = Some (inc_state c1)"
    "cd_init_state (inc_state c1) = SENT_INIT_CONFIRMATION"
    using c i by (simp_all add: u_def c1_def get_client_ref_put state_constants)
  have d: "inc_state (inc_state c1) = ?d" using c(3) by (simp add: chatting_as_def c1_def inc_state_def state_constants)
  have fd: "cd_fd (inc_state c1) = cd_fd c" by (simp add: c1_def)
  have u: "0 \<le> sv_socket u" "0 \<le> cd_fd (inc_state c1)" "\<And>h m. 0 \<le> sys_send os h (cd_fd (inc_state c1)) m"
    "string_queue_inv (q_worker_to_listener u)" "length (string_queue_items (q_worker_to_listener u)) < QUEUE_SIZE"
    using os q by (simp_all add: u_def c1_def)
  obtain t r x where t: "process_input os ?Q fin i levfd u = (Inr empty_message, t)"
    "clients t = (clients u)[i := Some ?d]" "hist t = hist u @ [Ev_print x,
      Ev_send (cd_fd c) (get_concatenated_msg (welcome_message ?d fin)) r, Ev_write_evfd levfd event_size]"
    "string_queue_items (q_worker_to_listener t) = string_queue_items (q_worker_to_listener u)
      @ [get_concatenated_msg (joined_message ?d (welcome_message ?d fin))]"
    using srv.finish_outcome [OF c2 msgs(2) u(1-3) os(4,5) u(4,5), of mv] unfolding d fd by blast
  have "confirm_message c1 empty_message = confirm_message ?d empty_message"
    by (simp add: confirm_message_def c1_def chatting_as_def)
  moreover have "process_input os ?Q req i levfd s = (Inr empty_message, ?s1)"
    using request_outcome [OF i c(2,3) msgs(1)] by (simp add: c1_def)
  ultimately show ?thesis
    using r1 t by (auto simp: u_def)
qed

text \<open>A client in the initial state that sends \<open>INIT_REQ\<close>, is found writable and sends
  \<open>INIT_DONE\<close> ends in the chatting state under the name it asked for. On the way it is sent
  a confirmation with its id, colour and name and then a greeting, and the listener gets one
  announcement and one wake-up.\<close>

theorem handshake_completes:
  fixes s :: "(string state_cells queue_common, 'z) manager_state_scheme"
  assumes c: "get_client_ref (cd_personal_id c) s = Some i" "clients s ! i = Some c"
      "cd_init_state c = INITIAL_STATE"
    and msgs: "sm_action req = get_action INIT_REQ" "sm_action fin = get_action INIT_DONE"
    and os: "0 \<le> sv_socket s" "0 \<le> cd_fd c" "\<And>h m. 0 \<le> sys_send os h (cd_fd c) m" "evfd_spec os" "0 \<le> levfd"
    and q: "string_queue_inv (q_worker_to_listener s)"
      "length (string_queue_items (q_worker_to_listener s)) < QUEUE_SIZE"
  shows "\<exists>t r1 r2 x. bindE (process_client_state os (string_queue_ops mv) True req (Some i) levfd s) (\<lambda>m s.
      bindE (process_client_state os (string_queue_ops mv) False m (Some i) levfd s) (\<lambda>_ s.
        process_client_state os (string_queue_ops mv) True fin (Some i) levfd s)) = (Inr empty_message, t) \<and>
    clients t = (clients s)[i := Some (chatting_as req c)] \<and>
    hist t = hist s @ [Ev_send (cd_fd c) (get_concatenated_msg (confirm_message (chatting_as req c) empty_message)) r1,
      Ev_print x, Ev_send (cd_fd c) (get_concatenated_msg (welcome_message (chatting_as req c) fin)) r2,
      Ev_write_evfd levfd event_size] \<and>
    string_queue_items (q_worker_to_listener t) = string_queue_items (q_worker_to_listener s)
      @ [get_concatenated_msg (joined_message (chatting_as req c) (welcome_message (chatting_as req c) fin))]"
  using handshake_steps [OF assms, of mv] by (auto simp: process_client_state_def)

definition fresh_string_server :: "string state_cells queue_common manager_state" where
  "fresh_string_server = (manager_start (string_queue_ops (\<lambda>s. s)) [])\<lparr>sv_socket := 3,
     nr_of_connections := 1, clients := Some ((table_client (string_queue_ops (\<lambda>s. s)) 4)
       \<lparr>cd_init_state := INITIAL_STATE\<rparr>) # replicate 5 None, client_data_id := 20\<rparr>"

theorem handshake_completes_witness:
  "\<exists>t. bindE (process_client_state quiet_os (string_queue_ops (\<lambda>s. s)) True
        (empty_message\<lparr>sm_action := ''INIT_REQ'', sm_name := ''ann''\<rparr>) (Some 0) 5 fresh_string_server) (\<lambda>m s.
      bindE (process_client_state quiet_os (string_queue_ops (\<lambda>s. s)) False m (Some 0) 5 s) (\<lambda>_ s.
        process_client_state quiet_os (string_queue_ops (\<lambda>s. s)) True
          (empty_message\<lparr>sm_action := ''INIT_DONE''\<rparr>) (Some 0) 5 s)) = (Inr empty_message, t) \<and>
    stage_at 0 t = Some INIT_DONE_STATE"
proof -
  let ?c = "(table_client (string_queue_ops (\<lambda>s. s)) 4)\<lparr>cd_init_state := INITIAL_STATE\<rparr>"
  have c: "get_client_ref (cd_personal_id ?c) fresh_string_server = Some 0"
    "clients fresh_string_server ! 0 = Some ?c" "cd_init_state ?c = INITIAL_STATE"
    "0 < length (clients fresh_string_server)"
    by (simp_all add: fresh_string_server_def get_client_ref_def table_client_def)
  show ?thesis
    using handshake_completes [OF c(1-3), of "empty_message\<lparr>sm_action := ''INIT_REQ'', sm_name := ''ann''\<rparr>"
        "empty_message\<lparr>sm_action := ''INIT_DONE''\<rparr>" quiet_os 5 "\<lambda>s. s"] quiet_send quiet_os_specs(2) c(4)
    by (auto simp: fresh_string_server_def table_client_def new_string_queue_inv new_string_queue_items stage_at_def
        chatting_as_def)
qed

end
