(* ===== verification/End_To_End.thy ===== *)
theory End_To_End
  imports Client_Session Handshake
begin

text \<open>
  The parts together: what a worker does with a chat line it reads, and the way of a line from
  one client's keyboard through the server to another client's screen.
\<close>

subsection \<open>A worker reads a chat line\<close>

context server_queue
begin

lemma chat_input_outcome:
  assumes c: "i < length (clients s)" "clients s ! i = Some c" "cd_init_state c = INIT_DONE_STATE"
    and msg: "sm_action msg = get_action UNICAST_REPEATED"
    and q: "inv (q_worker_to_listener s)" "length (items (q_worker_to_listener s)) < QUEUE_SIZE"
    and os: "evfd_spec os" "0 \<le> levfd"
  shows "\<exists>q x. process_input os Q msg i levfd s =
      (Inr empty_message, emit (Ev_write_evfd levfd event_size) ((emit_print x s)\<lparr>q_worker_to_listener := q\<rparr>)) \<and>
    inv q \<and> items q = items (q_worker_to_listener s) @ [get_concatenated_msg msg]"
proof -
  let ?x = "Cout (ln ''RECEIVED MSG ON SV!'')"
  have "inv (q_worker_to_listener (emit_print ?x s))" "length (items (q_worker_to_listener (emit_print ?x s))) < QUEUE_SIZE"
    using q by simp_all
  from worker_push_ok [OF this os, of msg] obtain q where q': "worker_push os Q msg levfd (emit_print ?x s) =
      (Inr (), emit (Ev_write_evfd levfd event_size) ((emit_print ?x s)\<lparr>q_worker_to_listener := q\<rparr>))" "inv q"
    "items q = items (q_worker_to_listener s) @ [get_concatenated_msg msg]" by auto
  have "put_client i c s = s" using c(1,2) list_update_id [of "clients s" i] by (simp add: put_client_def)
  then have "process_input os Q msg i levfd s =
      (Inr empty_message, emit (Ev_write_evfd levfd event_size) ((emit_print ?x s)\<lparr>q_worker_to_listener := q\<rparr>))"
    using c msg q'(1) by (simp add: process_input_def get_state_def Let_def reset_msg_empty state_constants)
  with q'(2,3) show ?thesis by blast
qed

lemma chat_line_read:
  assumes c: "get_client_ref cid s = Some i" "clients s ! i = Some c" "cd_init_state c = INIT_DONE_STATE"
      "0 \<le> sv_socket s" "0 \<le> cd_fd c"
    and ev: "check_event (wk_em w) (cd_fd c) EPOLLIN ret = Inr True" "check_event (wk_em w) (cd_fd c) EPOLLOUT ret = Inr False"
    and f: "frame_wf f" "wk_frame w = clear_msg f"
    and rcv: "sys_recv os (hist s) (cd_fd c) (int MAX_LEN) = (int (length (get_concatenated_msg m)), get_concatenated_msg m, e)"
    and m: "sendable m" "CHR 0x00 \<notin> set (get_concatenated_msg m)" "length (get_concatenated_msg m) < MAX_LEN"
      "sm_action m = get_action UNICAST_REPEATED"
    and q: "inv (q_worker_to_listener s)" "length (items (q_worker_to_listener s)) < QUEUE_SIZE"
    and os: "evfd_spec os" "0 \<le> wk_listener_evfd w"
  shows "\<exists>t. client_events os Q ret (cd_fd c, cid) w s = (Inr (w\<lparr>wk_frame := clear_msg f, wk_msg := empty_message\<rparr>), t) \<and>
    same_table s t \<and> sv_socket t = sv_socket s \<and> 0 < evfd_count (hist t) (wk_listener_evfd w) \<and>
    inv (q_worker_to_listener t) \<and> items (q_worker_to_listener t) = items (q_worker_to_listener s) @ [get_concatenated_msg m]"
proof -
  let ?b = "get_concatenated_msg m"
  let ?s = "emit (Ev_recv (cd_fd c) (int (length ?b))) s"
  have i: "i < length (clients s)" using get_client_ref_SomeD [OF c(1)] by simp
  have len: "mf_msg_len (clear_msg f) = 512" using f(1) by (simp add: clear_msg_def frame_wf_def)
  have clear: "clear_msg (recv_into ?b (clear_msg f)) = clear_msg f"
    using f(1) m(3) by (simp add: clear_msg_def recv_into_def frame_wf_def)
  have rd: "server_receive_msg os (wk_frame w) cid s = (Inr (int (length ?b), recv_into ?b (clear_msg f)), ?s)"
    using c rcv f(2) i len by (simp add: server_receive_msg_def get_selected_client_fd_def call_recv_def Let_def)
  obtain q' x where q': "process_input os Q m i (wk_listener_evfd w) ?s =
      (Inr empty_message, emit (Ev_write_evfd (wk_listener_evfd w) event_size) ((emit_print x ?s)\<lparr>q_worker_to_listener := q'\<rparr>))"
    "inv q'" "items q' = items (q_worker_to_listener s) @ [?b]"
    using chat_input_outcome [of i ?s c m os "wk_listener_evfd w"] i c m(4) q os by auto
  have "?b \<noteq> []" by (simp add: get_concatenated_msg_def)
  moreover have "construct_from_string ?b mm = Inr m" for mm using m(1) by (simp add: construct_of_concatenated)
  ultimately have "client_events os Q ret (cd_fd c, cid) w s = (Inr (w\<lparr>wk_frame := clear_msg f, wk_msg := empty_message\<rparr>),
      emit (Ev_write_evfd (wk_listener_evfd w) event_size) ((emit_print x ?s)\<lparr>q_worker_to_listener := q'\<rparr>))"
    using c(1) ev rd q'(1) string_of_cleared [OF f(1) m(2,3)]
    by (simp add: client_events_def client_output_def process_client_state_def clear Let_def)
  with q'(2,3) show ?thesis by (simp add: same_table_def evfd_count_def)
qed

end

subsection \<open>A line crosses the server\<close>

lemma line_crosses_server:
  fixes s :: "(string state_cells queue_common, 'z) manager_state_scheme"
  assumes s: "server_wf s" "queues_ok string_queue_inv s" "0 \<le> sv_socket s"
    and c: "client_of cid s = Some c" "cd_init_state c = INIT_DONE_STATE" "0 \<le> cd_fd c"
    and ev: "check_event (wk_em w) (cd_fd c) EPOLLIN ret = Inr True" "check_event (wk_em w) (cd_fd c) EPOLLOUT ret = Inr False"
    and f: "frame_wf f" "wk_frame w = clear_msg f"
    and rcv: "sys_recv os (hist s) (cd_fd c) (int MAX_LEN) = (int (length (get_concatenated_msg m)), get_concatenated_msg m, e)"
    and m: "sendable m" "CHR 0x00 \<notin> set (get_concatenated_msg m)" "length (get_concatenated_msg m) < MAX_LEN"
      "sm_action m = get_action UNICAST_REPEATED" "stoi (sm_id m) = Inr cid"
    and q: "string_queue_inv (q_worker_to_listener s)" "string_queue_items (q_worker_to_listener s) = []"
    and os: "evfd_spec os" "0 \<le> wk_listener_evfd w" "\<And>h b. 0 \<le> sys_send os h (cd_fd d) b"
    and d: "client_of other s = Some d" "other \<noteq> cid" "cd_init_state d = INIT_DONE_STATE" "0 \<le> cd_fd d"
    and room: "\<not> full_queue string_queue_items cid (get_connected_IDs s) s"
  shows "\<exists>w' t u v j rs. client_events os (string_queue_ops mv) ret (cd_fd c, cid) w s = (Inr w', t) \<and>
    listener_process_worker_to_listener_q os (string_queue_ops mv) (wk_listener_evfd w) t = (Inr (), u) \<and>
    get_client_ref other u = Some j \<and> process_output os (string_queue_ops mv) empty_message j u = (Inr empty_message, v) \<and>
    length rs = Suc (length (string_queue_items (cd_send_queue d))) \<and>
    hist v = hist u @ map2 (Ev_send (cd_fd d)) (string_queue_items (cd_send_queue d) @ [get_concatenated_msg m]) rs"
proof -
  let ?b = "get_concatenated_msg m"
  obtain i where i: "get_client_ref cid s = Some i" "clients s ! i = Some c"
    using c(1) by (auto simp: client_of_def split: option.splits)
  have "length (string_queue_items (q_worker_to_listener s)) < QUEUE_SIZE" using q(2) by simp
  from srv.chat_line_read [OF i c(2) s(3) c(3) ev f rcv m(1-4) q(1) this os(1,2), of mv] obtain w' t where
    t: "client_events os (string_queue_ops mv) ret (cd_fd c, cid) w s = (Inr w', t)" "same_table s t"
    "sv_socket t = sv_socket s" "0 < evfd_count (hist t) (wk_listener_evfd w)" "string_queue_inv (q_worker_to_listener t)"
    "string_queue_items (q_worker_to_listener t) = [?b]" using q(2) by auto
  note views = srv.same_table_views [OF t(2)] same_table_ids [OF t(2)]
  have tok: "server_wf t" "queues_ok string_queue_inv t" "\<not> full_queue string_queue_items cid (get_connected_IDs t) t"
    using s room same_table_wf [OF t(2)] srv.queues_ok_same [OF t(2)] by (simp_all add: views)
  have ids: "get_connected_IDs t \<noteq> []"
    using c(1) connected_IDs_iff [of cid s] i(1) by (auto simp: views)
  have parse: "construct_from_string ?b empty_message = Inr m" using m(1) by (simp add: construct_of_concatenated)
  obtain u where u: "listener_process_worker_to_listener_q os (string_queue_ops mv) (wk_listener_evfd w) t = (Inr (), u)"
    "server_wf u" "queues_ok string_queue_inv u" "identity other u = identity other t"
    "pending string_queue_items other u = map_option (\<lambda>ms. ms @ [?b]) (pending string_queue_items other t)" "sv_socket u = sv_socket t"
    using srv.listener_unicasts [OF tok(1,2) os(1,2) t(4,5,6) parse srv.dispatch_chat [OF m(4,5)] tok(3) ids, of mv] d(2) by auto
  have "identity other u = Some (cd_fd d, cd_name d, cd_color_id d, cd_init_state d)"
    "pending string_queue_items other u = Some (string_queue_items (cd_send_queue d) @ [?b])"
    using u(4,5) d(1) views(1,2) [of other] by (simp_all add: identity_def pending_def)
  then obtain d' where d': "client_of other u = Some d'" "cd_fd d' = cd_fd d" "cd_init_state d' = INIT_DONE_STATE"
    "string_queue_items (cd_send_queue d') = string_queue_items (cd_send_queue d) @ [?b]"
    using d(3) by (auto simp: identity_def pending_def)
  then obtain j where j: "get_client_ref other u = Some j" "clients u ! j = Some d'"
    by (auto simp: client_of_def split: option.splits)
  have "0 \<le> sv_socket u" "0 \<le> cd_fd d'" "\<And>h b. 0 \<le> sys_send os h (cd_fd d') b" using u(6) t(3) s(3) d(4) d'(2) os(3) by simp_all
  from output_drains [OF u(2,3) j d'(3) this, of mv empty_message] obtain v rs where
    "process_output os (string_queue_ops mv) empty_message j u = (Inr empty_message, v)"
    "length rs = length (string_queue_items (cd_send_queue d'))"
    "hist v = hist u @ map2 (Ev_send (cd_fd d')) (string_queue_items (cd_send_queue d')) rs" by blast
  with t(1) u(1) j(1) d'(2,4) show ?thesis by auto
qed

end
