(* ===== verification/Server_Faults.thy ===== *)
theory Server_Faults
  imports Handshake
begin

text \<open>
  The worker's report of clients that left, and the ways a run of the server goes wrong that
  the code does not handle.
\<close>

subsection \<open>Reporting clients that left\<close>

definition has_left :: "('q, 'z) server_state_scheme \<Rightarrow> int \<times> int \<Rightarrow> bool" where
  "has_left s client \<longleftrightarrow> (case client_of (snd client) s of
     None \<Rightarrow> False | Some c \<Rightarrow> cd_init_state c = DISCONNECT_STATE)"

definition leave_report :: "worker \<Rightarrow> ('q, 'z) server_state_scheme \<Rightarrow> int \<times> int \<Rightarrow> string" where
  "leave_report w s client = (case client_of (snd client) s of
     None \<Rightarrow> [] | Some c \<Rightarrow> get_concatenated_msg (leave_message c (wk_index w) (snd client) (wk_msg w)))"

lemma leave_message_again [simp]:
  "leave_message c i j (leave_message d i' j' m) = leave_message c i j m"
  by (simp add: leave_message_def)

lemma table_views_cong:
  assumes "clients t = clients s"
  shows "client_of j t = client_of j s" "get_client_ref j t = get_client_ref j s" "has_left t = has_left s"
    "leave_report w t = leave_report w s"
  using assms by (simp_all add: client_of_def get_client_ref_def has_left_def leave_report_def fun_eq_iff
      cong: option.case_cong)

lemma leave_report_msg [simp]:
  "leave_report (w\<lparr>wk_msg := leave_message c (wk_index w) j (wk_msg w)\<rparr>) s = leave_report w s"
  by (auto simp: leave_report_def fun_eq_iff split: option.splits)

context server_queue
begin

lemma erase_outcome:
  assumes "evfd_spec os" "0 \<le> wk_listener_evfd w" "inv (q_worker_to_listener s)"
    "\<forall>c \<in> set cs. client_of (snd c) s \<noteq> None"
    "length (items (q_worker_to_listener s)) + length (filter (has_left s) cs) \<le> QUEUE_SIZE"
  shows "\<exists>m t. erase_disconnected os Q cs w s = (Inr (filter (\<lambda>c. \<not> has_left s c) cs, w\<lparr>wk_msg := m\<rparr>), t) \<and>
    clients t = clients s \<and> inv (q_worker_to_listener t) \<and>
    items (q_worker_to_listener t) = items (q_worker_to_listener s) @ map (leave_report w s) (filter (has_left s) cs)"
  using assms
proof (induction cs arbitrary: w s)
  case Nil
  then show ?case by (intro exI [of _ "wk_msg w"]) simp
next
  case (Cons c cs)
  obtain d where d: "client_of (snd c) s = Some d" using Cons.prems(4) by auto
  then obtain i where i: "get_client_ref (snd c) s = Some i" "clients s ! i = Some d" "i < length (clients s)"
    using get_client_ref_SomeD by (fastforce simp: client_of_def split: option.splits)
  have deref: "deref i s = Inr d" using i by (simp add: deref_def)
  show ?case
  proof (cases "cd_init_state d = DISCONNECT_STATE")
    case True
    let ?w = "w\<lparr>wk_msg := leave_message d (wk_index w) (snd c) (wk_msg w)\<rparr>"
    have left: "has_left s c" using True d by (simp add: has_left_def)
    then obtain q where q: "worker_push os Q (wk_msg ?w) (wk_listener_evfd ?w) s =
        (Inr (), emit (Ev_write_evfd (wk_listener_evfd w) event_size) (s\<lparr>q_worker_to_listener := q\<rparr>))" "inv q"
      "items q = items (q_worker_to_listener s) @ [leave_report w s c]"
      using worker_push_ok [OF Cons.prems(3) _ Cons.prems(1,2), of "wk_msg ?w"] Cons.prems(5) d
      by (auto simp: leave_report_def)
    define u where "u = emit_print (Cout (ln (''Client ID:'' @ to_string (snd c) @ '' Signaled for disconnect!'')))
        (emit (Ev_write_evfd (wk_listener_evfd w) event_size) (s\<lparr>q_worker_to_listener := q\<rparr>))"
    have u: "clients u = clients s" "q_worker_to_listener u = q" by (simp_all add: u_def)
    note views = table_views_cong [OF u(1)]
    have "\<exists>m t. erase_disconnected os Q cs ?w u = (Inr (filter (\<lambda>c. \<not> has_left u c) cs, ?w\<lparr>wk_msg := m\<rparr>), t) \<and>
        clients t = clients u \<and> inv (q_worker_to_listener t) \<and>
        items (q_worker_to_listener t) = items (q_worker_to_listener u) @ map (leave_report ?w u) (filter (has_left u) cs)"
      using Cons.prems left q(2,3) u(2) by (intro Cons.IH) (auto simp: views)
    moreover have "erase_disconnected os Q (c # cs) w s = erase_disconnected os Q cs ?w u"
      using i(1) deref True q(1) by (simp add: get_state_def Let_def u_def)
    ultimately show ?thesis using left q(3) u by (auto simp: views simp del: erase_disconnected.simps)
  next
    case False
    then have "\<not> has_left s c" using d by (simp add: has_left_def)
    with Cons.IH [OF Cons.prems(1-3), of] Cons.prems(4,5) i(1) deref False show ?thesis
      by (auto simp: get_state_def)
  qed
qed

end

text \<open>At the end of a turn a worker drops exactly its clients in the disconnect state, in one
  pass, and hands the listener one leave message for each of them, in order, with the client's
  id, name and colour and the worker's number; the clients that stay keep their order.\<close>

theorem leavers_reported_once:
  fixes s :: "(string state_cells queue_common, 'z) manager_state_scheme"
  assumes "evfd_spec os" and "0 \<le> wk_listener_evfd w" and "string_queue_inv (q_worker_to_listener s)"
    and "\<forall>c \<in> set cs. client_of (snd c) s \<noteq> None"
    and "length (string_queue_items (q_worker_to_listener s)) + length (filter (has_left s) cs) \<le> QUEUE_SIZE"
  shows "\<exists>m t. erase_disconnected os (string_queue_ops mv) cs w s =
      (Inr (filter (\<lambda>c. \<not> has_left s c) cs, w\<lparr>wk_msg := m\<rparr>), t) \<and> clients t = clients s \<and>
    string_queue_inv (q_worker_to_listener t) \<and>
    string_queue_items (q_worker_to_listener t) =
      string_queue_items (q_worker_to_listener s) @ map (leave_report w s) (filter (has_left s) cs)"
  using assms by (rule srv.erase_outcome)

definition leaving_server :: "history \<Rightarrow> string state_cells queue_common manager_state" where
  "leaving_server h = put_client 0 (set_state DISCONNECT_STATE (table_client (string_queue_ops (\<lambda>s. s)) 4))
     (busy_server [4, 7] [] h)"

definition sample_worker :: "int \<Rightarrow> (int \<times> int) list \<Rightarrow> worker" where
  "sample_worker i cs = \<lparr>wk_em = \<lparr>epfd = 5, events = replicate 20 (0, 0)\<rparr>, wk_clients = cs,
     wk_frame = \<lparr>mf_msg = replicate 512 (CHR 0x00), mf_msg_len = 512\<rparr>, wk_msg = empty_message,
     wk_index = i, wk_evfd = 8, wk_listener_evfd = 7\<rparr>"

lemma leaving_server_clients:
  "client_of 4 (leaving_server h) = Some (set_state DISCONNECT_STATE (table_client (string_queue_ops (\<lambda>s. s)) 4))"
  "client_of 7 (leaving_server h) = Some (table_client (string_queue_ops (\<lambda>s. s)) 7)"
  by (simp_all add: client_of_def get_client_ref_def leaving_server_def busy_server_def table_with_def table_client_def
      has_id_def set_state_def)

theorem leavers_reported_once_witness:
  "\<exists>m t. erase_disconnected quiet_os (string_queue_ops (\<lambda>s. s)) [(14, 4), (17, 7)]
      (sample_worker 0 [(14, 4), (17, 7)]) (leaving_server []) = (Inr ([(17, 7)], m), t) \<and>
    length (string_queue_items (q_worker_to_listener t)) = 1"
proof -
  let ?s = "leaving_server []" and ?w = "sample_worker 0 [(14, 4), (17, 7)]" and ?cs = "[(14, 4), (17, 7)] :: (int \<times> int) list"
  have left: "has_left ?s (14, 4)" "\<not> has_left ?s (17, 7)"
    by (simp_all add: has_left_def leaving_server_clients set_state_def table_client_def state_constants)
  have q: "string_queue_inv (q_worker_to_listener ?s)" "string_queue_items (q_worker_to_listener ?s) = []"
    using busy_server_queue [of "[]" "[4, 7]" "[]"] by (simp_all add: leaving_server_def)
  have "0 \<le> wk_listener_evfd ?w" "\<forall>c \<in> set ?cs. client_of (snd c) ?s \<noteq> None"
    by (simp_all add: sample_worker_def leaving_server_clients)
  from leavers_reported_once [OF quiet_os_specs(2) this(1) q(1) this(2), of "\<lambda>s. s"] left q(2)
  show ?thesis by (auto simp del: erase_disconnected.simps)
qed

subsection \<open>Faults\<close>

text \<open>C37: a worker that takes an assignment meant for another worker off the shared queue drops
  it: the message is gone, the connection is not added to any worker, and a later turn cannot
  find it, although the table still lists the client.\<close>

theorem accept_for_other_worker_lost:
  fixes s :: "(string state_cells queue_common, 'z) manager_state_scheme"
  assumes "evfd_spec os" and "0 \<le> evfd" and "0 < evfd_count (hist s) evfd"
    and "string_queue_inv (q_listener_to_worker s)"
    and "string_queue_items (q_listener_to_worker s) = get_concatenated_msg (accept_message j sock cid) # rest"
    and "idx \<noteq> j" and "0 \<le> idx \<and> idx < int MAX_NR_OF_THREADS" and "0 \<le> j \<and> j < int MAX_NR_OF_THREADS"
  shows "\<exists>t. worker_process_listener_to_worker_q os (string_queue_ops mv) em idx evfd s = (Inr (- 1, - 1, - 1), t) \<and>
    string_queue_items (q_listener_to_worker t) = rest \<and> clients t = clients s \<and>
    take_new_client (- 1, - 1, - 1) w t = (Inr w, t)"
proof -
  let ?m = "accept_message j sock cid"
  obtain q where q: "queue_pop (string_queue_ops mv) (q_listener_to_worker s) =
      Inr (Some (get_concatenated_msg ?m), q)" "string_queue_items q = rest"
    using assms(5) by (cases rule: srv.pop_cases [OF assms(4), of mv]) auto
  have "sendable ?m"
    using split_token_simps by (simp add: accept_message_def empty_message_def sendable_iff split_token_def)
  then have "construct_from_string (get_concatenated_msg ?m) empty_message = Inr ?m"
    by (simp add: construct_of_concatenated)
  moreover have "to_string idx \<noteq> to_string j" using assms(6-8) to_string_inj [of idx j] by (auto simp: INT_MIN_def INT_MAX_def)
  ultimately show ?thesis
    using read_wakeup_woken [OF assms(1-3)] q
    by (simp add: worker_process_listener_to_worker_q_def take_new_client_def accept_message_def empty_message_def)
qed

theorem accept_for_other_worker_lost_witness:
  "\<exists>t. worker_process_listener_to_worker_q quiet_os (string_queue_ops (\<lambda>s. s)) \<lparr>epfd = 5, events = []\<rparr> 0 8
      ((busy_server [4, 7] [] [Ev_write_evfd 8 8])
        \<lparr>q_listener_to_worker := loaded_queue [get_concatenated_msg (accept_message 1 17 7)]\<rparr>) = (Inr (- 1, - 1, - 1), t) \<and>
    string_queue_items (q_listener_to_worker t) = []"
proof -
  let ?w = "get_concatenated_msg (accept_message 1 17 7)"
  let ?s = "(busy_server [4, 7] [] [Ev_write_evfd 8 8])\<lparr>q_listener_to_worker := loaded_queue [?w]\<rparr>"
  have q: "string_queue_inv (q_listener_to_worker ?s)" "string_queue_items (q_listener_to_worker ?s) = [?w]"
    using loaded_queue_holds [of "[?w]"] by simp_all
  have h: "0 < evfd_count (hist ?s) 8" by (simp add: evfd_count_def event_size_def)
  show ?thesis
    using accept_for_other_worker_lost [OF quiet_os_specs(2) _ h q, of 0 "\<lambda>s. s"] by auto
qed

text \<open>C38: the operator's \<open>#quit\<close> ends the server without telling anyone: the notice for the
  clients is queued for the listener, but the same call has already set the end flag, so
  neither the listener nor any worker takes another turn; no client's queue holds the notice
  and nothing was sent.\<close>

theorem quit_notice_never_sent:
  fixes s :: "(string state_cells queue_common, 'z) manager_state_scheme"
  assumes "sys_stdin_line os (hist s) = Some QUIT_MSG" and "\<not> check_is_done s"
    and "string_queue_inv (q_worker_to_listener s)"
    and "length (string_queue_items (q_worker_to_listener s)) < QUEUE_SIZE"
  shows "\<exists>t. listener_stdin os (string_queue_ops mv) s = (Inr (), t) \<and>
    string_queue_items (q_worker_to_listener t) =
      string_queue_items (q_worker_to_listener s) @ [get_concatenated_msg quit_message] \<and>
    clients t = clients s \<and> hist t = hist s @ [Ev_stdin (Some QUIT_MSG)] \<and> (\<forall>w. \<not> worker_running w t) \<and>
    (\<forall>n l. listener_turns n os (string_queue_ops mv) l t = Some (Inr (), EpollManager_destroy (ls_em l) t))"
proof -
  obtain q where q: "queue_push (string_queue_ops mv) (get_concatenated_msg quit_message) (q_worker_to_listener s) =
      Inr (True, q)" "string_queue_items q = string_queue_items (q_worker_to_listener s) @ [get_concatenated_msg quit_message]"
    using assms(4) by (cases rule: srv.push_cases [OF assms(3), of mv "get_concatenated_msg quit_message"]) auto
  with assms(1,2) show ?thesis
    by (simp add: listener_stdin_def set_is_done_def check_is_done_def worker_running_def listener_turns.simps Let_def)
qed

theorem quit_notice_never_sent_witness:
  "\<exists>t. listener_stdin (quiet_os\<lparr>sys_stdin_line := (\<lambda>h. Some QUIT_MSG)\<rparr>) (string_queue_ops (\<lambda>s. s))
      (busy_server [4, 7] [] []) = (Inr (), t) \<and> hist t = [Ev_stdin (Some QUIT_MSG)] \<and>
    string_queue_items (q_worker_to_listener t) = [get_concatenated_msg quit_message]"
proof -
  have q: "string_queue_inv (q_worker_to_listener (busy_server [4, 7] [] []))"
    "string_queue_items (q_worker_to_listener (busy_server [4, 7] [] [])) = []"
    using busy_server_queue [of "[]" "[4, 7]" "[]"] by simp_all
  have "\<not> check_is_done (busy_server [4, 7] [] [])" by (simp add: busy_server_def check_is_done_def)
  then show ?thesis
    using quit_notice_never_sent [of "quiet_os\<lparr>sys_stdin_line := (\<lambda>h. Some QUIT_MSG)\<rparr>", OF _ _ q(1), of "\<lambda>s. s"] q(2)
    by auto
qed

lemma full_table_refuses:
  assumes "None \<notin> set (clients s)" "0 \<le> sv_socket s" "0 \<le> fst (sys_accept4 os (hist s) (sv_socket s))"
    "\<And>h fd. 0 \<le> sys_fcntl_getfl os h fd" "\<And>h fd fl. 0 \<le> sys_fcntl_setfl os h fd fl"
  shows "\<exists>h. accept_client os Q True s = (Inr (- 1, - 1), s\<lparr>hist := h\<rparr>)"
proof -
  have "find_index (\<lambda>c. c = None) (clients s) = None" using assms(1) unfolding find_index_None by metis
  with assms(2-) show ?thesis
    by (cases "sys_accept4 os (hist s) (sv_socket s)")
      (auto simp: accept_client_def place_client_def emit_def close_fd_def Let_def not_less)
qed

definition pool_full :: "int \<Rightarrow> int \<Rightarrow> int \<Rightarrow> ('q, 'z) manager_state_scheme \<Rightarrow> bool" where
  "pool_full cap e0 e1 s \<longleftrightarrow> None \<notin> set (clients s) \<and> 0 \<le> sv_socket s \<and> nr_of_launched_threads s = 2 \<and>
     max_clients_per_thread s = cap \<and> worker_threads s = [Some (3, e0), Some (3, e1)]"

definition accepts :: "os \<Rightarrow> bool" where
  "accepts os \<longleftrightarrow> (\<forall>h fd. 0 \<le> fst (sys_accept4 os h fd)) \<and> (\<forall>h fd. 0 \<le> sys_fcntl_getfl os h fd) \<and>
     (\<forall>h fd fl. 0 \<le> sys_fcntl_setfl os h fd fl)"

lemma first_refusal:
  assumes "pool_full 3 e0 e1 s" "accepts os"
  shows "\<exists>t. listener_accept os Q levfd s = (Inr (), t) \<and> pool_full 4 e0 e1 t \<and> clients t = clients s \<and>
    q_listener_to_worker t = q_listener_to_worker s"
proof -
  obtain h where h: "accept_client os Q True s = (Inr (- 1, - 1), s\<lparr>hist := h\<rparr>)"
    using full_table_refuses [of s os Q] assms by (auto simp: pool_full_def accepts_def)
  have "get_min_and_idx [Some (3, e0), Some (3, e1)] = (3, 0)" by (simp add: get_min_and_idx_def INT_MAX_def)
  with assms(1) have "process_new_client os Q (- 1) (- 1) levfd (s\<lparr>hist := h\<rparr>) =
      (Inl (Server_full (ln ''Server full, all threads are occupied!'')), s\<lparr>hist := h, max_clients_per_thread := 4\<rparr>)"
    by (simp add: process_new_client_def pool_full_def as_unsigned_def)
  with h assms(1) show ?thesis by (simp add: listener_accept_def accept_handlers_def pool_full_def)
qed

lemma second_refusal:
  fixes s :: "(string state_cells queue_common, 'z) manager_state_scheme"
  assumes "pool_full 4 e0 e1 s" "accepts os" "evfd_spec os" "0 \<le> e0"
    "string_queue_inv (q_listener_to_worker s)" "string_queue_items (q_listener_to_worker s) = []"
  shows "\<exists>t. listener_accept os (string_queue_ops mv) levfd s = (Inr (), t) \<and> clients t = clients s \<and>
    worker_threads t = [Some (4, e0), Some (3, e1)] \<and> string_queue_inv (q_listener_to_worker t) \<and>
    string_queue_items (q_listener_to_worker t) = [get_concatenated_msg (accept_message 0 (- 1) (- 1))] \<and>
    0 < evfd_count (hist t) e0"
proof -
  obtain h where h: "accept_client os (string_queue_ops mv) True s = (Inr (- 1, - 1), s\<lparr>hist := h\<rparr>)"
    using full_table_refuses [of s os "string_queue_ops mv"] assms by (auto simp: pool_full_def accepts_def)
  let ?s = "s\<lparr>hist := h\<rparr>"
  have "get_min_and_idx [Some (3, e0), Some (3, e1)] = (3, 0)" by (simp add: get_min_and_idx_def INT_MAX_def)
  with assms(1) have "process_new_client os (string_queue_ops mv) (- 1) (- 1) levfd ?s =
      add_to_worker os (string_queue_ops mv) 0 (- 1) (- 1) ?s"
    by (simp add: process_new_client_def pool_full_def)
  moreover have "\<exists>q. add_to_worker os (string_queue_ops mv) 0 (- 1) (- 1) ?s = (Inr (), emit (Ev_write_evfd e0 event_size)
      ((set_worker 0 (Some (3 + 1, e0)) ?s)\<lparr>q_listener_to_worker := q\<rparr>)) \<and> string_queue_inv q \<and>
      string_queue_items q = string_queue_items (q_listener_to_worker ?s) @ [get_concatenated_msg (accept_message 0 (- 1) (- 1))]"
    using assms by (intro srv.add_to_worker_outcome) (simp_all add: pool_full_def)
  ultimately show ?thesis using h assms(1,6)
    by (auto simp: listener_accept_def pool_full_def set_worker_def)
qed

lemma invalid_assignment_fails:
  fixes s :: "(string state_cells queue_common, 'z) manager_state_scheme"
  assumes "evfd_spec os" "0 \<le> evfd" "0 < evfd_count (hist s) evfd" "0 < epfd em"
    "\<And>h e ev. sys_epoll_ctl_add os h e (- 1) ev < 0" "string_queue_inv (q_listener_to_worker s)"
    "string_queue_items (q_listener_to_worker s) = [get_concatenated_msg (accept_message idx (- 1) (- 1))]"
  shows "\<exists>t. worker_process_listener_to_worker_q os (string_queue_ops mv) em idx evfd s =
     (Inl (Runtime_error (ln ''Failed to initialize epoll ctl'')), t)"
proof -
  let ?m = "accept_message idx (- 1) (- 1)"
  obtain q where q: "queue_pop (string_queue_ops mv) (q_listener_to_worker s) = Inr (Some (get_concatenated_msg ?m), q)"
    using assms(7) by (cases rule: srv.pop_cases [OF assms(6), of mv]) auto
  have "sendable ?m"
    using split_token_simps by (simp add: accept_message_def empty_message_def sendable_iff split_token_def)
  then have "construct_from_string (get_concatenated_msg ?m) empty_message = Inr ?m"
    by (simp add: construct_of_concatenated)
  moreover have "stoi (to_string (- 1)) = Inr (- 1)" using stoi_to_string [of "- 1"] by (simp add: INT_MIN_def INT_MAX_def)
  ultimately show ?thesis
    using read_wakeup_woken [OF assms(1-3)] q assms(4,5)
    by (simp add: worker_process_listener_to_worker_q_def accept_message_def empty_message_def add_monitored_fd_def Let_def)
qed

text \<open>C36: refusing connections brings the server down. With the table full and three clients on
  each worker, the first refused connection only prints a notice but leaves the cap raised;
  the second one is assigned to a worker as descriptor -1, that worker's count goes past its
  limit, and when the worker takes the assignment its epoll call fails with an exception that
  leaves the thread.\<close>

theorem second_refusal_ends_server:
  fixes s :: "(string state_cells queue_common, 'z) manager_state_scheme"
  assumes "pool_full 3 e0 e1 s" and "accepts os" and "evfd_spec os" and "0 \<le> e0" and "0 < epfd em"
    and "string_queue_inv (q_listener_to_worker s)" and "string_queue_items (q_listener_to_worker s) = []"
    and "\<And>h e ev. sys_epoll_ctl_add os h e (- 1) ev < 0"
  shows "\<exists>t u v. listener_accept os (string_queue_ops mv) levfd s = (Inr (), t) \<and>
    worker_threads t = worker_threads s \<and> listener_accept os (string_queue_ops mv) levfd t = (Inr (), u) \<and>
    clients u = clients s \<and> worker_threads u = [Some (4, e0), Some (3, e1)] \<and>
    worker_process_listener_to_worker_q os (string_queue_ops mv) em 0 e0 u =
      (Inl (Runtime_error (ln ''Failed to initialize epoll ctl'')), v)"
proof -
  obtain t where t: "listener_accept os (string_queue_ops mv) levfd s = (Inr (), t)" "pool_full 4 e0 e1 t"
    "clients t = clients s" "q_listener_to_worker t = q_listener_to_worker s"
    using first_refusal [OF assms(1,2)] by blast
  have q: "string_queue_inv (q_listener_to_worker t)" "string_queue_items (q_listener_to_worker t) = []"
    using assms(6,7) t(4) by simp_all
  obtain u where u: "listener_accept os (string_queue_ops mv) levfd t = (Inr (), u)" "clients u = clients t"
    "worker_threads u = [Some (4, e0), Some (3, e1)]" "string_queue_inv (q_listener_to_worker u)"
    "string_queue_items (q_listener_to_worker u) = [get_concatenated_msg (accept_message 0 (- 1) (- 1))]"
    "0 < evfd_count (hist u) e0"
    using second_refusal [OF t(2) assms(2-4) q, of mv levfd] by blast
  moreover have "worker_threads t = worker_threads s" using assms(1) t(2) by (simp add: pool_full_def)
  ultimately show ?thesis
    using t invalid_assignment_fails [OF assms(3,4) u(6) assms(5,8) u(4,5), of mv] by metis
qed

definition crowded_server :: "string state_cells queue_common manager_state" where
  "crowded_server = (busy_server [0, 1, 2, 3, 4, 5] [] [])\<lparr>worker_threads := [Some (3, 7), Some (3, 8)],
     max_clients_per_thread := 3\<rparr>"

theorem second_refusal_ends_server_witness:
  "\<exists>t u v. listener_accept quiet_os (string_queue_ops (\<lambda>s. s)) 9 crowded_server = (Inr (), t) \<and>
    listener_accept quiet_os (string_queue_ops (\<lambda>s. s)) 9 t = (Inr (), u) \<and>
    worker_process_listener_to_worker_q quiet_os (string_queue_ops (\<lambda>s. s)) \<lparr>epfd = 5, events = []\<rparr> 0 7 u =
      (Inl (Runtime_error (ln ''Failed to initialize epoll ctl'')), v)"
proof -
  have full: "pool_full 3 7 8 crowded_server"
    by (auto simp: pool_full_def crowded_server_def busy_server_def table_with_def)
  have q: "string_queue_inv (q_listener_to_worker crowded_server)" "string_queue_items (q_listener_to_worker crowded_server) = []"
    by (simp_all add: crowded_server_def busy_server_def new_string_queue_inv new_string_queue_items)
  have k: "accepts quiet_os" "\<And>h e ev. sys_epoll_ctl_add quiet_os h e (- 1) ev < 0"
    by (simp_all add: accepts_def quiet_os_def)
  show ?thesis
    using second_refusal_ends_server [OF full k(1) quiet_os_specs(2) _ _ q k(2), of "\<lparr>epfd = 5, events = []\<rparr>" "\<lambda>s. s" 9]
    by auto
qed

text \<open>A failure at the first client of a turn ends the loop.\<close>

lemma client_failure_ends_worker:
  assumes "sys_epoll_wait os (hist s) (epfd (wk_em w)) (int (length (events (wk_em w)))) = (1, [(fd, ev)])" and "0 \<le> epfd (wk_em w)"
    and "0 \<le> wk_evfd w" and "wk_evfd w \<noteq> fd" and "wk_clients w = (fd, cid) # rest" and "\<not> check_is_done s"
    and "client_events os Q 1 (fd, cid) (w\<lparr>wk_em := (wk_em w)\<lparr>events := (fd, ev) # drop 1 (events (wk_em w))\<rparr>\<rparr>)
      (emit (Ev_epoll_wait 1) s) = (Inl e, t)"
  shows "\<exists>t. worker_loop (Suc n) os Q w s = Some (Inl e, t)"
proof -
  let ?em = "(wk_em w)\<lparr>events := (fd, ev) # drop 1 (events (wk_em w))\<rparr>"
  have "wait_events os (wk_em w) s = (Inr (1, ?em), emit (Ev_epoll_wait 1) s)"
    using assms(1,2) by (simp add: wait_events_def)
  moreover have "check_event ?em (wk_evfd w) EPOLLIN 1 = Inr False"
    using assms(2-4) by (simp add: check_event_def event_matches_def)
  ultimately have "worker_iteration os Q w s = (Inl e, t)"
    using assms(5,7) by (simp add: worker_iteration_def Let_def)
  then show ?thesis
    using assms(5,6) by (auto simp: worker_loop.simps [of "Suc n"] worker_running_def)
qed

text \<open>C33: one malformed text from one client (two messages in one read, a back-quote in a line)
  ends the server: the parser's exception leaves the worker's loop, and with it the thread
  function.\<close>

theorem malformed_text_ends_worker:
  assumes "sys_epoll_wait os (hist s) (epfd (wk_em w)) (int (length (events (wk_em w)))) = (1, [(fd, EPOLLIN)])" and "0 \<le> epfd (wk_em w)"
    and "0 \<le> fd" and "0 \<le> wk_evfd w" and "wk_evfd w \<noteq> fd" and "wk_clients w = (fd, cid) # rest" and "\<not> check_is_done s"
    and "get_client_ref cid s = Some i" and "clients s ! i = Some c" and "cd_fd c = fd" and "0 \<le> sv_socket s"
    and "frame_wf f" and "wk_frame w = clear_msg f"
    and "sys_recv os (hist s @ [Ev_epoll_wait 1]) fd (int MAX_LEN) = (int (length bad), bad, e)"
    and "bad \<noteq> []" and "CHR 0x00 \<notin> set bad" and "length bad < MAX_LEN" and "count_list bad split_token \<noteq> 8"
  shows "\<exists>t. worker_loop (Suc n) os Q w s =
     Some (Inl (Runtime_error (ln ''Error in message construction. Invalid Msg format'')), t)"
proof -
  let ?em = "(wk_em w)\<lparr>events := (fd, EPOLLIN) # drop 1 (events (wk_em w))\<rparr>"
  let ?s = "emit (Ev_epoll_wait 1) s" and ?w = "w\<lparr>wk_em := ?em\<rparr>"
  let ?e = "Runtime_error (ln ''Error in message construction. Invalid Msg format'')"
  have events: "check_event ?em fd EPOLLIN 1 = Inr True"
    using assms(2,3) by (simp add: check_event_def event_matches_def EPOLLIN_def)
  have i: "i < length (clients s)" using get_client_ref_SomeD [OF assms(8)] by simp
  have len: "mf_msg_len (clear_msg f) = 512" using assms(12) by (simp add: clear_msg_def frame_wf_def)
  have "server_receive_msg os (wk_frame ?w) cid ?s =
      (Inr (int (length bad), recv_into bad (clear_msg f)), emit (Ev_recv fd (int (length bad))) ?s)"
    using assms(3,8-11,13,14) i len
    by (simp add: server_receive_msg_def get_selected_client_fd_def call_recv_def Let_def)
  moreover have "construct_from_string bad m = Inl ?e" for m
    using assms(18) by (simp add: construct_from_string_def count_separators_eq nr_of_separations_def)
  ultimately obtain t where "client_events os Q 1 (fd, cid) ?w ?s = (Inl ?e, t)"
    using events string_of_cleared [OF assms(12,16,17)] assms(8,15) by (auto simp: client_events_def Let_def)
  from client_failure_ends_worker [OF assms(1,2,4-7) this] show ?thesis .
qed

definition babbling_os :: os where
  "babbling_os = quiet_os\<lparr>sys_epoll_wait := (\<lambda>h fd n. (1, [(14, EPOLLIN)])),
     sys_recv := (\<lambda>h fd len. (int (length ''hello''), ''hello'', EAGAIN))\<rparr>"

theorem malformed_text_ends_worker_witness:
  "\<exists>t. worker_loop 1 babbling_os (string_queue_ops (\<lambda>s. s)) (sample_worker 0 [(14, 4)]) (busy_server [4, 7] [] []) =
     Some (Inl (Runtime_error (ln ''Error in message construction. Invalid Msg format'')), t)"
proof -
  let ?w = "sample_worker 0 [(14, 4)]" and ?s = "busy_server [4, 7] [] []"
  have c: "get_client_ref 4 ?s = Some 0" "clients ?s ! 0 = Some (table_client (string_queue_ops (\<lambda>s. s)) 4)"
    by (simp_all add: get_client_ref_def busy_server_def table_with_def table_client_def has_id_def)
  have f: "frame_wf (wk_frame ?w)" "wk_frame ?w = clear_msg (wk_frame ?w)"
    by (simp_all add: sample_worker_def frame_wf_def clear_msg_def)
  show ?thesis
    using malformed_text_ends_worker [where w = ?w and s = ?s and os = babbling_os and n = 0 and fd = 14 and rest = "[]"
        and bad = "''hello''" and e = EAGAIN and Q = "string_queue_ops (\<lambda>s. s)", OF _ _ _ _ _ _ _ c _ _ f] 
    by (simp add: sample_worker_def babbling_os_def busy_server_def table_client_def check_is_done_def split_token_def)
qed

end
