(* ===== verification/Turn_Rules.thy ===== *)
theory Turn_Rules
  imports Handshake
begin

text \<open>
  What the turns of the listener and of the workers leave alone. A predicate on the manager's
  state is steady when it survives the small changes every handler is made of: an event, an
  update of a client that keeps its id and descriptor, a message to the listener that is not a
  farewell, and the bookkeeping of the pool. The handlers that do nothing else then keep it, on
  the paths that end in an exception too; this is proved here once for all such predicates.
\<close>

named_theorems keep \<open>operations that keep a steady predicate\<close>

locale steady =
  fixes P :: "('q, 'z) manager_state_scheme \<Rightarrow> bool" and Q :: "'q queue_ops"
  assumes emit_keep: "P s \<Longrightarrow> (\<And>a b c d f. e \<noteq> Ev_spawn_worker a b c d f) \<Longrightarrow> P (emit e s)"
    and put_keep: "P s \<Longrightarrow> i < length (clients s) \<Longrightarrow> clients s ! i = Some c \<Longrightarrow>
      cd_personal_id d = cd_personal_id c \<Longrightarrow> cd_fd d = cd_fd c \<Longrightarrow> P (put_client i d s)"
    and push_keep: "P s \<Longrightarrow> sm_action m \<noteq> get_action CL_DISCONNECTED \<Longrightarrow>
      queue_push Q (get_concatenated_msg m) (q_worker_to_listener s) = Inr (b, q) \<Longrightarrow>
      P (s\<lparr>q_worker_to_listener := q\<rparr>)"
    and pool_keep: "P s \<Longrightarrow> P (s\<lparr>worker_threads := ws\<rparr>)" "P s \<Longrightarrow> P (s\<lparr>nr_of_launched_threads := n\<rparr>)"
      "P s \<Longrightarrow> P (s\<lparr>max_clients_per_thread := n\<rparr>)"
    and done_keep: "P s \<Longrightarrow> P (s\<lparr>server_done := stop\<rparr>)"
begin

lemma keep_prints [keep]:
  "P s \<Longrightarrow> P (emit_print x s)" "P s \<Longrightarrow> P (close_fd fd s)" "P s \<Longrightarrow> P (EpollManager_destroy em s)"
  "P s \<Longrightarrow> P (set_worker i w s)"
  by (simp_all add: emit_print_def close_fd_def EpollManager_destroy_def set_worker_def emit_keep pool_keep)

lemma keep_bind [keep]:
  assumes "P (snd r)" "\<And>a s. P s \<Longrightarrow> P (snd (f a s))"
  shows "P (snd (bindE r f))"
  using assms by (intro bindE_preserves [where P = P]) auto

lemma keep_handle [keep]:
  assumes "P (snd r)" "\<And>e s. P s \<Longrightarrow> P (snd (h e s))"
  shows "P (snd (handleE r h))"
  using assms by (intro handleE_preserves [where P = P]) auto

lemma keep_deref:
  assumes "P s"
    "\<And>c. (\<And>d. cd_personal_id d = cd_personal_id c \<Longrightarrow> cd_fd d = cd_fd c \<Longrightarrow> P (put_client i d s)) \<Longrightarrow>
      P (snd (f c s))"
  shows "P (snd (bindE (liftE (deref i s) s) f))"
proof (cases "deref i s")
  case (Inr c)
  have "P (put_client i d s)" if "cd_personal_id d = cd_personal_id c" "cd_fd d = cd_fd c" for d
    using put_keep [OF assms(1)] deref_InrD [OF Inr] that by blast
  with assms(2) Inr show ?thesis by simp
qed (use assms(1) in simp)

lemma keep_calls [keep]:
  "P s \<Longrightarrow> P (snd (server_send_msg os m cid s))"
  "P s \<Longrightarrow> P (snd (server_receive_msg os f cid s))"
  "P s \<Longrightarrow> P (snd (write_one os fd err s))"
  "P s \<Longrightarrow> P (snd (read_wakeup os fd err s))"
  "P s \<Longrightarrow> P (snd (get_evfd os s))"
  "P s \<Longrightarrow> P (snd (add_monitored_fd os em ep s))"
  "P s \<Longrightarrow> P (snd (wait_events os em s))"
  "P s \<Longrightarrow> P (snd (EpollManager_new os junk s))"
  "P s \<Longrightarrow> P (snd (set_is_done s))"
  by (auto simp: server_send_msg_def server_receive_msg_def call_send_def call_recv_def write_one_def
      call_write_evfd_def read_wakeup_def call_read_evfd_def get_evfd_def add_monitored_fd_def
      wait_events_def EpollManager_new_def set_is_done_def Let_def emit_keep done_keep
      split: sum.splits prod.splits)

lemma keep_worker_push [keep]:
  "P s \<Longrightarrow> sm_action m \<noteq> get_action CL_DISCONNECTED \<Longrightarrow> P (snd (worker_push os Q m fd s))"
  by (auto simp: worker_push_def Let_def intro!: keep intro: push_keep split: sum.splits)

lemma keep_unicast [keep]: "P s \<Longrightarrow> P (snd (unicast_repeated Q ex ids m s))"
proof (induction ids arbitrary: s)
  case (Cons j ids)
  show ?case
  proof (cases "ex = j \<or> get_client_ref j s = None")
    case False
    then obtain i where i: "get_client_ref j s = Some i" by auto
    have "P (snd (bindE (liftE (deref i s) s) (\<lambda>c s. case queue_push Q m (cd_send_queue c) of
        Inl e \<Rightarrow> (Inl e, s)
      | Inr (pushed, q) \<Rightarrow> (let s = put_client i (c\<lparr>cd_send_queue := q\<rparr>) s in
         if pushed then unicast_repeated Q ex ids m s
         else (Inl (Queue_exception (ln ''Failed to push message to corresponding client'')), s)))))"
      by (rule keep_deref [OF Cons.prems])
        (auto simp: Let_def intro!: Cons.prems Cons.IH split: sum.splits)
    with False i show ?thesis by simp
  qed (use Cons in auto)
qed simp

subsubsection \<open>The worker\<close>

lemma keep_drain [keep]: "P s \<Longrightarrow> P (snd (drain_send_queue n os Q i s))"
proof (induction n arbitrary: s)
  case (Suc n)
  show ?case
    unfolding drain_send_queue.simps
    by (rule keep_deref [OF Suc.prems])
      (auto intro!: keep Suc.IH Suc.prems split: sum.splits option.splits)
qed simp

lemma keep_process_output [keep]: "P s \<Longrightarrow> P (snd (process_output os Q m i s))"
  unfolding process_output_def
  by (rule keep_deref) (auto simp: Let_def intro!: keep)

lemma keep_process_input [keep]: "P s \<Longrightarrow> P (snd (process_input os Q m i fd s))"
  unfolding process_input_def
  by (rule keep_deref) (auto simp: Let_def joined_message_def intro!: keep)

lemma keep_process_client_state [keep]:
  "P s \<Longrightarrow> P (snd (process_client_state os Q b m r fd s))"
  by (auto simp: process_client_state_def intro: keep split: option.splits)

lemma keep_client_output [keep]: "P s \<Longrightarrow> P (snd (client_output os Q ret fd r w s))"
  by (auto simp: client_output_def intro!: keep)

lemma keep_set_disconnect:
  "P s \<Longrightarrow> P (snd (bindE (liftE (deref i s) s)
     (\<lambda>cl s. (Inr w, put_client i (set_state DISCONNECT_STATE cl) s))))"
  by (rule keep_deref) auto

lemma keep_client_events [keep]: "P s \<Longrightarrow> P (snd (client_events os Q ret client w s))"
  by (auto simp: client_events_def Let_def intro!: keep keep_set_disconnect split: option.splits)

lemma keep_all_client_events [keep]: "P s \<Longrightarrow> P (snd (all_client_events os Q ret cs w s))"
  by (induction cs arbitrary: w s) (auto intro!: keep)

lemma keep_take_new_client [keep]: "P s \<Longrightarrow> P (snd (take_new_client q w s))"
  by (auto simp: take_new_client_def split: prod.splits)

lemma keep_worker_init [keep]: "P s \<Longrightarrow> P (snd (worker_init os je jm fd cid i e l s))"
  by (auto simp: worker_init_def intro!: keep)

subsubsection \<open>The listener\<close>

lemma keep_worker_client_disconnect [keep]: "P s \<Longrightarrow> P (snd (worker_client_disconnect i s))"
  by (auto simp: worker_client_disconnect_def Let_def intro!: keep pool_keep emit_keep
      split: prod.splits option.splits)

lemma keep_listener_stdin [keep]: "P s \<Longrightarrow> P (snd (listener_stdin os Q s))"
proof -
  have "sm_action quit_message \<noteq> get_action CL_DISCONNECTED" by (simp add: quit_message_def)
  then show "P s \<Longrightarrow> ?thesis"
    by (auto simp: listener_stdin_def Let_def intro!: keep push_keep emit_keep split: sum.splits)
qed

lemma keep_listener_init [keep]: "P s \<Longrightarrow> P (snd (listener_init os junk s))"
  by (auto simp: listener_init_def closing_em_def Let_def intro!: keep)

lemma keep_accept_handlers [keep]: "P s \<Longrightarrow> P (snd (accept_handlers e s))"
  by (auto simp: accept_handlers_def intro!: keep split: failure.splits)

text \<open>Everything but the removal of a client.\<close>

lemma keep_dispatch_other:
  "P s \<Longrightarrow> sm_action msg \<noteq> get_action CL_DISCONNECTED \<Longrightarrow> P (snd (dispatch_message Q msg wire ids s))"
  by (auto simp: dispatch_message_def Let_def intro!: keep)

lemma keep_dispatch_disconnect:
  assumes "stoi (sm_id msg) = Inr cid"
    "P (snd (disconnect_client cid (emit_print (Cout (ln ''Client disconnected'')) s)))"
  shows "P (snd (dispatch_disconnect Q msg ids s))"
  using assms by (auto simp: dispatch_disconnect_def Let_def intro!: keep split: option.splits)

end

end
