(* ===== verification/Leaving.thy ===== *)
theory Leaving
  imports End_To_End Server_Faults Turn_Rules
begin

text \<open>
  A client leaves: from the line \<open>#quit\<close>, or from the end of its connection, over its worker and
  the listener to the screens of the others.
\<close>

subsection \<open>The worker\<close>

text \<open>Clients that have no event in this turn and have not left are passed over.\<close>

lemma quiet_clients:
  assumes "0 \<le> epfd (wk_em w)" "events (wk_em w) = (fd, ev) # es" "\<forall>r \<in> set cs. 0 \<le> fst r \<and> fst r \<noteq> fd"
  shows "all_client_events os Q 1 cs w s = (Inr w, s)"
  using assms(3)
proof (induction cs)
  case (Cons r cs)
  then have "check_event (wk_em w) (fst r) e 1 = Inr False" for e
    using assms(1,2) by (auto simp: check_event_def event_matches_def)
  with Cons show ?case by (simp add: client_events_def client_output_def Let_def)
qed simp

lemma erase_none:
  assumes "\<forall>r \<in> set cs. client_of (snd r) s \<noteq> None \<and> \<not> has_left s r"
  shows "erase_disconnected os Q cs w s = (Inr (cs, w), s)"
  using assms
proof (induction cs)
  case (Cons r cs)
  then obtain d where "client_of (snd r) s = Some d" "cd_init_state d \<noteq> DISCONNECT_STATE"
    by (auto simp: has_left_def)
  then obtain i where "get_client_ref (snd r) s = Some i" "deref i s = Inr d"
    using get_client_ref_SomeD by (fastforce simp: client_of_def deref_def split: option.splits)
  with Cons \<open>cd_init_state d \<noteq> DISCONNECT_STATE\<close> show ?case by (simp add: get_state_def)
qed simp

text \<open>How a client says that it leaves: the farewell of the program, or the end of the connection.\<close>

definition bids_farewell :: "string \<Rightarrow> bool" where
  "bids_farewell b \<longleftrightarrow> b = [] \<or> (\<exists>m. b = get_concatenated_msg m \<and> sendable m \<and> CHR 0x00 \<notin> set b \<and> length b < MAX_LEN \<and>
     sm_action m = get_action CL_DISCONNECTED \<and> sm_fd m = [] \<and> sm_init_done m = [] \<and> sm_msg_content m = [])"

lemma farewell_read:
  assumes c: "get_client_ref cid s = Some i" "clients s ! i = Some c" "0 \<le> sv_socket s" "0 \<le> cd_fd c"
    and ev: "check_event (wk_em w) (cd_fd c) EPOLLIN ret = Inr True" "check_event (wk_em w) (cd_fd c) EPOLLOUT ret = Inr False"
    and f: "frame_wf f" "wk_frame w = clear_msg f" "wk_msg w = empty_message"
    and rcv: "sys_recv os (hist s) (cd_fd c) (int MAX_LEN) = (int (length b), b, e)" and b: "bids_farewell b"
  shows "\<exists>w' m. client_events os Q ret (cd_fd c, cid) w s =
      (Inr w', put_client i (set_state DISCONNECT_STATE c) (emit (Ev_recv (cd_fd c) (int (length b))) s)) \<and>
    w' = w\<lparr>wk_frame := clear_msg f, wk_msg := m\<rparr> \<and> leave_message d k j m = leave_message d k j empty_message"
proof -
  let ?s = "emit (Ev_recv (cd_fd c) (int (length b))) s"
  have i: "i < length (clients s)" "deref i ?s = Inr c" "get_client_ref cid ?s = Some i"
    using get_client_ref_SomeD [OF c(1)] c(1,2) by (simp_all add: deref_def get_client_ref_def)
  have len: "mf_msg_len (clear_msg f) = 512" using f(1) by (simp add: clear_msg_def frame_wf_def)
  have rd: "server_receive_msg os (wk_frame w) cid s = (Inr (int (length b), recv_into b (clear_msg f)), ?s)"
    using c rcv f(2) i len by (simp add: server_receive_msg_def get_selected_client_fd_def call_recv_def Let_def)
  show ?thesis
  proof (cases "b = []")
    case True
    then have "recv_into b (clear_msg f) = clear_msg f" by (simp add: recv_into_def)
    moreover have "w\<lparr>wk_frame := clear_msg f\<rparr> = w\<lparr>wk_frame := clear_msg f, wk_msg := empty_message\<rparr>"
      using f(3) by (cases w) simp
    ultimately show ?thesis
      using True c(1) ev(1) rd i f(2)
      by (intro exI [of _ "w\<lparr>wk_frame := clear_msg f\<rparr>"] exI [of _ empty_message]) (simp add: client_events_def Let_def)
  next
    case False
    then obtain m where m: "b = get_concatenated_msg m" "sendable m" "CHR 0x00 \<notin> set b" "length b < MAX_LEN"
      "sm_action m = get_action CL_DISCONNECTED" "sm_fd m = []" "sm_init_done m = []" "sm_msg_content m = []"
      using b by (auto simp: bids_farewell_def)
    have clear: "clear_msg (recv_into b (clear_msg f)) = clear_msg f"
      using f(1) m(4) by (simp add: clear_msg_def recv_into_def frame_wf_def)
    have "process_input os Q m i (wk_listener_evfd w) ?s = (Inr m, put_client i (set_state DISCONNECT_STATE c) ?s)"
      using m(5) i by (simp add: process_input_def Let_def get_state_def set_state_def state_constants)
    moreover have "construct_from_string b mm = Inr m" for mm using m(1,2) by (simp add: construct_of_concatenated)
    ultimately have "client_events os Q ret (cd_fd c, cid) w s = (Inr (w\<lparr>wk_frame := clear_msg f, wk_msg := m\<rparr>),
        put_client i (set_state DISCONNECT_STATE c) ?s)"
      using c(1) ev rd string_of_cleared [OF f(1) m(3,4)] False
      by (simp add: client_events_def client_output_def process_client_state_def clear Let_def)
    moreover have "leave_message d k j m = leave_message d k j empty_message"
      using m(6-8) by (simp add: leave_message_def empty_message_def)
    ultimately show ?thesis by blast
  qed
qed

text \<open>The state after the worker's turn: a message for the listener, and a changed mark in the table.\<close>

definition after_farewell ::
  "nat \<Rightarrow> 'q client_data \<Rightarrow> int \<Rightarrow> 'q \<Rightarrow> ('q, 'z) manager_state_scheme \<Rightarrow> ('q, 'z) manager_state_scheme \<Rightarrow> bool" where
  "after_farewell i c levfd q s t \<longleftrightarrow> (\<exists>es. t = s\<lparr>clients := (clients s)[i := Some (set_state DISCONNECT_STATE c)],
     q_worker_to_listener := q, hist := hist s @ es\<rparr>) \<and> 0 < evfd_count (hist t) levfd"

context server_queue
begin

lemma leaving_turn:
  assumes c: "get_client_ref cid s = Some i" "clients s ! i = Some c" "0 \<le> sv_socket s" "0 \<le> cd_fd c"
    and w: "wk_clients w = (cd_fd c, cid) # rest" "0 \<le> epfd (wk_em w)" "0 \<le> wk_evfd w" "wk_evfd w \<noteq> cd_fd c"
      "frame_wf f" "wk_frame w = clear_msg f" "wk_msg w = empty_message"
    and rest: "\<forall>r \<in> set rest. 0 \<le> fst r \<and> fst r \<noteq> cd_fd c \<and> snd r \<noteq> cid \<and> client_of (snd r) s \<noteq> None \<and> \<not> has_left s r"
    and os: "sys_epoll_wait os (hist s) (epfd (wk_em w)) (int (length (events (wk_em w)))) = (1, [(cd_fd c, EPOLLIN)])" "evfd_spec os" "0 \<le> wk_listener_evfd w"
      "sys_recv os (hist s @ [Ev_epoll_wait 1]) (cd_fd c) (int MAX_LEN) = (int (length b), b, e)" "bids_farewell b"
    and q: "inv (q_worker_to_listener s)" "length (items (q_worker_to_listener s)) < QUEUE_SIZE" and wf: "server_wf s"
  shows "\<exists>w' q t. worker_iteration os Q w s = (Inr w', t) \<and> wk_clients w' = rest \<and>
    after_farewell i c (wk_listener_evfd w) q s t \<and> inv q \<and>
    items q = items (q_worker_to_listener s) @ [get_concatenated_msg (leave_message c (wk_index w) cid empty_message)]"
proof -
  let ?em = "(wk_em w)\<lparr>events := (cd_fd c, EPOLLIN) # drop 1 (events (wk_em w))\<rparr>"
  let ?s = "emit (Ev_epoll_wait 1) s" and ?w = "w\<lparr>wk_em := ?em\<rparr>" and ?d = "set_state DISCONNECT_STATE c"
  have wait: "wait_events os (wk_em w) s = (Inr (1, ?em), ?s)" using os(1) w(2) by (simp add: wait_events_def)
  have ev: "check_event ?em (cd_fd c) EPOLLIN 1 = Inr True" "check_event ?em (cd_fd c) EPOLLOUT 1 = Inr False"
    "check_event ?em (wk_evfd w) EPOLLIN 1 = Inr False"
    using c(4) w(2-4) by (simp_all add: check_event_def event_matches_def EPOLLIN_def EPOLLOUT_def)
  have i: "i < length (clients s)" and cid: "cd_personal_id c = cid" using get_client_ref_SomeD [OF c(1)] c(2) by auto
  define u where "u = put_client i ?d (emit (Ev_recv (cd_fd c) (int (length b))) ?s)"
  obtain m where m: "client_events os Q 1 (cd_fd c, cid) ?w ?s = (Inr (?w\<lparr>wk_frame := clear_msg f, wk_msg := m\<rparr>), u)"
    "leave_message ?d (wk_index w) cid m = leave_message ?d (wk_index w) cid empty_message"
    using farewell_read [of cid ?s i c ?w 1 f os b e Q ?d "wk_index w" cid] c w ev os(4,5)
    by (auto simp: u_def get_client_ref_def)
  let ?v = "?w\<lparr>wk_frame := clear_msg f, wk_msg := m\<rparr>"
  have all: "all_client_events os Q 1 (wk_clients w) ?w ?s = (Inr ?v, u)"
    using m(1) w(1) quiet_clients [of ?v "cd_fd c" EPOLLIN _ rest os Q u] w(2) rest by simp
  have uniq: "ids_unique (clients s)" using wf by (simp add: server_wf_def)
  have look: "get_client_ref cid u = Some i" "deref i u = Inr ?d"
    using c(1,2) i cid uniq get_client_ref_put [of i ?s c ?d cid]
    by (simp_all add: u_def deref_def get_client_ref_def)
  have "client_of j u = (if j = cid then Some ?d else client_of j (emit (Ev_recv (cd_fd c) (int (length b))) ?s))" for j
    unfolding u_def using i c(2) cid uniq by (subst client_of_put [where c = c]) simp_all
  then have look3: "client_of j u = (if j = cid then Some ?d else client_of j s)" for j
    using table_views_cong(1) [of "emit (Ev_recv (cd_fd c) (int (length b))) ?s" s] by simp
  have stay: "\<forall>r \<in> set rest. client_of (snd r) u \<noteq> None \<and> \<not> has_left u r"
    using rest by (auto simp: look3 has_left_def)
  let ?msg = "leave_message ?d (wk_index w) cid empty_message"
  have "inv (q_worker_to_listener u)" "length (items (q_worker_to_listener u)) < QUEUE_SIZE" using q by (simp_all add: u_def)
  from worker_push_ok [OF this os(2,3), of ?msg] obtain q' where
    q': "worker_push os Q ?msg (wk_listener_evfd w) u =
      (Inr (), emit (Ev_write_evfd (wk_listener_evfd w) event_size) (u\<lparr>q_worker_to_listener := q'\<rparr>))"
    "inv q'" "items q' = items (q_worker_to_listener s) @ [get_concatenated_msg ?msg]" by (auto simp: u_def)
  define t where "t = emit_print (Cout (ln (''Client ID:'' @ to_string cid @ '' Signaled for disconnect!'')))
      (emit (Ev_write_evfd (wk_listener_evfd w) event_size) (u\<lparr>q_worker_to_listener := q'\<rparr>))"
  have "\<forall>r \<in> set rest. client_of (snd r) t \<noteq> None \<and> \<not> has_left t r"
    using stay table_views_cong(1,3) [of t u] by (simp add: t_def)
  from erase_none [OF this] have "erase_disconnected os Q (wk_clients ?v) ?v u = (Inr (rest, ?v\<lparr>wk_msg := ?msg\<rparr>), t)"
    using w(1) look(1,2) m(2) q'(1) by (simp add: t_def get_state_def set_state_def Let_def)
  then have "worker_iteration os Q w s = (Inr (?v\<lparr>wk_msg := ?msg, wk_clients := rest\<rparr>), t)"
    using wait ev(3) all by (simp add: worker_iteration_def take_new_client_def Let_def)
  moreover have "after_farewell i c (wk_listener_evfd w) q' s t"
    by (simp add: after_farewell_def t_def u_def emit_def emit_print_def put_client_def evfd_count_def event_size_def)
      (rule exI, rule refl)
  moreover have "?msg = leave_message c (wk_index w) cid empty_message" by (simp add: leave_message_def set_state_def)
  ultimately show ?thesis using q'(2,3) by (intro exI conjI) (assumption | simp)+
qed

end

subsection \<open>The listener and the others\<close>

interpretation sockw: steady "\<lambda>s. sv_socket s = k" Q for k Q
  by unfold_locales (auto simp: put_client_def)

lemma dispatch_disconnect_socket:
  assumes "stoi (sm_id msg) = Inr cid"
  shows "sv_socket (snd (dispatch_disconnect Q msg ids s)) = sv_socket s"
proof (rule sockw.keep_dispatch_disconnect [OF assms])
  show "sv_socket (snd (disconnect_client cid (emit_print (Cout (ln ''Client disconnected'')) s))) = sv_socket s"
    by (auto simp: disconnect_client_def Let_def close_fd_def split: option.splits sum.splits)
qed

lemma map_filter_by_map: "List.map_filter f xs = map the (filter (\<lambda>x. x \<noteq> None) (map f xs))"
  by (simp add: List.map_filter_def filter_map o_def)

lemma connected_IDs_put_same:
  assumes "i < length (clients s)" "clients s ! i = Some c" "cd_personal_id d = cd_personal_id c"
  shows "get_connected_IDs (put_client i d s) = get_connected_IDs s"
proof -
  have "map (map_option cd_personal_id) ((clients s)[i := Some d]) = map (map_option cd_personal_id) (clients s)"
    using assms by (intro nth_equalityI) (auto simp: nth_list_update)
  then show ?thesis by (simp only: get_connected_IDs_def put_server_simps map_filter_by_map)
qed

lemma after_farewell_views:
  fixes s :: "(string state_cells queue_common, 'z) manager_state_scheme"
  assumes s: "server_wf s" "queues_ok string_queue_inv s" "pool_wf s"
    and c: "get_client_ref cid s = Some i" "clients s ! i = Some c" and t: "after_farewell i c levfd q s t"
  shows "server_wf t" "queues_ok string_queue_inv t" "pool_wf t" "client_of cid t = Some (set_state DISCONNECT_STATE c)"
    "pending string_queue_items j t = pending string_queue_items j s" "j \<noteq> cid \<Longrightarrow> identity j t = identity j s"
    "full_queue string_queue_items ex ids t = full_queue string_queue_items ex ids s" "cid \<in> set (get_connected_IDs t)"
    "get_connected_IDs t = get_connected_IDs s"
    "q_worker_to_listener t = q" "sv_socket t = sv_socket s" "worker_threads t = worker_threads s" "0 < evfd_count (hist t) levfd"
proof -
  let ?d = "set_state DISCONNECT_STATE c"
  have i: "i < length (clients s)" and cid: "cd_personal_id c = cid" using get_client_ref_SomeD [OF c(1)] c(2) by auto
  have eq: "same_table (put_client i ?d s) t" using t by (auto simp: after_farewell_def same_table_def put_client_def)
  have uniq: "ids_unique (clients s)" using s(1) by (simp add: server_wf_def)
  have cl: "client_of j t = (if j = cid then Some ?d else client_of j s)" for j
    using client_of_put [OF uniq i c(2), of ?d j] cid by (simp add: same_table_client_of [OF eq])
  have old: "client_of cid s = Some c" using c by (simp add: client_of_def)
  show "client_of cid t = Some ?d" and pend: "pending string_queue_items j t = pending string_queue_items j s"
    and "j \<noteq> cid \<Longrightarrow> identity j t = identity j s" for j
    using old by (simp_all add: cl pending_def identity_def)
  then show "full_queue string_queue_items ex ids t = full_queue string_queue_items ex ids s" by (simp add: full_queue_def)
  show "server_wf t" using put_client_wf [OF s(1) i c(2), of ?d] same_table_wf [OF eq] by simp
  have "queues_ok string_queue_inv (put_client i ?d s)"
    using srv.queues_ok_client [OF s(2,1) old] by (intro srv.queues_ok_put s(2)) simp
  then show "queues_ok string_queue_inv t" using srv.queues_ok_same [OF eq] by simp
  show ids: "get_connected_IDs t = get_connected_IDs s"
    using connected_IDs_put_same [OF i c(2), of ?d] by (simp add: same_table_ids [OF eq])
  then show "cid \<in> set (get_connected_IDs t)" using c(1) by (simp add: connected_IDs_iff)
  show "q_worker_to_listener t = q" "sv_socket t = sv_socket s" "worker_threads t = worker_threads s" "0 < evfd_count (hist t) levfd"
    using t by (auto simp: after_farewell_def)
  show "pool_wf t" using s(3) pool_wf_cong [of t s] t by (auto simp: after_farewell_def)
qed

text \<open>The notice the listener writes into the queues of those who stay.\<close>

definition leave_notice :: "'q client_data \<Rightarrow> int \<Rightarrow> int \<Rightarrow> server_message" where
  "leave_notice c k cid = (leave_message c k cid empty_message)\<lparr>sm_action := get_action UNICAST_REPEATED,
     sm_msg_content := cd_name c @ '' Has just left!'', sm_name := SERVER_NAME\<rparr>"

lemma leave_notice_fields:
  "sm_action (leave_notice c k cid) = get_action UNICAST_REPEATED" "sm_color_id (leave_notice c k cid) = to_string (cd_color_id c)"
  "sm_name (leave_notice c k cid) = SERVER_NAME" "sm_msg_content (leave_notice c k cid) = cd_name c @ '' Has just left!''"
  "split_token \<notin> set (cd_name c) \<Longrightarrow> sendable (leave_notice c k cid)"
  "split_token \<notin> set (cd_name c) \<Longrightarrow> sendable (leave_message c k cid empty_message)"
  using split_token_simps
  by (auto simp: leave_notice_def leave_message_def sendable_iff empty_message_def SERVER_NAME_def split_token_def)

lemma farewell_crosses_server:
  fixes s :: "(string state_cells queue_common, 'z) manager_state_scheme"
  assumes s: "server_wf s" "queues_ok string_queue_inv s" "pool_wf s" "0 \<le> sv_socket s"
    and c: "get_client_ref cid s = Some i" "clients s ! i = Some c" "split_token \<notin> set (cd_name c)"
      "INT_MIN \<le> cid \<and> cid \<le> INT_MAX"
    and t: "after_farewell i c levfd q s t" "string_queue_inv q"
      "string_queue_items q = [get_concatenated_msg (leave_message c (int k) cid empty_message)]"
    and k: "k < 2" "worker_threads s ! k = Some (n, ev)"
    and os: "evfd_spec os" "0 \<le> levfd" "\<And>h b. 0 \<le> sys_send os h (cd_fd d) b"
    and d: "client_of other s = Some d" "other \<noteq> cid" "cd_init_state d = INIT_DONE_STATE" "0 \<le> cd_fd d"
    and room: "\<not> full_queue string_queue_items cid (get_connected_IDs s) s"
  shows "\<exists>u v j rs. listener_process_worker_to_listener_q os (string_queue_ops mv) levfd t = (Inr (), u) \<and>
    client_of cid u = None \<and> worker_threads u = (worker_threads s)[k := if n = 1 then None else Some (n - 1, ev)] \<and>
    get_client_ref other u = Some j \<and> process_output os (string_queue_ops mv) empty_message j u = (Inr empty_message, v) \<and>
    length rs = Suc (length (string_queue_items (cd_send_queue d))) \<and>
    hist v = hist u @ map2 (Ev_send (cd_fd d))
      (string_queue_items (cd_send_queue d) @ [get_concatenated_msg (leave_notice c (int k) cid)]) rs"
proof -
  let ?m = "leave_message c (int k) cid empty_message" and ?b = "get_concatenated_msg (leave_notice c (int k) cid)"
  let ?Q = "string_queue_ops mv"
  note after = after_farewell_views [OF s(1-3) c(1,2) t(1)]
  have ids: "get_connected_IDs t \<noteq> []" using after(8) by auto
  have parse: "construct_from_string (get_concatenated_msg ?m) empty_message = Inr ?m"
    using leave_notice_fields(6) [OF c(3)] by (simp add: construct_of_concatenated)
  have q: "string_queue_inv (q_worker_to_listener t)" "string_queue_items (q_worker_to_listener t) = [get_concatenated_msg ?m]"
    using t(2,3) after(10) by simp_all
  obtain q' u0 where u0: "listener_process_worker_to_listener_q os ?Q levfd t =
      dispatch_message ?Q ?m (get_concatenated_msg ?m) (get_connected_IDs t) u0"
    "u0 = (emit (Ev_read_evfd levfd event_size) t)\<lparr>q_worker_to_listener := q'\<rparr>" "same_table t u0"
    by (rule srv.listener_takes_one [OF os(1,2) after(13) q parse ids, of mv])
  note views = srv.same_table_views [OF u0(3)] same_table_ids [OF u0(3)] same_table_client_of [OF u0(3)]
  have m: "stoi (sm_id ?m) = Inr cid" "stoi (sm_thread_number ?m) = Inr (int k)"
    using c(4) k(1) by (auto simp: leave_message_def stoi_to_string INT_MIN_def INT_MAX_def)
  have u0k: "server_wf u0" "queues_ok string_queue_inv u0" "pool_wf u0" "client_of cid u0 = Some (set_state DISCONNECT_STATE c)"
    "worker_threads u0 ! k = Some (n, ev)" "\<not> full_queue string_queue_items cid (get_connected_IDs u0) u0"
    using after(1-4,7,9,12) room k(2) same_table_wf [OF u0(3)] srv.queues_ok_same [OF u0(3)] pool_wf_cong [of u0 t]
    by (simp_all add: views, simp_all add: u0(2))
  have out: "get_concatenated_msg (?m\<lparr>sm_action := get_action UNICAST_REPEATED,
      sm_msg_content := sm_name ?m @ '' Has just left!'', sm_name := SERVER_NAME\<rparr>) = ?b"
    by (simp add: leave_notice_def leave_message_def)
  obtain u where u: "dispatch_disconnect ?Q ?m (get_connected_IDs u0) u0 = (Inr (), u)" "server_wf u" "queues_ok string_queue_inv u"
    "client_of cid u = None" "identity other u = identity other u0"
    "pending string_queue_items other u = map_option (\<lambda>ms. ms @ [?b]) (pending string_queue_items other u0)"
    "worker_threads u = (worker_threads u0)[k := if n = 1 then None else Some (n - 1, ev)]"
    using srv.dispatch_disconnect_outcome [OF u0k(1-3) m u0k(4) k(1) u0k(5,6), of mv] d(2) unfolding out by blast
  have run: "listener_process_worker_to_listener_q os ?Q levfd t = (Inr (), u)"
    using u0(1) u(1) by (simp add: dispatch_message_def leave_message_def views)
  have "identity other u = Some (cd_fd d, cd_name d, cd_color_id d, cd_init_state d)"
    "pending string_queue_items other u = Some (string_queue_items (cd_send_queue d) @ [?b])"
    using u(5,6) d(1,2) views(1,2) [of other] after(5,6) [of other] by (simp_all add: identity_def pending_def)
  then obtain d' where d': "client_of other u = Some d'" "cd_fd d' = cd_fd d" "cd_init_state d' = INIT_DONE_STATE"
    "string_queue_items (cd_send_queue d') = string_queue_items (cd_send_queue d) @ [?b]"
    using d(3) by (auto simp: identity_def pending_def)
  then obtain j where j: "get_client_ref other u = Some j" "clients u ! j = Some d'"
    by (auto simp: client_of_def split: option.splits)
  have "sv_socket u = sv_socket s"
    using dispatch_disconnect_socket [OF m(1), of ?Q "get_connected_IDs u0" u0] u(1) after(11) by (simp add: u0(2))
  then have "0 \<le> sv_socket u" "0 \<le> cd_fd d'" "\<And>h b. 0 \<le> sys_send os h (cd_fd d') b" using s(4) d(4) d'(2) os(3) by simp_all
  from output_drains [OF u(2,3) j d'(3) this, of mv empty_message] obtain v rs where
    "process_output os ?Q empty_message j u = (Inr empty_message, v)" "length rs = length (string_queue_items (cd_send_queue d'))"
    "hist v = hist u @ map2 (Ev_send (cd_fd d')) (string_queue_items (cd_send_queue d')) rs" by blast
  moreover have "worker_threads u0 = worker_threads s" using after(12) by (simp add: u0(2))
  ultimately show ?thesis using run u(4,7) j(1) d'(2,4) by auto
qed

subsection \<open>A client leaves\<close>

definition farewell_bytes :: "'z client_scheme \<Rightarrow> string" where
  "farewell_bytes a = get_concatenated_msg (client_quit_message a empty_message)"

lemma quit_outcome:
  assumes "sys_stdin_line os (hist a) = Some QUIT_MSG" "0 \<le> cl_socket a" "\<forall>h x. 0 \<le> sys_send os h (cl_socket a) x"
  shows "\<exists>a' r. send_msg_from_stdin os empty_message a = (Inr empty_message, a') \<and> client_done a' \<and>
    last (hist a') = Ev_send (cl_socket a) (farewell_bytes a) r"
proof -
  let ?a = "(emit (Ev_stdin (Some QUIT_MSG)) a)\<lparr>client_done := True\<rparr>"
  have "client_quit_message (emit (Ev_stdin (Some QUIT_MSG)) a) empty_message = client_quit_message a empty_message"
    by (simp add: client_quit_message_def)
  then show ?thesis
    using assms client_send_ok [of ?a os "farewell_bytes a"]
    by (simp add: send_msg_from_stdin_def send_and_reset_def reset_msg_empty farewell_bytes_def Let_def)
qed

lemma farewell_bids:
  assumes "split_token \<notin> set (cl_name a)" "split_token \<notin> set (cl_id a)" "CHR 0x00 \<notin> set (farewell_bytes a)"
    "length (farewell_bytes a) < MAX_LEN" "b = farewell_bytes a \<or> b = []"
  shows "bids_farewell b"
proof -
  have "sendable (client_quit_message a empty_message)"
    using assms(1,2) split_token_simps by (auto simp: sendable_iff client_quit_message_def empty_message_def split_token_def)
  then have "bids_farewell (farewell_bytes a)"
    using assms(3,4) unfolding bids_farewell_def farewell_bytes_def
    by (intro disjI2 exI [of _ "client_quit_message a empty_message"]) (simp add: client_quit_message_def empty_message_def)
  with assms(5) show ?thesis by (auto simp: bids_farewell_def)
qed

text \<open>C3: leaving, end to end. \<open>#quit\<close> makes a client send its farewell and stop. The turn of its
  worker that reads these bytes, or the end of a connection that broke without a farewell, drops the
  client from the worker; the listener's next message then takes the client out of the table and off
  the worker's count and appends a notice to the queue of every other client; the next output to
  another client sends the notice, and the client that reads it prints that the user has just left,
  in the user's colour.\<close>

theorem client_leaves:
  fixes s :: "(string state_cells queue_common, 'z) manager_state_scheme"
    and a :: "'y client_scheme" and b :: "'x client_scheme"
  assumes user: "sys_stdin_line osA (hist a) = Some QUIT_MSG" "0 \<le> cl_socket a" "\<forall>h x. 0 \<le> sys_send osA h (cl_socket a) x"
      "split_token \<notin> set (cl_name a)" "split_token \<notin> set (cl_id a)" "CHR 0x00 \<notin> set (farewell_bytes a)"
      "length (farewell_bytes a) < MAX_LEN" "bye = farewell_bytes a \<or> bye = []"
    and server: "server_wf s" "queues_ok string_queue_inv s" "pool_wf s" "0 \<le> sv_socket s"
      "string_queue_inv (q_worker_to_listener s)" "string_queue_items (q_worker_to_listener s) = []"
      "\<not> full_queue string_queue_items cid (get_connected_IDs s) s"
    and leaver: "get_client_ref cid s = Some i" "clients s ! i = Some c" "0 \<le> cd_fd c" "split_token \<notin> set (cd_name c)"
      "INT_MIN \<le> cid \<and> cid \<le> INT_MAX" "0 \<le> cd_color_id c \<and> cd_color_id c \<le> 14"
    and worker: "wk_index w = int k" "k < 2" "worker_threads s ! k = Some (n, ev)" "wk_clients w = (cd_fd c, cid) # rest"
      "0 \<le> epfd (wk_em w)" "0 \<le> wk_evfd w" "wk_evfd w \<noteq> cd_fd c" "frame_wf f" "wk_frame w = clear_msg f" "wk_msg w = empty_message"
      "\<forall>r \<in> set rest. 0 \<le> fst r \<and> fst r \<noteq> cd_fd c \<and> snd r \<noteq> cid \<and> client_of (snd r) s \<noteq> None \<and> \<not> has_left s r"
    and turn: "sys_epoll_wait os (hist s) (epfd (wk_em w)) (int (length (events (wk_em w)))) = (1, [(cd_fd c, EPOLLIN)])" "evfd_spec os" "0 \<le> wk_listener_evfd w"
      "sys_recv os (hist s @ [Ev_epoll_wait 1]) (cd_fd c) (int MAX_LEN) = (int (length bye), bye, e)"
    and other: "client_of j s = Some d" "j \<noteq> cid" "cd_init_state d = INIT_DONE_STATE" "0 \<le> cd_fd d"
      "\<And>h x. 0 \<le> sys_send os h (cd_fd d) x"
    and reader: "frame_wf g" "0 \<le> cl_socket b" "cl_init_req b" "cl_init_done b" "0 \<le> cl_color_id b \<and> cl_color_id b \<le> 14"
      "notice = get_concatenated_msg (leave_notice c (int k) cid)" "CHR 0x00 \<notin> set notice" "length notice < MAX_LEN"
      "sys_recv osB (hist b) (cl_socket b) (int MAX_LEN) = (int (length notice), notice, e')"
  shows "\<exists>a' r w' t u l v r' b'. send_msg_from_stdin osA empty_message a = (Inr empty_message, a') \<and> client_done a' \<and>
      last (hist a') = Ev_send (cl_socket a) (farewell_bytes a) r \<and>
      worker_iteration os (string_queue_ops mv) w s = (Inr w', t) \<and> wk_clients w' = rest \<and>
      listener_process_worker_to_listener_q os (string_queue_ops mv) (wk_listener_evfd w) t = (Inr (), u) \<and>
      client_of cid u = None \<and> worker_threads u = (worker_threads s)[k := if n = 1 then None else Some (n - 1, ev)] \<and>
      get_client_ref j u = Some l \<and> process_output os (string_queue_ops mv) empty_message l u = (Inr empty_message, v) \<and>
      last (hist v) = Ev_send (cd_fd d) notice r' \<and>
      receive_msg_from_sv osB (clear_msg g) b = (Inr (clear_msg g), b') \<and>
      last (hist b') = Ev_print (Cout (get_color COL_END @ COLOR_ARR ! nat (cd_color_id c) @ SERVER_NAME @ '': '' @ cd_name c
         @ '' Has just left!'' @ get_color COL_END @ COLOR_ARR ! nat (cl_color_id b) @ [CHR 0x0A]))"
proof -
  obtain a' r where a': "send_msg_from_stdin osA empty_message a = (Inr empty_message, a')" "client_done a'"
    "last (hist a') = Ev_send (cl_socket a) (farewell_bytes a) r" using quit_outcome [OF user(1-3)] by blast
  have "length (string_queue_items (q_worker_to_listener s)) < QUEUE_SIZE" using server(6) by simp
  from srv.leaving_turn [OF leaver(1,2) server(4) leaver(3) worker(4-11) turn farewell_bids [OF user(4-8)] server(5) this server(1), of mv]
  obtain w' q t where t: "worker_iteration os (string_queue_ops mv) w s = (Inr w', t)" "wk_clients w' = rest"
    "after_farewell i c (wk_listener_evfd w) q s t" "string_queue_inv q"
    "string_queue_items q = [get_concatenated_msg (leave_message c (int k) cid empty_message)]"
    using server(6) worker(1) by auto
  from farewell_crosses_server [OF server(1-4) leaver(1,2,4,5) t(3-5) worker(2,3) turn(2,3) other(5) other(1-4) server(7), of mv]
  obtain u v l rs where srv: "listener_process_worker_to_listener_q os (string_queue_ops mv) (wk_listener_evfd w) t = (Inr (), u)"
    "client_of cid u = None" "worker_threads u = (worker_threads s)[k := if n = 1 then None else Some (n - 1, ev)]"
    "get_client_ref j u = Some l" "process_output os (string_queue_ops mv) empty_message l u = (Inr empty_message, v)"
    "length rs = Suc (length (string_queue_items (cd_send_queue d)))"
    "hist v = hist u @ map2 (Ev_send (cd_fd d)) (string_queue_items (cd_send_queue d) @ [notice]) rs"
    unfolding reader(6) by blast
  obtain rs' r' where "rs = rs' @ [r']" using srv(6) by (cases rs rule: rev_cases) auto
  with srv(6,7) have "last (hist v) = Ev_send (cd_fd d) notice r'" by simp
  moreover obtain b' where "receive_msg_from_sv osB (clear_msg g) b = (Inr (clear_msg g), b')"
    "last (hist b') = Ev_print (Cout (get_color COL_END @ COLOR_ARR ! nat (cd_color_id c) @ SERVER_NAME @ '': '' @ cd_name c
         @ '' Has just left!'' @ get_color COL_END @ COLOR_ARR ! nat (cl_color_id b) @ [CHR 0x0A]))"
    using received_line_outcome [OF reader(1-4) reader(9) [unfolded reader(6)] leave_notice_fields(5) [OF leaver(4)]
        reader(7,8) [unfolded reader(6)] leave_notice_fields(1,2) leaver(6) reader(5)]
    by (auto simp: leave_notice_fields)
  ultimately show ?thesis using a' t(1,2) srv(1-5) by blast
qed

definition leaving_os :: "string \<Rightarrow> os" where
  "leaving_os b = (delivering_os b)\<lparr>sys_epoll_wait := (\<lambda>h fd n. (1, [(14, EPOLLIN)]))\<rparr>"

definition leaving_client :: client where
  "leaving_client = (chatting_client [])\<lparr>cl_id := to_string 4, cl_name := ''n''\<rparr>"

definition sample_notice :: string where
  "sample_notice = get_concatenated_msg (leave_notice (table_client (string_queue_ops (\<lambda>s. s)) 4) (int 0) 4)"

lemma to_string_zero: "to_string 0 = ''0''"
  by code_simp

lemma sample_notice_bytes: "CHR 0x00 \<notin> set sample_notice" "length sample_notice < MAX_LEN"
  "CHR 0x00 \<notin> set (farewell_bytes leaving_client)" "length (farewell_bytes leaving_client) < MAX_LEN"
  by (simp_all add: sample_notice_def leave_notice_def leave_message_def table_client_def get_concatenated_msg_def empty_message_def
      farewell_bytes_def client_quit_message_def leaving_client_def chatting_client_def split_token_def to_string_samples to_string_zero SERVER_NAME_def)

theorem client_leaves_witness:
  "\<exists>w' t u b'. worker_iteration (leaving_os (farewell_bytes leaving_client)) (string_queue_ops (\<lambda>s. s))
      (sample_worker 0 [(14, 4)]) (busy_server [4, 7] [] []) = (Inr w', t) \<and> wk_clients w' = [] \<and>
    listener_process_worker_to_listener_q (leaving_os (farewell_bytes leaving_client)) (string_queue_ops (\<lambda>s. s)) 7 t = (Inr (), u) \<and>
    client_of 4 u = None \<and> worker_threads u = [None, Some (1, 8)] \<and>
    receive_msg_from_sv (delivering_os sample_notice) (clear_msg blank_frame) (chatting_client []) = (Inr (clear_msg blank_frame), b') \<and>
    last (hist b') = Ev_print (Cout (get_color COL_END @ COLOR_ARR ! 2 @ ''SERVER: n Has just left!'' @ get_color COL_END
      @ COLOR_ARR ! 4 @ [CHR 0x0A]))"
proof -
  let ?a = leaving_client and ?s = "busy_server [4, 7] [] []" and ?b = "chatting_client []" and ?w = "sample_worker 0 [(14, 4)]"
  let ?Q = "string_queue_ops (\<lambda>s. s)" and ?bye = "farewell_bytes leaving_client"
  let ?c = "table_client ?Q 4" and ?d = "table_client ?Q 7"
  have user: "sys_stdin_line (typing_os QUIT_MSG) (hist ?a) = Some QUIT_MSG" "0 \<le> cl_socket ?a"
    "\<forall>h x. 0 \<le> sys_send (typing_os QUIT_MSG) h (cl_socket ?a) x" "split_token \<notin> set (cl_name ?a)" "split_token \<notin> set (cl_id ?a)"
    by (simp_all add: typing_os_def quiet_os_def leaving_client_def chatting_client_def split_token_def to_string_samples)
  have q: "string_queue_inv (q_worker_to_listener ?s)" "string_queue_items (q_worker_to_listener ?s) = []"
    using busy_server_queue [of "[]" "[4, 7]" "[]"] by simp_all
  have c: "get_client_ref 4 ?s = Some 0" "clients ?s ! 0 = Some ?c" "0 \<le> cd_fd ?c" "split_token \<notin> set (cd_name ?c)"
    "INT_MIN \<le> 4 \<and> 4 \<le> INT_MAX" "0 \<le> cd_color_id ?c \<and> cd_color_id ?c \<le> 14" "0 \<le> sv_socket ?s" "cd_fd ?c = 14"
    by (simp_all add: get_client_ref_def busy_server_def table_with_def table_client_def has_id_def split_token_def INT_MIN_def INT_MAX_def)
  have w: "wk_index ?w = int 0" "worker_threads ?s ! 0 = Some (1, 7)" "wk_clients ?w = (cd_fd ?c, 4) # []"
    "0 \<le> epfd (wk_em ?w)" "0 \<le> wk_evfd ?w" "wk_evfd ?w \<noteq> cd_fd ?c" "wk_frame ?w = clear_msg blank_frame" "wk_msg ?w = empty_message"
    "0 \<le> wk_listener_evfd ?w" "wk_listener_evfd ?w = 7"
    by (simp_all add: sample_worker_def busy_server_def table_client_def blank_frame_def clear_msg_def)
  have os: "sys_epoll_wait (leaving_os ?bye) (hist ?s) (epfd (wk_em ?w)) (int (length (events (wk_em ?w)))) = (1, [(cd_fd ?c, EPOLLIN)])" "evfd_spec (leaving_os ?bye)"
    "sys_recv (leaving_os ?bye) h fd n = (int (length ?bye), ?bye, EAGAIN)" "0 \<le> sys_send (leaving_os ?bye) h fd x" for h fd n x
    using quiet_os_specs(2) by (simp_all add: leaving_os_def delivering_os_def evfd_spec_def quiet_os_def table_client_def)
  have d: "client_of 7 ?s = Some ?d" "cd_init_state ?d = INIT_DONE_STATE" "0 \<le> cd_fd ?d"
    using same_table_client_of [OF busy_server_table, of _ "[4, 7]"] by (simp_all add: table_with_two_client table_client_def)
  have b: "0 \<le> cl_socket ?b" "cl_init_req ?b" "cl_init_done ?b" "0 \<le> cl_color_id ?b \<and> cl_color_id ?b \<le> 14"
    "sys_recv (delivering_os sample_notice) h fd n = (int (length sample_notice), sample_notice, EAGAIN)" for h fd n
    by (simp_all add: chatting_client_def delivering_os_def)
  have out: "cd_color_id ?c = 2" "cl_color_id ?b = 4" "cd_name ?c = ''n''" "worker_threads ?s = [Some (1, 7), Some (1, 8)]"
    by (simp_all add: table_client_def chatting_client_def busy_server_def)
  show ?thesis
    using client_leaves [OF user sample_notice_bytes(3,4) disjI1 [OF refl] busy_server_wf busy_server_queues busy_server_pool c(7) q busy_server_room
        c(1-6) w(1) _ w(2-6) blank_frame_wf w(7,8) _ os(1,2) w(9) os(3) d(1) _ d(2,3) os(4) blank_frame_wf b(1-4)
        sample_notice_def sample_notice_bytes(1,2) b(5), of "\<lambda>s. s"]
    by (auto simp: out w(10) SERVER_NAME_def)
qed

end
