(* ===== verification/Concurrent_Queue.thy ===== *)
theory Concurrent_Queue
  imports Atomic_Queue "HOL-Library.Multiset"
begin

text \<open>
  The queue under concurrency: \<^verbatim>\<open>try_push\<close> and \<^verbatim>\<open>try_pop\<close> of \<^verbatim>\<open>AtomicQueueCommon\<close> with
  \<^verbatim>\<open>do_push_any\<close> and \<^verbatim>\<open>do_pop_any\<close> (the branches for several producers and consumers), one atomic
  access to shared memory per step, any number of threads, any interleaving.

  This is the specification of the machine of \<open>Word_Queue\<close>, which has the words and the index
  shuffle of the source: here tickets are natural numbers and the slot of a ticket is its
  remainder modulo the size. Accesses are sequentially consistent in both; the memory orders of
  the source are not modelled.

  Two fields only record what happened: \<open>cq_ins\<close> and \<open>cq_outs\<close>, the elements stored and
  taken so far, each with its slot.
\<close>

datatype ('a, 't) pc =
    Idle
  | Push_test 'a 't
  | Push_cas 'a 't
  | Push_claim 'a 't
  | Push_store 'a 't
  | Push_publish 'a 't
  | Pop_test 't
  | Pop_cas 't
  | Pop_claim 't
  | Pop_load 't
  | Pop_release 'a 't

record 'a cqueue =
  cq_head :: nat
  cq_tail :: nat
  cq_state :: "nat \<Rightarrow> slot_state"
  cq_elem :: "nat \<Rightarrow> 'a"
  cq_pc :: "nat \<Rightarrow> ('a, nat) pc"
  cq_ins :: "(nat \<times> 'a) list"
  cq_outs :: "(nat \<times> 'a) list"

definition cq_at :: "nat \<Rightarrow> ('a, nat) pc \<Rightarrow> 'a cqueue \<Rightarrow> 'a cqueue" where
  "cq_at t p s = s\<lparr>cq_pc := (cq_pc s)(t := p)\<rparr>"

definition cq_mark :: "nat \<Rightarrow> slot_state \<Rightarrow> 'a cqueue \<Rightarrow> 'a cqueue" where
  "cq_mark i v s = s\<lparr>cq_state := (cq_state s)(i := v)\<rparr>"

definition cq_put :: "nat \<Rightarrow> 'a \<Rightarrow> 'a cqueue \<Rightarrow> 'a cqueue" where
  "cq_put i x s = s\<lparr>cq_elem := (cq_elem s)(i := x)\<rparr>"

text \<open>
  The steps of a thread inside \<^verbatim>\<open>try_push\<close>. A compare-and-swap that fails, for good reason or
  spuriously, leaves the current value of the head for the next test; waiting for a slot
  changes nothing.
\<close>

inductive push_step :: "nat \<Rightarrow> nat \<Rightarrow> 'a cqueue \<Rightarrow> 'a cqueue \<Rightarrow> bool" for n t where
  push_start: "cq_pc s t = Idle \<Longrightarrow> push_step n t s (cq_at t (Push_test x (cq_head s)) s)"
| push_full: "cq_pc s t = Push_test x h \<Longrightarrow> int n \<le> int h - int (cq_tail s) \<Longrightarrow> push_step n t s (cq_at t Idle s)"
| push_room: "cq_pc s t = Push_test x h \<Longrightarrow> int h - int (cq_tail s) < int n \<Longrightarrow>
    push_step n t s (cq_at t (Push_cas x h) s)"
| push_won: "cq_pc s t = Push_cas x h \<Longrightarrow> cq_head s = h \<Longrightarrow>
    push_step n t s (cq_at t (Push_claim x h) (s\<lparr>cq_head := h + 1\<rparr>))"
| push_lost: "cq_pc s t = Push_cas x h \<Longrightarrow> push_step n t s (cq_at t (Push_test x (cq_head s)) s)"
| push_claim: "cq_pc s t = Push_claim x h \<Longrightarrow> cq_state s (h mod n) = EMPTY \<Longrightarrow>
    push_step n t s (cq_at t (Push_store x h) (cq_mark (h mod n) STORING s))"
| push_wait: "cq_pc s t = Push_claim x h \<Longrightarrow> push_step n t s s"
| push_store: "cq_pc s t = Push_store x h \<Longrightarrow>
    push_step n t s (cq_at t (Push_publish x h) (cq_put (h mod n) x s))"
| push_publish: "cq_pc s t = Push_publish x h \<Longrightarrow>
    push_step n t s (cq_at t Idle ((cq_mark (h mod n) STORED s)\<lparr>cq_ins := cq_ins s @ [(h mod n, x)]\<rparr>))"

text \<open>The steps inside \<^verbatim>\<open>try_pop\<close>. Moving the element out leaves some value behind.\<close>

inductive pop_step :: "nat \<Rightarrow> nat \<Rightarrow> 'a cqueue \<Rightarrow> 'a cqueue \<Rightarrow> bool" for n t where
  pop_start: "cq_pc s t = Idle \<Longrightarrow> pop_step n t s (cq_at t (Pop_test (cq_tail s)) s)"
| pop_empty: "cq_pc s t = Pop_test k \<Longrightarrow> int (cq_head s) - int k \<le> 0 \<Longrightarrow> pop_step n t s (cq_at t Idle s)"
| pop_some: "cq_pc s t = Pop_test k \<Longrightarrow> 0 < int (cq_head s) - int k \<Longrightarrow> pop_step n t s (cq_at t (Pop_cas k) s)"
| pop_won: "cq_pc s t = Pop_cas k \<Longrightarrow> cq_tail s = k \<Longrightarrow>
    pop_step n t s (cq_at t (Pop_claim k) (s\<lparr>cq_tail := k + 1\<rparr>))"
| pop_lost: "cq_pc s t = Pop_cas k \<Longrightarrow> pop_step n t s (cq_at t (Pop_test (cq_tail s)) s)"
| pop_claim: "cq_pc s t = Pop_claim k \<Longrightarrow> cq_state s (k mod n) = STORED \<Longrightarrow>
    pop_step n t s (cq_at t (Pop_load k) (cq_mark (k mod n) LOADING s))"
| pop_wait: "cq_pc s t = Pop_claim k \<Longrightarrow> pop_step n t s s"
| pop_load: "cq_pc s t = Pop_load k \<Longrightarrow>
    pop_step n t s (cq_at t (Pop_release (cq_elem s (k mod n)) k) (cq_put (k mod n) left_over s))"
| pop_release: "cq_pc s t = Pop_release x k \<Longrightarrow>
    pop_step n t s (cq_at t Idle ((cq_mark (k mod n) EMPTY s)\<lparr>cq_outs := cq_outs s @ [(k mod n, x)]\<rparr>))"

definition cq_start :: "'a \<Rightarrow> 'a cqueue" where
  "cq_start v = \<lparr>cq_head = 0, cq_tail = 0, cq_state = (\<lambda>_. EMPTY), cq_elem = (\<lambda>_. v), cq_pc = (\<lambda>_. Idle),
     cq_ins = [], cq_outs = []\<rparr>"

inductive cq_reach :: "nat \<Rightarrow> 'a cqueue \<Rightarrow> bool" for n where
  cq_begin: "cq_reach n (cq_start v)"
| cq_push: "cq_reach n s \<Longrightarrow> push_step n t s s' \<Longrightarrow> cq_reach n s'"
| cq_pop: "cq_reach n s \<Longrightarrow> pop_step n t s s' \<Longrightarrow> cq_reach n s'"

subsection \<open>The tickets\<close>

lemma cq_simps [simp]:
  "cq_head (cq_at t p s) = cq_head s" "cq_tail (cq_at t p s) = cq_tail s" "cq_state (cq_at t p s) = cq_state s"
  "cq_elem (cq_at t p s) = cq_elem s" "cq_pc (cq_at t p s) = (cq_pc s)(t := p)" "cq_ins (cq_at t p s) = cq_ins s"
  "cq_outs (cq_at t p s) = cq_outs s"
  "cq_head (cq_mark i v s) = cq_head s" "cq_tail (cq_mark i v s) = cq_tail s"
  "cq_state (cq_mark i v s) = (cq_state s)(i := v)" "cq_elem (cq_mark i v s) = cq_elem s"
  "cq_pc (cq_mark i v s) = cq_pc s" "cq_ins (cq_mark i v s) = cq_ins s" "cq_outs (cq_mark i v s) = cq_outs s"
  "cq_head (cq_put i x s) = cq_head s" "cq_tail (cq_put i x s) = cq_tail s" "cq_state (cq_put i x s) = cq_state s"
  "cq_elem (cq_put i x s) = (cq_elem s)(i := x)" "cq_pc (cq_put i x s) = cq_pc s" "cq_ins (cq_put i x s) = cq_ins s"
  "cq_outs (cq_put i x s) = cq_outs s"
  by (simp_all add: cq_at_def cq_mark_def cq_put_def)

definition tickets_ok :: "nat \<Rightarrow> 'a cqueue \<Rightarrow> bool" where
  "tickets_ok n s \<longleftrightarrow> cq_tail s \<le> cq_head s \<and> cq_head s \<le> cq_tail s + n \<and>
     (\<forall>t x h. cq_pc s t = Push_cas x h \<longrightarrow> h < cq_tail s + n) \<and>
     (\<forall>t k. cq_pc s t = Pop_cas k \<longrightarrow> k < cq_head s)"

lemma tickets_step:
  assumes "tickets_ok n s"
  shows "push_step n t s s' \<Longrightarrow> tickets_ok n s'" "pop_step n t s s' \<Longrightarrow> tickets_ok n s'"
  using assms by (auto elim!: push_step.cases pop_step.cases simp: tickets_ok_def less_Suc_eq Suc_le_eq split: if_splits)

lemma reach_tickets: "cq_reach n s \<Longrightarrow> tickets_ok n s"
proof (induction rule: cq_reach.induct)
  case cq_begin
  show ?case by (simp add: cq_start_def tickets_ok_def)
qed (use tickets_step in blast)+

subsection \<open>The slots\<close>

text \<open>The slot a thread has claimed for writing, and for reading.\<close>

fun writes :: "nat \<Rightarrow> ('a, nat) pc \<Rightarrow> nat option" where
  "writes n (Push_store x h) = Some (h mod n)"
| "writes n (Push_publish x h) = Some (h mod n)"
| "writes n _ = None"

fun reads :: "nat \<Rightarrow> ('a, nat) pc \<Rightarrow> nat option" where
  "reads n (Pop_load k) = Some (k mod n)"
| "reads n (Pop_release x k) = Some (k mod n)"
| "reads n _ = None"

text \<open>
  Who owns a slot, as a statement on the marks of the slots and the two claims of each thread:
  a claimed slot carries the mark of the claim, and no slot is claimed twice.
\<close>

definition owners :: "(nat \<Rightarrow> slot_state) \<Rightarrow> (nat \<Rightarrow> nat option) \<Rightarrow> (nat \<Rightarrow> nat option) \<Rightarrow> bool" where
  "owners S W R \<longleftrightarrow>
     (\<forall>i. S i = STORING \<longleftrightarrow> (\<exists>t. W t = Some i)) \<and> (\<forall>i. S i = LOADING \<longleftrightarrow> (\<exists>t. R t = Some i)) \<and>
     (\<forall>t u i. W t = Some i \<longrightarrow> W u = Some i \<longrightarrow> t = u) \<and> (\<forall>t u i. R t = Some i \<longrightarrow> R u = Some i \<longrightarrow> t = u)"

lemma owners_unclaimed:
  assumes "owners S W R" "S i = EMPTY \<or> S i = STORED"
  shows "W u \<noteq> Some i" "R u \<noteq> Some i"
  using assms by (metis owners_def slot_state.distinct)+

lemma owners_claim_write:
  assumes "owners S W R" "S i = EMPTY" "W t = None"
  shows "owners (S(i := STORING)) (W(t := Some i)) R"
  using owners_unclaimed [of S W R i] assms by (auto simp: owners_def) (metis option.discI)

lemma owners_end_write: "owners S W R \<Longrightarrow> W t = Some i \<Longrightarrow> owners (S(i := STORED)) (W(t := None)) R"
  unfolding owners_def by (simp, metis option.inject slot_state.distinct)

lemma owners_claim_read:
  assumes "owners S W R" "S i = STORED" "R t = None"
  shows "owners (S(i := LOADING)) W (R(t := Some i))"
  using owners_unclaimed [of S W R i] assms by (auto simp: owners_def) (metis option.discI)

lemma owners_end_read: "owners S W R \<Longrightarrow> R t = Some i \<Longrightarrow> owners (S(i := EMPTY)) W (R(t := None))"
  unfolding owners_def by (simp, metis option.inject slot_state.distinct)

definition owners_ok :: "nat \<Rightarrow> 'a cqueue \<Rightarrow> bool" where
  "owners_ok n s \<longleftrightarrow> owners (cq_state s) (writes n \<circ> cq_pc s) (reads n \<circ> cq_pc s)"

lemma fun_upd_same: "f t = v \<Longrightarrow> f(t := v) = f"
  by auto

lemma owners_push: "push_step n t s s' \<Longrightarrow> owners_ok n s \<Longrightarrow> owners_ok n s'"
  by (erule push_step.cases)
    (auto simp: owners_ok_def fun_upd_comp fun_upd_same intro: owners_claim_write owners_end_write)

lemma owners_pop: "pop_step n t s s' \<Longrightarrow> owners_ok n s \<Longrightarrow> owners_ok n s'"
  by (erule pop_step.cases)
    (auto simp: owners_ok_def fun_upd_comp fun_upd_same intro: owners_claim_read owners_end_read)

text \<open>What went through a slot: what came out, then what is in it, is what went in.\<close>

definition at_slot :: "nat \<Rightarrow> (nat \<times> 'a) list \<Rightarrow> 'a list" where
  "at_slot i xs = map snd (filter (\<lambda>p. fst p = i) xs)"

lemma at_slot_simps [simp]: "at_slot i [] = []"
  "at_slot i (xs @ [(j, x)]) = (if j = i then at_slot i xs @ [x] else at_slot i xs)"
  by (simp_all add: at_slot_def)

definition contents_ok :: "nat \<Rightarrow> 'a cqueue \<Rightarrow> bool" where
  "contents_ok n s \<longleftrightarrow>
     (\<forall>i. cq_state s i = EMPTY \<or> cq_state s i = STORING \<longrightarrow> at_slot i (cq_ins s) = at_slot i (cq_outs s)) \<and>
     (\<forall>i. cq_state s i = STORED \<longrightarrow> at_slot i (cq_ins s) = at_slot i (cq_outs s) @ [cq_elem s i]) \<and>
     (\<forall>t x h. cq_pc s t = Push_publish x h \<longrightarrow> cq_elem s (h mod n) = x) \<and>
     (\<forall>t k. cq_pc s t = Pop_load k \<longrightarrow> at_slot (k mod n) (cq_ins s) = at_slot (k mod n) (cq_outs s) @ [cq_elem s (k mod n)]) \<and>
     (\<forall>t x k. cq_pc s t = Pop_release x k \<longrightarrow> at_slot (k mod n) (cq_ins s) = at_slot (k mod n) (cq_outs s) @ [x])"

text \<open>Steps that touch neither the slots nor the record of what went through them.\<close>

fun holds_nothing :: "('a, nat) pc \<Rightarrow> bool" where
  "holds_nothing (Push_publish x h) = False"
| "holds_nothing (Pop_load k) = False"
| "holds_nothing (Pop_release x k) = False"
| "holds_nothing _ = True"

lemma contents_counters [simp]:
  "contents_ok n (s\<lparr>cq_head := h\<rparr>) = contents_ok n s" "contents_ok n (s\<lparr>cq_tail := h\<rparr>) = contents_ok n s"
  by (simp_all add: contents_ok_def)

lemma contents_move: "contents_ok n s \<Longrightarrow> holds_nothing p \<Longrightarrow> contents_ok n (cq_at t p s)"
  unfolding contents_ok_def by (auto split: if_splits)

lemma owners_okD:
  assumes "owners_ok n s"
  shows "writes n (cq_pc s t) = Some i \<Longrightarrow> cq_state s i = STORING" "reads n (cq_pc s t) = Some i \<Longrightarrow> cq_state s i = LOADING"
    "writes n (cq_pc s t) = Some i \<Longrightarrow> writes n (cq_pc s u) = Some i \<Longrightarrow> u = t"
    "reads n (cq_pc s t) = Some i \<Longrightarrow> reads n (cq_pc s u) = Some i \<Longrightarrow> u = t"
  using assms unfolding owners_ok_def owners_def comp_def by blast+

lemma contents_push:
  assumes "push_step n t s s'" "owners_ok n s" "contents_ok n s"
  shows "contents_ok n s'"
  using assms(1)
proof cases
  case (push_claim x h)
  with assms(3) show ?thesis by (auto simp: contents_ok_def split: if_splits)
next
  case (push_store x h)
  let ?i = "h mod n"
  have w: "writes n (cq_pc s t) = Some ?i" using push_store by simp
  have st: "cq_state s ?i = STORING" using owners_okD(1) [OF assms(2) w] .
  have "g mod n \<noteq> ?i" if "cq_pc s u = Push_publish y g \<or> cq_pc s u = Pop_load g" for u y g
    using owners_okD(2,3) [OF assms(2), of u ?i] owners_okD(3) [OF assms(2) w, of u] st push_store that by auto
  then show ?thesis
    using assms(3) st push_store by (auto simp: contents_ok_def split: if_splits)
next
  case (push_publish x h)
  let ?i = "h mod n"
  have w: "writes n (cq_pc s t) = Some ?i" using push_publish by simp
  have st: "cq_state s ?i = STORING" using owners_okD(1) [OF assms(2) w] .
  then have "k mod n \<noteq> ?i" if "cq_pc s u = Pop_load k \<or> cq_pc s u = Pop_release y k" for u k y
    using owners_okD(2) [OF assms(2), of u ?i] that by auto
  then show ?thesis
    using assms(3) st push_publish by (auto simp: contents_ok_def split: if_splits)
qed (use assms(3) in \<open>auto intro: contents_move\<close>)

lemma contents_pop:
  assumes "pop_step n t s s'" "owners_ok n s" "contents_ok n s"
  shows "contents_ok n s'"
  using assms(1)
proof cases
  case (pop_claim k)
  with assms(3) show ?thesis by (auto simp: contents_ok_def split: if_splits)
next
  case (pop_load k v)
  let ?i = "k mod n"
  have r: "reads n (cq_pc s t) = Some ?i" using pop_load by simp
  have st: "cq_state s ?i = LOADING" using owners_okD(2) [OF assms(2) r] .
  have other: "g mod n \<noteq> ?i" if "cq_pc s u = Pop_load g \<and> u \<noteq> t \<or> cq_pc s u = Push_publish y g" for u g y
    using owners_okD(1) [OF assms(2), of u ?i] owners_okD(4) [OF assms(2) r, of u] st that by auto
  show ?thesis
    using assms(3) st pop_load other by (simp add: contents_ok_def) metis
next
  case (pop_release x k)
  let ?i = "k mod n"
  have r: "reads n (cq_pc s t) = Some ?i" using pop_release by simp
  have st: "cq_state s ?i = LOADING" using owners_okD(2) [OF assms(2) r] .
  have other: "g mod n \<noteq> ?i" if "cq_pc s u = Pop_load g \<or> cq_pc s u = Pop_release y g \<and> u \<noteq> t" for u g y
    using owners_okD(4) [OF assms(2) r, of u] pop_release that by auto
  show ?thesis
    using assms(3) st pop_release by (auto simp: contents_ok_def split: if_splits) (metis other)+
qed (use assms(3) in \<open>auto intro: contents_move\<close>)

lemma reach_slots: "cq_reach n s \<Longrightarrow> owners_ok n s \<and> contents_ok n s"
proof (induction rule: cq_reach.induct)
  case (cq_begin v)
  show ?case by (simp add: cq_start_def owners_ok_def owners_def contents_ok_def)
qed (blast intro: owners_push owners_pop contents_push contents_pop)+

subsection \<open>Progress\<close>

text \<open>The tickets of a thread that has drawn one and not finished, and how many tickets a slot was given.\<close>

fun push_ticket :: "('a, nat) pc \<Rightarrow> nat option" where
  "push_ticket (Push_claim x h) = Some h"
| "push_ticket (Push_store x h) = Some h"
| "push_ticket (Push_publish x h) = Some h"
| "push_ticket _ = None"

fun pop_ticket :: "('a, nat) pc \<Rightarrow> nat option" where
  "pop_ticket (Pop_claim k) = Some k"
| "pop_ticket (Pop_load k) = Some k"
| "pop_ticket (Pop_release x k) = Some k"
| "pop_ticket _ = None"

definition issued :: "nat \<Rightarrow> nat \<Rightarrow> nat \<Rightarrow> nat" where
  "issued n i m = card {k. k < m \<and> k mod n = i}"

definition waiting :: "nat \<Rightarrow> nat \<Rightarrow> (nat \<Rightarrow> nat option) \<Rightarrow> nat set" where
  "waiting n i P = {t. \<exists>k. P t = Some k \<and> k mod n = i}"

lemma issued_Suc: "issued n i (Suc m) = issued n i m + (if m mod n = i then 1 else 0)"
proof -
  have "{k. k < Suc m \<and> k mod n = i} = {k. k < m \<and> k mod n = i} \<union> (if m mod n = i then {m} else {})"
    by (auto simp: less_Suc_eq)
  then show ?thesis by (simp add: issued_def)
qed

lemma issued_zero [simp]: "issued n i 0 = 0"
  by (simp add: issued_def)

lemma issued_mono: "a \<le> b \<Longrightarrow> issued n i a \<le> issued n i b"
  unfolding issued_def by (rule card_mono) auto

lemma mod_window:
  assumes "a \<le> b" "b < a + n" "a mod n = b mod n"
  shows "a = (b :: nat)"
proof -
  have "n dvd b - a" using mod_eq_dvd_iff_nat [OF assms(1)] assms(3) by metis
  moreover have "b - a < n" using assms(1,2) by simp
  ultimately show ?thesis using assms(1) by (auto dest: dvd_imp_le)
qed

lemma issued_window: "issued n i (m + n) \<le> issued n i m + 1"
proof -
  let ?A = "{k. k < m + n \<and> k mod n = i}" and ?B = "{k. k < m \<and> k mod n = i}"
  have "a = b" if ab: "a \<in> ?A - ?B" "b \<in> ?A - ?B" for a b
  proof (rule linorder_le_cases [of a b])
    assume "a \<le> b"
    then show ?thesis by (rule mod_window [of a b n]) (use ab in auto)
  next
    assume "b \<le> a"
    then show ?thesis by (rule mod_window [of b a n, symmetric]) (use ab in auto)
  qed
  moreover have "finite (?A - ?B)" by simp
  ultimately have "card (?A - ?B) \<le> Suc 0" using card_le_Suc0_iff_eq by blast
  moreover have "card (?A - ?B) = card ?A - card ?B" by (rule card_Diff_subset) auto
  ultimately show ?thesis by (simp add: issued_def)
qed

lemma waiting_simps:
  "P t = None \<Longrightarrow> waiting n i (P(t := Some k)) = (if k mod n = i then insert t (waiting n i P) else waiting n i P)"
  "P t = Some k \<Longrightarrow> waiting n i (P(t := None)) = (if k mod n = i then waiting n i P - {t} else waiting n i P)"
  "P t = None \<Longrightarrow> t \<notin> waiting n i P" "P t = Some k \<Longrightarrow> t \<in> waiting n i P \<longleftrightarrow> k mod n = i"
  by (auto simp: waiting_def)

definition counted :: "nat \<Rightarrow> (nat \<times> 'a) list \<Rightarrow> (nat \<Rightarrow> nat option) \<Rightarrow> nat \<Rightarrow> bool" where
  "counted n xs P m \<longleftrightarrow> finite {t. P t \<noteq> None} \<and>
     (\<forall>i. length (at_slot i xs) + card (waiting n i P) = issued n i m)"

lemma counted_finite: "counted n xs P m \<Longrightarrow> finite (waiting n i P)"
  by (rule finite_subset [of _ "{t. P t \<noteq> None}"]) (auto simp: waiting_def counted_def)

lemma counted_draw:
  assumes "counted n xs P m" "P t = None"
  shows "counted n xs (P(t := Some m)) (Suc m)"
proof -
  have "{u. (P(t := Some m)) u \<noteq> None} = insert t {u. P u \<noteq> None}" by auto
  with assms counted_finite [OF assms(1)] show ?thesis
    by (auto simp: counted_def waiting_simps issued_Suc)
qed

lemma counted_finish:
  assumes "counted n xs P m" "P t = Some k"
  shows "counted n (xs @ [(k mod n, x)]) (P(t := None)) m"
proof -
  have fin: "finite {u. (P(t := None)) u \<noteq> None}"
    by (rule finite_subset [of _ "{t. P t \<noteq> None}"]) (use assms in \<open>auto simp: counted_def\<close>)
  have t: "t \<in> waiting n (k mod n) P" using assms(2) by (simp add: waiting_simps)
  then have "0 < card (waiting n (k mod n) P)" using counted_finite [OF assms(1)] by (auto simp: card_gt_0_iff)
  moreover have "length (at_slot (k mod n) xs) + card (waiting n (k mod n) P) = issued n (k mod n) m"
    using assms(1) by (simp add: counted_def)
  ultimately have "Suc (length (at_slot (k mod n) xs) + (card (waiting n (k mod n) P) - Suc 0)) = issued n (k mod n) m"
    by linarith
  then show ?thesis using fin assms t by (auto simp: counted_def waiting_simps)
qed

definition counts_ok :: "nat \<Rightarrow> 'a cqueue \<Rightarrow> bool" where
  "counts_ok n s \<longleftrightarrow> counted n (cq_ins s) (push_ticket \<circ> cq_pc s) (cq_head s) \<and>
     counted n (cq_outs s) (pop_ticket \<circ> cq_pc s) (cq_tail s)"

lemma counts_push: "push_step n t s s' \<Longrightarrow> counts_ok n s \<Longrightarrow> counts_ok n s'"
  by (erule push_step.cases)
    (auto simp: counts_ok_def fun_upd_comp fun_upd_same counted_draw counted_finish)

lemma counts_pop: "pop_step n t s s' \<Longrightarrow> counts_ok n s \<Longrightarrow> counts_ok n s'"
  by (erule pop_step.cases)
    (auto simp: counts_ok_def fun_upd_comp fun_upd_same counted_draw counted_finish)

lemma reach_counts: "cq_reach n s \<Longrightarrow> counts_ok n s"
proof (induction rule: cq_reach.induct)
  case (cq_begin v)
  show ?case by (simp add: cq_start_def counts_ok_def counted_def waiting_def)
qed (blast intro: counts_push counts_pop)+

text \<open>A thread that waits for its slot, and a step that gets the slot further.\<close>

definition waits_for :: "nat \<Rightarrow> nat \<Rightarrow> ('a, nat) pc \<Rightarrow> bool" where
  "waits_for n i p \<longleftrightarrow> (\<exists>x h. p = Push_claim x h \<and> h mod n = i) \<or> (\<exists>k. p = Pop_claim k \<and> k mod n = i)"

definition slot_advances :: "nat \<Rightarrow> nat \<Rightarrow> 'a cqueue \<Rightarrow> bool" where
  "slot_advances n i s \<longleftrightarrow> (\<exists>t s'. (push_step n t s s' \<or> pop_step n t s s') \<and>
     (cq_state s' i \<noteq> cq_state s i \<or> writes n (cq_pc s t) = Some i \<or> reads n (cq_pc s t) = Some i))"

lemma owner_advances:
  "writes n (cq_pc s t) = Some i \<Longrightarrow> slot_advances n i s" "reads n (cq_pc s t) = Some i \<Longrightarrow> slot_advances n i s"
proof -
  assume w: "writes n (cq_pc s t) = Some i"
  then have "\<exists>s'. push_step n t s s'" by (cases "cq_pc s t") (auto intro: push_step.intros)
  with w show "slot_advances n i s" by (auto simp: slot_advances_def)
next
  assume r: "reads n (cq_pc s t) = Some i"
  then have "\<exists>s'. pop_step n t s s'" by (cases "cq_pc s t") (auto intro: pop_step.intros)
  with r show "slot_advances n i s" by (auto simp: slot_advances_def)
qed

lemma claim_advances:
  "cq_pc s t = Push_claim x h \<Longrightarrow> cq_state s (h mod n) = EMPTY \<Longrightarrow> slot_advances n (h mod n) s"
  "cq_pc s t = Pop_claim k \<Longrightarrow> cq_state s (k mod n) = STORED \<Longrightarrow> slot_advances n (k mod n) s"
  by (force simp: slot_advances_def dest: push_step.push_claim pop_step.pop_claim)+

lemma waiting_claims:
  assumes "t \<in> waiting n i (push_ticket \<circ> cq_pc s)" "\<And>u. writes n (cq_pc s u) \<noteq> Some i"
  shows "\<exists>x h. cq_pc s t = Push_claim x h \<and> h mod n = i"
  using assms(1) assms(2) [of t] by (cases "cq_pc s t") (auto simp: waiting_def)

lemma waiting_claims_pop:
  assumes "t \<in> waiting n i (pop_ticket \<circ> cq_pc s)" "\<And>u. reads n (cq_pc s u) \<noteq> Some i"
  shows "\<exists>k. cq_pc s t = Pop_claim k \<and> k mod n = i"
  using assms(1) assms(2) [of t] by (cases "cq_pc s t") (auto simp: waiting_def)

lemma counted_ex:
  "counted n xs P m \<Longrightarrow> length (at_slot i xs) < issued n i m \<Longrightarrow> \<exists>t. t \<in> waiting n i P"
  "counted n xs P m \<Longrightarrow> t \<in> waiting n i P \<Longrightarrow> length (at_slot i xs) < issued n i m"
proof -
  assume c: "counted n xs P m"
  then have e: "length (at_slot i xs) + card (waiting n i P) = issued n i m" by (simp add: counted_def)
  show "length (at_slot i xs) < issued n i m \<Longrightarrow> \<exists>t. t \<in> waiting n i P" using e by (metis add.right_neutral card.empty equals0I nat_less_le)
  show "t \<in> waiting n i P \<Longrightarrow> length (at_slot i xs) < issued n i m"
    using e counted_finite [OF c, of i] card_gt_0_iff [of "waiting n i P"] by fastforce
qed

lemma idle_slot_advances:
  assumes r: "cq_reach n s" and free: "cq_state s i = EMPTY \<or> cq_state s i = STORED"
    and w: "t \<in> waiting n i (push_ticket \<circ> cq_pc s) \<or> t \<in> waiting n i (pop_ticket \<circ> cq_pc s)"
  shows "slot_advances n i s"
proof -
  have own: "owners_ok n s" and con: "contents_ok n s" using reach_slots [OF r] by auto
  have none: "writes n (cq_pc s u) \<noteq> Some i" "reads n (cq_pc s u) \<noteq> Some i" for u
    using owners_unclaimed [OF own [unfolded owners_ok_def] free, of u] by simp_all
  have cnt: "counted n (cq_ins s) (push_ticket \<circ> cq_pc s) (cq_head s)" "counted n (cq_outs s) (pop_ticket \<circ> cq_pc s) (cq_tail s)"
    using reach_counts [OF r] by (simp_all add: counts_ok_def)
  have up: "issued n i (cq_tail s) \<le> issued n i (cq_head s)" and down: "issued n i (cq_head s) \<le> issued n i (cq_tail s) + 1"
    using reach_tickets [OF r] issued_mono [of "cq_tail s" "cq_head s" n i] issued_mono [of "cq_head s" "cq_tail s + n" n i]
      issued_window [of n i "cq_tail s"] by (auto simp: tickets_ok_def)
  note counts = counted_ex(2) [OF cnt(1), of t i] counted_ex(2) [OF cnt(2), of t i]
  from free show ?thesis
  proof
    assume st: "cq_state s i = EMPTY"
    then have "at_slot i (cq_ins s) = at_slot i (cq_outs s)" using con by (simp add: contents_ok_def)
    then have "length (at_slot i (cq_ins s)) < issued n i (cq_head s)" using w counts up by auto
    then obtain u where "u \<in> waiting n i (push_ticket \<circ> cq_pc s)" using counted_ex(1) [OF cnt(1)] by blast
    then obtain x h where "cq_pc s u = Push_claim x h" "h mod n = i" using waiting_claims [OF _ none(1)] by blast
    then show ?thesis using claim_advances(1) [of s u x h n] st by simp
  next
    assume st: "cq_state s i = STORED"
    then have "at_slot i (cq_ins s) = at_slot i (cq_outs s) @ [cq_elem s i]" using con by (simp add: contents_ok_def)
    then have "length (at_slot i (cq_outs s)) < issued n i (cq_tail s)" using w counts down by auto
    then obtain u where "u \<in> waiting n i (pop_ticket \<circ> cq_pc s)" using counted_ex(1) [OF cnt(2)] by blast
    then obtain k where "cq_pc s u = Pop_claim k" "k mod n = i" using waiting_claims_pop [OF _ none(2)] by blast
    then show ?thesis using claim_advances(2) [of s u k n] st by simp
  qed
qed

lemma same_slots_mset:
  assumes "\<And>i. at_slot i xs = at_slot i ys"
  shows "mset xs = mset ys"
proof (rule multiset_eqI)
  fix p :: "nat \<times> 'a"
  have "count (mset xs) p = count (mset (at_slot (fst p) xs)) (snd p)" for xs :: "(nat \<times> 'a) list"
    by (induction xs) (auto simp: at_slot_def prod_eq_iff)
  then show "count (mset xs) p = count (mset ys) p" by (simp add: assms)
qed

lemma slot_held:
  assumes "owners_ok n s" "contents_ok n s"
  shows "\<exists>held. at_slot i (cq_ins s) = at_slot i (cq_outs s) @ held \<and> length held \<le> 1"
proof (cases "cq_state s i")
  case LOADING
  then obtain t where t: "reads n (cq_pc s t) = Some i" using assms(1) by (auto simp: owners_ok_def owners_def)
  then show ?thesis using assms(2) by (cases "cq_pc s t") (auto simp: contents_ok_def)
qed (use assms(2) in \<open>auto simp: contents_ok_def\<close>)

subsection \<open>Properties of the concurrent queue\<close>

text \<open>Whatever the interleaving of any number of producers and consumers, no message is lost,
  duplicated or made up: what came out of a slot, followed by at most one element that is in
  it, is what went into it, in order; two threads never have the same slot in hand; the queue
  never hands out more tickets than it has room for; and once every call has returned and head
  and tail agree, the elements taken are exactly the elements stored.\<close>

lemma concurrent_queue_loses_nothing:
  assumes "cq_reach n s"
  shows "(\<forall>i. \<exists>held. at_slot i (cq_ins s) = at_slot i (cq_outs s) @ held \<and> length held \<le> 1) \<and>
    (\<forall>t u i. writes n (cq_pc s t) = Some i \<and> writes n (cq_pc s u) = Some i \<or>
       reads n (cq_pc s t) = Some i \<and> reads n (cq_pc s u) = Some i \<longrightarrow> t = u) \<and>
    (\<forall>t u i. writes n (cq_pc s t) = Some i \<longrightarrow> reads n (cq_pc s u) \<noteq> Some i) \<and>
    cq_tail s \<le> cq_head s \<and> cq_head s \<le> cq_tail s + n \<and>
    ((\<forall>t. cq_pc s t = Idle) \<and> cq_head s = cq_tail s \<longrightarrow> mset (cq_outs s) = mset (cq_ins s))"
proof -
  have own: "owners_ok n s" and con: "contents_ok n s" using reach_slots [OF assms] by auto
  have cnt: "counted n (cq_ins s) (push_ticket \<circ> cq_pc s) (cq_head s)" "counted n (cq_outs s) (pop_ticket \<circ> cq_pc s) (cq_tail s)"
    using reach_counts [OF assms] by (simp_all add: counts_ok_def)
  have "mset (cq_outs s) = mset (cq_ins s)" if idle: "\<forall>t. cq_pc s t = Idle" and eq: "cq_head s = cq_tail s"
  proof (rule same_slots_mset)
    fix i
    have "length (at_slot i (cq_ins s)) = length (at_slot i (cq_outs s))"
      using cnt idle eq by (simp add: counted_def waiting_def)
    then show "at_slot i (cq_outs s) = at_slot i (cq_ins s)" using slot_held [OF own con, of i] by auto
  qed
  moreover have "writes n (cq_pc s t) = Some i \<longrightarrow> reads n (cq_pc s u) \<noteq> Some i" for t u i
    using owners_okD(1,2) [OF own] by fastforce
  moreover have "t = u" if "writes n (cq_pc s t) = Some i \<and> writes n (cq_pc s u) = Some i \<or>
       reads n (cq_pc s t) = Some i \<and> reads n (cq_pc s u) = Some i" for t u i
    using owners_okD(3,4) [OF own] that by metis
  ultimately show ?thesis using slot_held [OF own con] reach_tickets [OF assms] by (auto simp: tickets_ok_def)
qed

text \<open>A thread that waits for its slot does not wait in vain: in every reachable state some
  thread can take a step that gets this slot further, so no interleaving leads to a deadlock.\<close>

lemma waiting_slot_advances:
  assumes "cq_reach n s" and "waits_for n i (cq_pc s t)"
  shows "slot_advances n i s"
proof -
  have own: "owners_ok n s" using reach_slots [OF assms(1)] by simp
  have w: "t \<in> waiting n i (push_ticket \<circ> cq_pc s) \<or> t \<in> waiting n i (pop_ticket \<circ> cq_pc s)"
    using assms(2) by (auto simp: waits_for_def waiting_def)
  show ?thesis
  proof (cases "cq_state s i")
    case STORING
    then obtain u where "writes n (cq_pc s u) = Some i" using own by (auto simp: owners_ok_def owners_def)
    then show ?thesis by (rule owner_advances)
  next
    case LOADING
    then obtain u where "reads n (cq_pc s u) = Some i" using own by (auto simp: owners_ok_def owners_def)
    then show ?thesis by (rule owner_advances)
  qed (use idle_slot_advances [OF assms(1) _ w] in simp_all)
qed

end
