(* ===== verification/Word_Queue.thy ===== *)
theory Word_Queue
  imports Concurrent_Queue Queue_Instances
begin

unbundle bit_operations_syntax

text \<open>
  The concurrent queue with the arithmetic of the source: \<^verbatim>\<open>head_\<close> and \<^verbatim>\<open>tail_\<close> are 32-bit words that
  wrap around, the tests compare the signed value of their difference, and a ticket finds its
  slot through the index shuffle. The machine of \<open>Concurrent_Queue\<close>, whose tickets are
  natural numbers, is its specification: every run of this one is a run of that one, as long
  as no thread sleeps between reading a counter and its compare-and-swap while close to
  \<open>2 ^ 31\<close> tickets are drawn.

  \<open>wq_age\<close> only records, for each thread, how many tickets were drawn since it last read a
  counter; \<open>wq_ins\<close> and \<open>wq_outs\<close> record what was stored and taken, as before.
\<close>

record 'a wqueue =
  wq_head :: u32
  wq_tail :: u32
  wq_state :: "nat \<Rightarrow> slot_state"
  wq_elem :: "nat \<Rightarrow> 'a"
  wq_pc :: "nat \<Rightarrow> ('a, u32) pc"
  wq_age :: "nat \<Rightarrow> nat"
  wq_ins :: "(nat \<times> 'a) list"
  wq_outs :: "(nat \<times> 'a) list"

definition wq_at :: "nat \<Rightarrow> ('a, u32) pc \<Rightarrow> 'a wqueue \<Rightarrow> 'a wqueue" where
  "wq_at t p w = w\<lparr>wq_pc := (wq_pc w)(t := p)\<rparr>"

definition wq_mark :: "nat \<Rightarrow> slot_state \<Rightarrow> 'a wqueue \<Rightarrow> 'a wqueue" where
  "wq_mark i v w = w\<lparr>wq_state := (wq_state w)(i := v)\<rparr>"

definition wq_put :: "nat \<Rightarrow> 'a \<Rightarrow> 'a wqueue \<Rightarrow> 'a wqueue" where
  "wq_put i x w = w\<lparr>wq_elem := (wq_elem w)(i := x)\<rparr>"

definition wq_look :: "nat \<Rightarrow> 'a wqueue \<Rightarrow> 'a wqueue" where
  "wq_look t w = w\<lparr>wq_age := (wq_age w)(t := 0)\<rparr>"

definition wq_draw :: "'a wqueue \<Rightarrow> 'a wqueue" where
  "wq_draw w = w\<lparr>wq_age := (\<lambda>t. Suc (wq_age w t))\<rparr>"

text \<open>The slot of a ticket, for the rounded size and the number of shuffled bits.\<close>

definition ticket_slot :: "u32 \<Rightarrow> nat \<Rightarrow> u32 \<Rightarrow> nat" where
  "ticket_slot sz b t = unat (remap_index b (t mod sz))"

inductive wpush_step :: "u32 \<Rightarrow> nat \<Rightarrow> nat \<Rightarrow> 'a wqueue \<Rightarrow> 'a wqueue \<Rightarrow> bool" for sz b t where
  wpush_start: "wq_pc w t = Idle \<Longrightarrow> wpush_step sz b t w (wq_at t (Push_test x (wq_head w)) (wq_look t w))"
| wpush_full: "wq_pc w t = Push_test x h \<Longrightarrow> as_int sz \<le> as_int (h - wq_tail w) \<Longrightarrow>
    wpush_step sz b t w (wq_at t Idle w)"
| wpush_room: "wq_pc w t = Push_test x h \<Longrightarrow> \<not> as_int sz \<le> as_int (h - wq_tail w) \<Longrightarrow>
    wpush_step sz b t w (wq_at t (Push_cas x h) w)"
| wpush_won: "wq_pc w t = Push_cas x h \<Longrightarrow> wq_head w = h \<Longrightarrow>
    wpush_step sz b t w (wq_at t (Push_claim x h) (wq_draw (w\<lparr>wq_head := h + 1\<rparr>)))"
| wpush_lost: "wq_pc w t = Push_cas x h \<Longrightarrow>
    wpush_step sz b t w (wq_at t (Push_test x (wq_head w)) (wq_look t w))"
| wpush_claim: "wq_pc w t = Push_claim x h \<Longrightarrow> wq_state w (ticket_slot sz b h) = EMPTY \<Longrightarrow>
    wpush_step sz b t w (wq_at t (Push_store x h) (wq_mark (ticket_slot sz b h) STORING w))"
| wpush_wait: "wq_pc w t = Push_claim x h \<Longrightarrow> wpush_step sz b t w w"
| wpush_store: "wq_pc w t = Push_store x h \<Longrightarrow>
    wpush_step sz b t w (wq_at t (Push_publish x h) (wq_put (ticket_slot sz b h) x w))"
| wpush_publish: "wq_pc w t = Push_publish x h \<Longrightarrow>
    wpush_step sz b t w (wq_at t Idle ((wq_mark (ticket_slot sz b h) STORED w)
      \<lparr>wq_ins := wq_ins w @ [(ticket_slot sz b h, x)]\<rparr>))"

inductive wpop_step :: "u32 \<Rightarrow> nat \<Rightarrow> nat \<Rightarrow> 'a wqueue \<Rightarrow> 'a wqueue \<Rightarrow> bool" for sz b t where
  wpop_start: "wq_pc w t = Idle \<Longrightarrow> wpop_step sz b t w (wq_at t (Pop_test (wq_tail w)) (wq_look t w))"
| wpop_empty: "wq_pc w t = Pop_test k \<Longrightarrow> as_int (wq_head w - k) \<le> 0 \<Longrightarrow> wpop_step sz b t w (wq_at t Idle w)"
| wpop_some: "wq_pc w t = Pop_test k \<Longrightarrow> \<not> as_int (wq_head w - k) \<le> 0 \<Longrightarrow>
    wpop_step sz b t w (wq_at t (Pop_cas k) w)"
| wpop_won: "wq_pc w t = Pop_cas k \<Longrightarrow> wq_tail w = k \<Longrightarrow>
    wpop_step sz b t w (wq_at t (Pop_claim k) (wq_draw (w\<lparr>wq_tail := k + 1\<rparr>)))"
| wpop_lost: "wq_pc w t = Pop_cas k \<Longrightarrow>
    wpop_step sz b t w (wq_at t (Pop_test (wq_tail w)) (wq_look t w))"
| wpop_claim: "wq_pc w t = Pop_claim k \<Longrightarrow> wq_state w (ticket_slot sz b k) = STORED \<Longrightarrow>
    wpop_step sz b t w (wq_at t (Pop_load k) (wq_mark (ticket_slot sz b k) LOADING w))"
| wpop_wait: "wq_pc w t = Pop_claim k \<Longrightarrow> wpop_step sz b t w w"
| wpop_load: "wq_pc w t = Pop_load k \<Longrightarrow>
    wpop_step sz b t w (wq_at t (Pop_release (wq_elem w (ticket_slot sz b k)) k)
      (wq_put (ticket_slot sz b k) left_over w))"
| wpop_release: "wq_pc w t = Pop_release x k \<Longrightarrow>
    wpop_step sz b t w (wq_at t Idle ((wq_mark (ticket_slot sz b k) EMPTY w)
      \<lparr>wq_outs := wq_outs w @ [(ticket_slot sz b k, x)]\<rparr>))"

definition wq_start :: "'a \<Rightarrow> 'a wqueue" where
  "wq_start v = \<lparr>wq_head = 0, wq_tail = 0, wq_state = (\<lambda>_. EMPTY), wq_elem = (\<lambda>_. v), wq_pc = (\<lambda>_. Idle),
     wq_age = (\<lambda>_. 0), wq_ins = [], wq_outs = []\<rparr>"

text \<open>A thread between reading a counter and its compare-and-swap, and how long it may sleep there.\<close>

fun looking :: "('a, 't) pc \<Rightarrow> bool" where
  "looking (Push_test x h) = True"
| "looking (Push_cas x h) = True"
| "looking (Pop_test k) = True"
| "looking (Pop_cas k) = True"
| "looking _ = False"

definition timely :: "u32 \<Rightarrow> 'a wqueue \<Rightarrow> bool" where
  "timely sz w \<longleftrightarrow> (\<forall>t. looking (wq_pc w t) \<longrightarrow> wq_age w t + unat sz < 2 ^ 31)"

inductive wq_reach :: "u32 \<Rightarrow> nat \<Rightarrow> 'a wqueue \<Rightarrow> bool" for sz b where
  wq_begin: "wq_reach sz b (wq_start v)"
| wq_push: "wq_reach sz b w \<Longrightarrow> timely sz w \<Longrightarrow> wpush_step sz b t w w' \<Longrightarrow> wq_reach sz b w'"
| wq_pop: "wq_reach sz b w \<Longrightarrow> timely sz w \<Longrightarrow> wpop_step sz b t w w' \<Longrightarrow> wq_reach sz b w'"

subsection \<open>Tickets as words\<close>

lemma wq_simps [simp]:
  "wq_head (wq_at t p w) = wq_head w" "wq_tail (wq_at t p w) = wq_tail w" "wq_state (wq_at t p w) = wq_state w"
  "wq_elem (wq_at t p w) = wq_elem w" "wq_pc (wq_at t p w) = (wq_pc w)(t := p)" "wq_ins (wq_at t p w) = wq_ins w"
  "wq_outs (wq_at t p w) = wq_outs w" "wq_age (wq_at t p w) = wq_age w"
  "wq_head (wq_mark i v w) = wq_head w" "wq_tail (wq_mark i v w) = wq_tail w"
  "wq_state (wq_mark i v w) = (wq_state w)(i := v)" "wq_elem (wq_mark i v w) = wq_elem w"
  "wq_pc (wq_mark i v w) = wq_pc w" "wq_ins (wq_mark i v w) = wq_ins w" "wq_outs (wq_mark i v w) = wq_outs w"
  "wq_age (wq_mark i v w) = wq_age w"
  "wq_head (wq_put i x w) = wq_head w" "wq_tail (wq_put i x w) = wq_tail w" "wq_state (wq_put i x w) = wq_state w"
  "wq_elem (wq_put i x w) = (wq_elem w)(i := x)" "wq_pc (wq_put i x w) = wq_pc w" "wq_ins (wq_put i x w) = wq_ins w"
  "wq_outs (wq_put i x w) = wq_outs w" "wq_age (wq_put i x w) = wq_age w"
  by (simp_all add: wq_at_def wq_mark_def wq_put_def)

lemma wq_age_simps [simp]:
  "wq_head (wq_look t w) = wq_head w" "wq_tail (wq_look t w) = wq_tail w" "wq_state (wq_look t w) = wq_state w"
  "wq_elem (wq_look t w) = wq_elem w" "wq_pc (wq_look t w) = wq_pc w" "wq_ins (wq_look t w) = wq_ins w"
  "wq_outs (wq_look t w) = wq_outs w" "wq_age (wq_look t w) = (wq_age w)(t := 0)"
  "wq_head (wq_draw w) = wq_head w" "wq_tail (wq_draw w) = wq_tail w" "wq_state (wq_draw w) = wq_state w"
  "wq_elem (wq_draw w) = wq_elem w" "wq_pc (wq_draw w) = wq_pc w" "wq_ins (wq_draw w) = wq_ins w"
  "wq_outs (wq_draw w) = wq_outs w" "wq_age (wq_draw w) = (\<lambda>t. Suc (wq_age w t))"
  by (simp_all add: wq_look_def wq_draw_def)

lemma as_int_diff:
  assumes "- 2147483648 \<le> int h - int k" "int h - int k < 2147483648"
  shows "as_int (of_nat h - of_nat k) = int h - int k"
proof -
  have "(of_nat h - of_nat k :: u32) = word_of_int (int h - int k)" by simp
  then have "as_int (of_nat h - of_nat k) = signed_take_bit 31 (int h - int k)"
    unfolding as_int_def by (simp only: signed_of_int len_bit0 len_num1) simp
  with assms show ?thesis by (simp add: signed_take_bit_int_eq_self)
qed

lemma ticket_eq_iff:
  assumes "\<bar>int h - int k\<bar> < 4294967296"
  shows "(of_nat h :: u32) = of_nat k \<longleftrightarrow> h = k"
proof
  assume "(of_nat h :: u32) = of_nat k"
  then have "h mod 2 ^ 32 = k mod 2 ^ 32" by (simp add: word_of_nat_eq_iff take_bit_eq_mod)
  then have "int h mod 2 ^ 32 = int k mod 2 ^ 32" by (metis of_nat_mod of_nat_numeral of_nat_power)
  then have "(2 ^ 32) dvd (int h - int k)" by (simp add: mod_eq_dvd_iff)
  with assms show "h = k" using dvd_imp_le_int [of "int h - int k" "2 ^ 32"] by fastforce
qed simp

lemma ticket_slot_of_nat:
  assumes "lg < 31"
  shows "ticket_slot (2 ^ lg) b (of_nat h) = slot_index b (h mod 2 ^ lg)"
proof -
  have "(2 :: nat) ^ lg dvd 2 ^ 32" using assms by (intro le_imp_power_dvd) simp
  then have "unat (of_nat h :: u32) mod 2 ^ lg = h mod 2 ^ lg"
    by (simp add: unat_of_nat mod_mod_cancel)
  then show ?thesis by (simp add: ticket_slot_def mod_slot_index [OF assms])
qed

subsection \<open>The simulation\<close>

fun seen :: "('a, nat) pc \<Rightarrow> nat option" where
  "seen (Push_test x h) = Some h"
| "seen (Push_cas x h) = Some h"
| "seen _ = None"

fun seen_tail :: "('a, nat) pc \<Rightarrow> nat option" where
  "seen_tail (Pop_test k) = Some k"
| "seen_tail (Pop_cas k) = Some k"
| "seen_tail _ = None"

definition wsim :: "nat \<Rightarrow> nat \<Rightarrow> 'a cqueue \<Rightarrow> 'a wqueue \<Rightarrow> bool" where
  "wsim lg b s w \<longleftrightarrow> wq_head w = of_nat (cq_head s) \<and> wq_tail w = of_nat (cq_tail s) \<and>
     wq_pc w = map_pc (\<lambda>x. x) of_nat \<circ> cq_pc s \<and>
     (\<forall>i < 2 ^ lg. wq_state w (slot_index b i) = cq_state s i \<and> wq_elem w (slot_index b i) = cq_elem s i) \<and>
     wq_ins w = map (apfst (slot_index b)) (cq_ins s) \<and> wq_outs w = map (apfst (slot_index b)) (cq_outs s) \<and>
     (\<forall>t h. seen (cq_pc s t) = Some h \<longrightarrow> h \<le> cq_head s \<and> cq_head s \<le> h + wq_age w t) \<and>
     (\<forall>t k. seen_tail (cq_pc s t) = Some k \<longrightarrow> k \<le> cq_tail s \<and> cq_tail s \<le> k + wq_age w t)"

lemma wsim_start: "wsim lg b (cq_start v) (wq_start v)"
  by (auto simp: wsim_def cq_start_def wq_start_def)

lemma slot_update:
  assumes "lg < 31" "2 * b \<le> lg" "\<And>i. i < 2 ^ lg \<Longrightarrow> f (slot_index b i) = g i" "j < 2 ^ lg"
  shows "i < 2 ^ lg \<Longrightarrow> (f(slot_index b j := v)) (slot_index b i) = (g(j := v)) i"
  using assms slot_index_inj [OF assms(1,2)] by auto

text \<open>The program counter of the specification, from that of the machine.\<close>

lemma map_pc_inv:
  "map_pc (\<lambda>x. x) f p = Idle \<Longrightarrow> p = Idle"
  "map_pc (\<lambda>x. x) f p = Push_test x h \<Longrightarrow> \<exists>k. p = Push_test x k \<and> h = f k"
  "map_pc (\<lambda>x. x) f p = Push_cas x h \<Longrightarrow> \<exists>k. p = Push_cas x k \<and> h = f k"
  "map_pc (\<lambda>x. x) f p = Push_claim x h \<Longrightarrow> \<exists>k. p = Push_claim x k \<and> h = f k"
  "map_pc (\<lambda>x. x) f p = Push_store x h \<Longrightarrow> \<exists>k. p = Push_store x k \<and> h = f k"
  "map_pc (\<lambda>x. x) f p = Push_publish x h \<Longrightarrow> \<exists>k. p = Push_publish x k \<and> h = f k"
  "map_pc (\<lambda>x. x) f p = Pop_test h \<Longrightarrow> \<exists>k. p = Pop_test k \<and> h = f k"
  "map_pc (\<lambda>x. x) f p = Pop_cas h \<Longrightarrow> \<exists>k. p = Pop_cas k \<and> h = f k"
  "map_pc (\<lambda>x. x) f p = Pop_claim h \<Longrightarrow> \<exists>k. p = Pop_claim k \<and> h = f k"
  "map_pc (\<lambda>x. x) f p = Pop_load h \<Longrightarrow> \<exists>k. p = Pop_load k \<and> h = f k"
  "map_pc (\<lambda>x. x) f p = Pop_release x h \<Longrightarrow> \<exists>k. p = Pop_release x k \<and> h = f k"
  by (cases p; simp)+

text \<open>Under the bound on the age the tests of the source decide what the natural numbers decide.\<close>

lemma push_test_exact:
  assumes "wsim lg b s w" "tickets_ok (2 ^ lg) s" "timely (2 ^ lg) w" "lg < 31" "seen (cq_pc s t) = Some h"
  shows "as_int (2 ^ lg) \<le> as_int (of_nat h - wq_tail w) \<longleftrightarrow> int (2 ^ lg) \<le> int h - int (cq_tail s)"
    and "wq_head w = of_nat h \<longleftrightarrow> cq_head s = h"
proof -
  have n: "unat (2 ^ lg :: u32) = 2 ^ lg" "(2 :: nat) ^ lg < 2 ^ 31"
    using assms(4) power_strict_increasing [of lg 31 "2 :: nat"] by (simp_all add: unat_exp)
  have "looking (wq_pc w t)" using assms(1,5) by (cases "cq_pc s t") (auto simp: wsim_def)
  then have age: "wq_age w t + 2 ^ lg < 2147483648" using assms(3) n(1) by (auto simp: timely_def)
  have h: "h \<le> cq_head s" "cq_head s \<le> h + wq_age w t" using assms(1,5) by (auto simp: wsim_def)
  have hd: "cq_tail s \<le> cq_head s" "cq_head s \<le> cq_tail s + 2 ^ lg" using assms(2) by (auto simp: tickets_ok_def)
  have sz: "as_int (2 ^ lg) = int (2 ^ lg)" using as_int_small [of "2 ^ lg"] n by simp
  have "- 2147483648 \<le> int h - int (cq_tail s)" "int h - int (cq_tail s) < 2147483648"
    using h hd age n(2) by linarith+
  then have "as_int (of_nat h - of_nat (cq_tail s)) = int h - int (cq_tail s)" by (rule as_int_diff)
  then show "as_int (2 ^ lg) \<le> as_int (of_nat h - wq_tail w) \<longleftrightarrow> int (2 ^ lg) \<le> int h - int (cq_tail s)"
    using assms(1) sz by (simp add: wsim_def)
  have "\<bar>int (cq_head s) - int h\<bar> < 4294967296" using h age by linarith
  then show "wq_head w = of_nat h \<longleftrightarrow> cq_head s = h"
    using ticket_eq_iff assms(1) by (simp add: wsim_def)
qed

lemma pop_test_exact:
  assumes "wsim lg b s w" "tickets_ok (2 ^ lg) s" "timely (2 ^ lg) w" "lg < 31" "seen_tail (cq_pc s t) = Some k"
  shows "as_int (wq_head w - of_nat k) = int (cq_head s) - int k"
    and "wq_tail w = of_nat k \<longleftrightarrow> cq_tail s = k"
proof -
  have n: "unat (2 ^ lg :: u32) = 2 ^ lg" using assms(4) by (simp add: unat_exp)
  have "looking (wq_pc w t)" using assms(1,5) by (cases "cq_pc s t") (auto simp: wsim_def)
  then have age: "wq_age w t + 2 ^ lg < 2147483648" using assms(3) n by (auto simp: timely_def)
  have k: "k \<le> cq_tail s" "cq_tail s \<le> k + wq_age w t" using assms(1,5) by (auto simp: wsim_def)
  have hd: "cq_tail s \<le> cq_head s" "cq_head s \<le> cq_tail s + 2 ^ lg" using assms(2) by (auto simp: tickets_ok_def)
  have "- 2147483648 \<le> int (cq_head s) - int k" "int (cq_head s) - int k < 2147483648"
    using k hd age by linarith+
  then have "as_int (of_nat (cq_head s) - of_nat k) = int (cq_head s) - int k" by (rule as_int_diff)
  then show "as_int (wq_head w - of_nat k) = int (cq_head s) - int k" using assms(1) by (simp add: wsim_def)
  have "\<bar>int (cq_tail s) - int k\<bar> < 4294967296" using k age by linarith
  then show "wq_tail w = of_nat k \<longleftrightarrow> cq_tail s = k"
    using ticket_eq_iff assms(1) by (simp add: wsim_def)
qed

lemma wsim_seen:
  assumes "wsim lg b s w"
  shows "seen (cq_pc s t) = Some h \<Longrightarrow> h \<le> cq_head s \<and> cq_head s \<le> h + wq_age w t"
    and "seen_tail (cq_pc s t) = Some k \<Longrightarrow> k \<le> cq_tail s \<and> cq_tail s \<le> k + wq_age w t"
  using assms by (simp_all add: wsim_def)

lemma wsim_push:
  assumes sim: "wsim lg b s w" and tk: "tickets_ok (2 ^ lg) s" and tm: "timely (2 ^ lg) w"
    and lg: "lg < 31" "2 * b \<le> lg" and step: "wpush_step (2 ^ lg) b t w w'"
  shows "\<exists>s'. push_step (2 ^ lg) t s s' \<and> wsim lg b s' w'"
proof -
  have pc: "map_pc (\<lambda>x. x) of_nat (cq_pc s t) = wq_pc w t" using sim by (simp add: wsim_def)
  note exact = push_test_exact [OF sim tk tm lg(1)] and seen = wsim_seen [OF sim]
  note slot = ticket_slot_of_nat [OF lg(1)] and upd = slot_index_inj [OF lg _ mod_less_divisor]
  from step show ?thesis
  proof cases
    case (wpush_start x)
    with pc have p: "cq_pc s t = Idle" by (metis map_pc_inv(1))
    show ?thesis
      by (intro exI conjI, rule push_start [OF p, where x = x]) (use sim wpush_start in \<open>auto simp: wsim_def fun_eq_iff\<close>)
  next
    case (wpush_full x h)
    with pc obtain m where p: "cq_pc s t = Push_test x m" "h = of_nat m" by (metis map_pc_inv(2))
    show ?thesis
      by (intro exI conjI, rule push_full [OF p(1)]) (use sim wpush_full p exact(1) [of t m] in \<open>auto simp: wsim_def fun_eq_iff\<close>)
  next
    case (wpush_room x h)
    with pc obtain m where p: "cq_pc s t = Push_test x m" "h = of_nat m" by (metis map_pc_inv(2))
    show ?thesis
      by (intro exI conjI, rule push_room [OF p(1)]) (use sim wpush_room p exact(1) [of t m] seen(1) [of t m] in \<open>auto simp: wsim_def fun_eq_iff\<close>)
  next
    case (wpush_won x h)
    with pc obtain m where p: "cq_pc s t = Push_cas x m" "h = of_nat m" by (metis map_pc_inv(3))
    show ?thesis
      by (intro exI conjI, rule push_won [OF p(1)]) (use sim wpush_won p exact(2) [of t m] in \<open>auto simp: wsim_def fun_eq_iff intro: le_SucI\<close>)
  next
    case (wpush_lost x h)
    with pc obtain m where p: "cq_pc s t = Push_cas x m" "h = of_nat m" by (metis map_pc_inv(3))
    show ?thesis
      by (intro exI conjI, rule push_lost [OF p(1)]) (use sim wpush_lost p in \<open>auto simp: wsim_def fun_eq_iff\<close>)
  next
    case (wpush_claim x h)
    with pc obtain m where p: "cq_pc s t = Push_claim x m" "h = of_nat m" by (metis map_pc_inv(4))
    show ?thesis
      by (intro exI conjI, rule push_claim [OF p(1)]) (use sim wpush_claim p slot upd in \<open>auto simp: wsim_def fun_eq_iff\<close>)
  next
    case (wpush_store x h)
    with pc obtain m where p: "cq_pc s t = Push_store x m" "h = of_nat m" by (metis map_pc_inv(5))
    show ?thesis
      by (intro exI conjI, rule push_store [OF p(1)]) (use sim wpush_store p slot upd in \<open>auto simp: wsim_def fun_eq_iff\<close>)
  next
    case (wpush_publish x h)
    with pc obtain m where p: "cq_pc s t = Push_publish x m" "h = of_nat m" by (metis map_pc_inv(6))
    show ?thesis
      by (intro exI conjI, rule push_publish [OF p(1)]) (use sim wpush_publish p slot upd in \<open>auto simp: wsim_def fun_eq_iff\<close>)
  next
    case (wpush_wait x h)
    with pc obtain m where "cq_pc s t = Push_claim x m" by (metis map_pc_inv(4))
    with sim wpush_wait show ?thesis by (blast intro: push_wait)
  qed
qed

lemma wsim_pop:
  assumes sim: "wsim lg b s w" and tk: "tickets_ok (2 ^ lg) s" and tm: "timely (2 ^ lg) w"
    and lg: "lg < 31" "2 * b \<le> lg" and step: "wpop_step (2 ^ lg) b t w w'"
  shows "\<exists>s'. pop_step (2 ^ lg) t s s' \<and> wsim lg b s' w'"
proof -
  have pc: "map_pc (\<lambda>x. x) of_nat (cq_pc s t) = wq_pc w t" using sim by (simp add: wsim_def)
  note exact = pop_test_exact [OF sim tk tm lg(1)] and seen = wsim_seen [OF sim]
  note slot = ticket_slot_of_nat [OF lg(1)] and upd = slot_index_inj [OF lg _ mod_less_divisor]
  from step show ?thesis
  proof cases
    case wpop_start
    with pc have p: "cq_pc s t = Idle" by (metis map_pc_inv(1))
    show ?thesis
      by (intro exI conjI, rule pop_start [OF p]) (use sim wpop_start in \<open>auto simp: wsim_def fun_eq_iff\<close>)
  next
    case (wpop_empty k)
    with pc obtain m where p: "cq_pc s t = Pop_test m" "k = of_nat m" by (metis map_pc_inv(7))
    show ?thesis
      by (intro exI conjI, rule pop_empty [OF p(1)]) (use sim wpop_empty p exact(1) [of t m] in \<open>auto simp: wsim_def fun_eq_iff\<close>)
  next
    case (wpop_some k)
    with pc obtain m where p: "cq_pc s t = Pop_test m" "k = of_nat m" by (metis map_pc_inv(7))
    show ?thesis
      by (intro exI conjI, rule pop_some [OF p(1)]) (use sim wpop_some p exact(1) [of t m] seen(2) [of t m] in \<open>auto simp: wsim_def fun_eq_iff\<close>)
  next
    case (wpop_won k)
    with pc obtain m where p: "cq_pc s t = Pop_cas m" "k = of_nat m" by (metis map_pc_inv(8))
    show ?thesis
      by (intro exI conjI, rule pop_won [OF p(1)]) (use sim wpop_won p exact(2) [of t m] in \<open>auto simp: wsim_def fun_eq_iff intro: le_SucI\<close>)
  next
    case (wpop_lost k)
    with pc obtain m where p: "cq_pc s t = Pop_cas m" "k = of_nat m" by (metis map_pc_inv(8))
    show ?thesis
      by (intro exI conjI, rule pop_lost [OF p(1)]) (use sim wpop_lost p in \<open>auto simp: wsim_def fun_eq_iff\<close>)
  next
    case (wpop_claim k)
    with pc obtain m where p: "cq_pc s t = Pop_claim m" "k = of_nat m" by (metis map_pc_inv(9))
    show ?thesis
      by (intro exI conjI, rule pop_claim [OF p(1)]) (use sim wpop_claim p slot upd in \<open>auto simp: wsim_def fun_eq_iff\<close>)
  next
    case (wpop_load k)
    with pc obtain m where p: "cq_pc s t = Pop_load m" "k = of_nat m" by (metis map_pc_inv(10))
    show ?thesis
      by (intro exI conjI, rule pop_load [OF p(1)]) (use sim wpop_load p slot upd in \<open>auto simp: wsim_def fun_eq_iff\<close>)
  next
    case (wpop_release x k)
    with pc obtain m where p: "cq_pc s t = Pop_release x m" "k = of_nat m" by (metis map_pc_inv(11))
    show ?thesis
      by (intro exI conjI, rule pop_release [OF p(1)]) (use sim wpop_release p slot upd in \<open>auto simp: wsim_def fun_eq_iff\<close>)
  next
    case (wpop_wait k)
    with pc obtain m where "cq_pc s t = Pop_claim m" by (metis map_pc_inv(9))
    with sim wpop_wait show ?thesis by (blast intro: pop_wait)
  qed
qed

text \<open>Every timely run of the machine is a run of the specification.\<close>

lemma wq_reach_refines:
  assumes "lg < 31" "2 * b \<le> lg"
  shows "wq_reach (2 ^ lg) b w \<Longrightarrow> \<exists>s. cq_reach (2 ^ lg) s \<and> wsim lg b s w"
proof (induction rule: wq_reach.induct)
  case (wq_begin v)
  show ?case by (intro exI conjI, rule cq_begin, rule wsim_start)
next
  case (wq_push w t w')
  then obtain s where s: "cq_reach (2 ^ lg) s" "wsim lg b s w" by blast
  from wsim_push [OF s(2) reach_tickets [OF s(1)] wq_push(2) assms wq_push(3)] s(1) show ?case
    by (blast intro: cq_reach.cq_push)
next
  case (wq_pop w t w')
  then obtain s where s: "cq_reach (2 ^ lg) s" "wsim lg b s w" by blast
  from wsim_pop [OF s(2) reach_tickets [OF s(1)] wq_pop(2) assms wq_pop(3)] s(1) show ?case
    by (blast intro: cq_reach.cq_pop)
qed

subsection \<open>What carries over\<close>

fun wwrites :: "u32 \<Rightarrow> nat \<Rightarrow> ('a, u32) pc \<Rightarrow> nat option" where
  "wwrites sz b (Push_store x h) = Some (ticket_slot sz b h)"
| "wwrites sz b (Push_publish x h) = Some (ticket_slot sz b h)"
| "wwrites sz b _ = None"

fun wreads :: "u32 \<Rightarrow> nat \<Rightarrow> ('a, u32) pc \<Rightarrow> nat option" where
  "wreads sz b (Pop_load k) = Some (ticket_slot sz b k)"
| "wreads sz b (Pop_release x k) = Some (ticket_slot sz b k)"
| "wreads sz b _ = None"

lemma hands_map:
  assumes "lg < 31"
  shows "wwrites (2 ^ lg) b (map_pc (\<lambda>x. x) of_nat p) = map_option (slot_index b) (writes (2 ^ lg) p)"
    and "wreads (2 ^ lg) b (map_pc (\<lambda>x. x) of_nat p) = map_option (slot_index b) (reads (2 ^ lg) p)"
  by (cases p; simp add: ticket_slot_of_nat [OF assms])+

lemma hands_bound: "0 < n \<Longrightarrow> writes n p = Some i \<Longrightarrow> i < n" "0 < n \<Longrightarrow> reads n p = Some i \<Longrightarrow> i < n"
  by (cases p; auto)+

lemma reach_slot_bound:
  assumes "0 < n"
  shows "cq_reach n s \<Longrightarrow> fst ` set (cq_ins s) \<subseteq> {..<n} \<and> fst ` set (cq_outs s) \<subseteq> {..<n}"
proof (induction rule: cq_reach.induct)
  case (cq_push s t s')
  show ?case using cq_push(2) by cases (use cq_push(3) assms in simp_all)
next
  case (cq_pop s t s')
  show ?case using cq_pop(2) by cases (use cq_pop(3) assms in simp_all)
qed (simp add: cq_start_def)

lemma at_slot_map:
  assumes "\<And>p. p \<in> set xs \<Longrightarrow> f (fst p) = f i \<longleftrightarrow> fst p = i"
  shows "at_slot (f i) (map (apfst f) xs) = at_slot i xs"
  using assms by (induction xs) (auto simp: at_slot_def)

lemma at_slot_none: "(\<And>p. p \<in> set xs \<Longrightarrow> f (fst p) \<noteq> i) \<Longrightarrow> at_slot i (map (apfst f) xs) = []"
  by (auto simp: at_slot_def filter_empty_conv)

lemma wsim_slots:
  assumes sim: "wsim lg b s w" and lg: "lg < 31" "2 * b \<le> lg" and r: "cq_reach (2 ^ lg) s"
  shows "\<exists>held. at_slot i (wq_ins w) = at_slot i (wq_outs w) @ held \<and> length held \<le> 1"
proof (cases "\<exists>j < 2 ^ lg. i = slot_index b j")
  case True
  then obtain j where j: "j < 2 ^ lg" "i = slot_index b j" by blast
  have "slot_index b (fst p) = slot_index b j \<longleftrightarrow> fst p = j"
    if "p \<in> set (cq_ins s) \<union> set (cq_outs s)" for p
    using reach_slot_bound [OF _ r] that j(1) by (intro slot_index_inj [OF lg]) auto
  then have "at_slot i (wq_ins w) = at_slot j (cq_ins s)" "at_slot i (wq_outs w) = at_slot j (cq_outs s)"
    using sim by (auto simp: wsim_def j(2) intro!: at_slot_map)
  then show ?thesis using slot_held reach_slots [OF r] by metis
next
  case False
  then have "slot_index b (fst p) \<noteq> i" if "p \<in> set (cq_ins s) \<union> set (cq_outs s)" for p
    using reach_slot_bound [OF _ r] that by auto
  then have "at_slot i (wq_ins w) = []" "at_slot i (wq_outs w) = []"
    using sim by (auto simp: wsim_def intro!: at_slot_none)
  then show ?thesis by simp
qed

lemma wsim_hands:
  assumes sim: "wsim lg b s w" and lg: "lg < 31" "2 * b \<le> lg" and own: "owners_ok (2 ^ lg) s"
  shows "wwrites (2 ^ lg) b (wq_pc w t) = Some i \<Longrightarrow> wwrites (2 ^ lg) b (wq_pc w u) = Some i \<Longrightarrow> t = u"
    and "wreads (2 ^ lg) b (wq_pc w t) = Some i \<Longrightarrow> wreads (2 ^ lg) b (wq_pc w u) = Some i \<Longrightarrow> t = u"
    and "wwrites (2 ^ lg) b (wq_pc w t) = Some i \<Longrightarrow> wreads (2 ^ lg) b (wq_pc w u) \<noteq> Some i"
proof -
  have pc: "wq_pc w t = map_pc (\<lambda>x. x) of_nat (cq_pc s t)" for t using sim by (simp add: wsim_def)
  have bound: "writes (2 ^ lg) (cq_pc s t) = Some i \<Longrightarrow> i < 2 ^ lg" "reads (2 ^ lg) (cq_pc s t) = Some i \<Longrightarrow> i < 2 ^ lg"
    for t i by (simp_all add: hands_bound [of "2 ^ lg"])
  note same = slot_index_inj [OF lg bound(1) bound(1)] slot_index_inj [OF lg bound(2) bound(2)]
    slot_index_inj [OF lg bound(1) bound(2)]
  show "wwrites (2 ^ lg) b (wq_pc w t) = Some i \<Longrightarrow> wwrites (2 ^ lg) b (wq_pc w u) = Some i \<Longrightarrow> t = u"
    using owners_okD(3) [OF own] same(1) by (auto simp: pc hands_map [OF lg(1)])
  show "wreads (2 ^ lg) b (wq_pc w t) = Some i \<Longrightarrow> wreads (2 ^ lg) b (wq_pc w u) = Some i \<Longrightarrow> t = u"
    using owners_okD(4) [OF own] same(2) by (auto simp: pc hands_map [OF lg(1)])
  show "wwrites (2 ^ lg) b (wq_pc w t) = Some i \<Longrightarrow> wreads (2 ^ lg) b (wq_pc w u) \<noteq> Some i"
    using owners_okD(1,2) [OF own] same(3) by (auto simp: pc hands_map [OF lg(1)]) (metis slot_state.distinct)
qed

text \<open>A thread that waits for its slot, and a step that gets the slot further.\<close>

definition wwaits_for :: "u32 \<Rightarrow> nat \<Rightarrow> nat \<Rightarrow> ('a, u32) pc \<Rightarrow> bool" where
  "wwaits_for sz b i p \<longleftrightarrow> (\<exists>x h. p = Push_claim x h \<and> ticket_slot sz b h = i) \<or>
     (\<exists>k. p = Pop_claim k \<and> ticket_slot sz b k = i)"

definition wslot_advances :: "u32 \<Rightarrow> nat \<Rightarrow> nat \<Rightarrow> 'a wqueue \<Rightarrow> bool" where
  "wslot_advances sz b i w \<longleftrightarrow> (\<exists>t w'. (wpush_step sz b t w w' \<or> wpop_step sz b t w w') \<and>
     (wq_state w' i \<noteq> wq_state w i \<or> wwrites sz b (wq_pc w t) = Some i \<or> wreads sz b (wq_pc w t) = Some i))"

lemma wowner_advances:
  "wwrites sz b (wq_pc w t) = Some i \<Longrightarrow> wslot_advances sz b i w"
  "wreads sz b (wq_pc w t) = Some i \<Longrightarrow> wslot_advances sz b i w"
proof -
  assume r: "wwrites sz b (wq_pc w t) = Some i"
  then have "\<exists>w'. wpush_step sz b t w w'" by (cases "wq_pc w t") (auto intro: wpush_step.intros)
  with r show "wslot_advances sz b i w" by (auto simp: wslot_advances_def)
next
  assume r: "wreads sz b (wq_pc w t) = Some i"
  then have "\<exists>w'. wpop_step sz b t w w'" by (cases "wq_pc w t") (auto intro: wpop_step.intros)
  with r show "wslot_advances sz b i w" by (auto simp: wslot_advances_def)
qed

lemma wclaim_advances:
  "wq_pc w t = Push_claim x h \<Longrightarrow> wq_state w (ticket_slot sz b h) = EMPTY \<Longrightarrow> wslot_advances sz b (ticket_slot sz b h) w"
  "wq_pc w t = Pop_claim k \<Longrightarrow> wq_state w (ticket_slot sz b k) = STORED \<Longrightarrow> wslot_advances sz b (ticket_slot sz b k) w"
  by (force simp: wslot_advances_def dest: wpush_step.wpush_claim wpop_step.wpop_claim)+

text \<open>A step of the specification that gets a slot further has its counterpart.\<close>

lemma wsim_advances:
  assumes sim: "wsim lg b s w" and lg: "lg < 31" and i: "i < 2 ^ lg" and adv: "slot_advances (2 ^ lg) i s"
  shows "wslot_advances (2 ^ lg) b (slot_index b i) w"
proof -
  have pc: "wq_pc w t = map_pc (\<lambda>x. x) of_nat (cq_pc s t)" for t using sim by (simp add: wsim_def)
  have st: "wq_state w (slot_index b i) = cq_state s i" using sim i by (simp add: wsim_def)
  from adv obtain t s' where step: "push_step (2 ^ lg) t s s' \<or> pop_step (2 ^ lg) t s s'"
    and moves: "cq_state s' i \<noteq> cq_state s i \<or> writes (2 ^ lg) (cq_pc s t) = Some i \<or> reads (2 ^ lg) (cq_pc s t) = Some i"
    by (auto simp: slot_advances_def)
  show ?thesis
  proof (cases "writes (2 ^ lg) (cq_pc s t) = Some i \<or> reads (2 ^ lg) (cq_pc s t) = Some i")
    case True
    then have "wwrites (2 ^ lg) b (wq_pc w t) = Some (slot_index b i) \<or> wreads (2 ^ lg) b (wq_pc w t) = Some (slot_index b i)"
      by (auto simp: pc hands_map [OF lg])
    then show ?thesis by (auto intro: wowner_advances)
  next
    case False
    with moves have ch: "cq_state s' i \<noteq> cq_state s i" by blast
    from step show ?thesis
    proof
      assume "push_step (2 ^ lg) t s s'"
      then show ?thesis
      proof cases
        case (push_claim x h)
        with ch wclaim_advances(1) [of w t x "of_nat h" "2 ^ lg" b] st pc [of t] show ?thesis
          by (auto simp: ticket_slot_of_nat [OF lg] split: if_splits)
      qed (use ch False in \<open>auto split: if_splits\<close>)
    next
      assume "pop_step (2 ^ lg) t s s'"
      then show ?thesis
      proof cases
        case (pop_claim k)
        with ch wclaim_advances(2) [of w t "of_nat k" "2 ^ lg" b] st pc [of t] show ?thesis
          by (auto simp: ticket_slot_of_nat [OF lg] split: if_splits)
      qed (use ch False in \<open>auto split: if_splits\<close>)
    qed
  qed
qed

subsection \<open>Properties of the concurrent queue\<close>

text \<open>C7: the queue of the server under concurrency, with 32-bit tickets that wrap around and the
  index shuffle of the source: whatever the interleaving of any number of producers and
  consumers, no message is lost, duplicated or made up. What came out of a slot, followed by at
  most one element that is in it, is what went into it, in order; no two threads have the same
  slot in hand; the queue never hands out more tickets than it has room for; and once every
  call has returned and head and tail agree, the elements taken are exactly the elements
  stored. No thread may sleep between reading a counter and its compare-and-swap for close to
  \<open>2 ^ 31\<close> tickets.\<close>

theorem word_queue_loses_nothing:
  assumes "wq_reach (2 ^ lg) b w" and "lg < 31" and "2 * b \<le> lg"
  shows "(\<forall>i. \<exists>held. at_slot i (wq_ins w) = at_slot i (wq_outs w) @ held \<and> length held \<le> 1) \<and>
    (\<forall>t u i. wwrites (2 ^ lg) b (wq_pc w t) = Some i \<and> wwrites (2 ^ lg) b (wq_pc w u) = Some i \<or>
       wreads (2 ^ lg) b (wq_pc w t) = Some i \<and> wreads (2 ^ lg) b (wq_pc w u) = Some i \<longrightarrow> t = u) \<and>
    (\<forall>t u i. wwrites (2 ^ lg) b (wq_pc w t) = Some i \<longrightarrow> wreads (2 ^ lg) b (wq_pc w u) \<noteq> Some i) \<and>
    unat (wq_head w - wq_tail w) \<le> 2 ^ lg \<and>
    ((\<forall>t. wq_pc w t = Idle) \<and> wq_head w = wq_tail w \<longrightarrow> mset (wq_outs w) = mset (wq_ins w))"
proof -
  obtain s where s: "cq_reach (2 ^ lg) s" "wsim lg b s w" using wq_reach_refines [OF assms(2,3,1)] by blast
  have own: "owners_ok (2 ^ lg) s" and tk: "cq_tail s \<le> cq_head s" "cq_head s \<le> cq_tail s + 2 ^ lg"
    using reach_slots [OF s(1)] reach_tickets [OF s(1)] by (auto simp: tickets_ok_def)
  have n: "(2 :: nat) ^ lg < 2147483648" using assms(2) power_strict_increasing [of lg 31 "2 :: nat"] by simp
  have words: "wq_head w = of_nat (cq_head s)" "wq_tail w = of_nat (cq_tail s)"
    "wq_ins w = map (apfst (slot_index b)) (cq_ins s)" "wq_outs w = map (apfst (slot_index b)) (cq_outs s)"
    "wq_pc w t = map_pc (\<lambda>x. x) of_nat (cq_pc s t)" for t
    using s(2) by (simp_all add: wsim_def)
  have "wq_head w - wq_tail w = of_nat (cq_head s - cq_tail s)" using tk(1) words by (simp add: of_nat_diff)
  then have room: "unat (wq_head w - wq_tail w) \<le> 2 ^ lg"
    using tk n by (simp only: unat_of_nat) simp
  have "mset (wq_outs w) = mset (wq_ins w)" if "\<forall>t. wq_pc w t = Idle" "wq_head w = wq_tail w"
  proof -
    have "\<bar>int (cq_head s) - int (cq_tail s)\<bar> < 4294967296" using tk n by linarith
    then have "cq_head s = cq_tail s" using that(2) ticket_eq_iff words by metis
    moreover have "\<forall>t. cq_pc s t = Idle" using that(1) words map_pc_inv(1) by metis
    ultimately have "mset (cq_outs s) = mset (cq_ins s)" using concurrent_queue_loses_nothing [OF s(1)] by blast
    then show ?thesis by (simp add: words mset_map)
  qed
  with room wsim_slots [OF s(2) assms(2,3) s(1)] wsim_hands [OF s(2) assms(2,3) own] show ?thesis by blast
qed

text \<open>A run with two threads: one stores an element, the other has drawn the ticket for it and waits.\<close>

definition wq_sample :: "nat wqueue" where
  "wq_sample = wq_at 1 (Pop_claim 0) (wq_draw ((wq_at 1 (Pop_cas 0) (wq_at 1 (Pop_test 0) (wq_look 1
     (wq_at 0 (Push_claim 7 0) (wq_draw ((wq_at 0 (Push_cas 7 0) (wq_at 0 (Push_test 7 0) (wq_look 0 (wq_start 0))))
        \<lparr>wq_head := 0 + 1\<rparr>))))))\<lparr>wq_tail := 0 + 1\<rparr>))"

lemma wq_start_simps [simp]:
  "wq_head (wq_start v) = 0" "wq_tail (wq_start v) = 0" "wq_pc (wq_start v) = (\<lambda>_. Idle)" "wq_age (wq_start v) = (\<lambda>_. 0)"
  by (simp_all add: wq_start_def)

lemma wq_sample_reachable: "wq_reach (2 ^ 7) 0 wq_sample"
proof -
  let ?sz = "2 ^ 7 :: u32"
  let ?s1 = "wq_at 0 (Push_test 7 0) (wq_look 0 (wq_start 0)) :: nat wqueue"
  let ?s2 = "wq_at 0 (Push_cas 7 0) ?s1"
  let ?s3 = "wq_at 0 (Push_claim 7 0) (wq_draw (?s2\<lparr>wq_head := 0 + 1\<rparr>))"
  let ?s4 = "wq_at 1 (Pop_test 0) (wq_look 1 ?s3)"
  let ?s5 = "wq_at 1 (Pop_cas 0) ?s4"
  have t0: "timely ?sz (wq_start 0 :: nat wqueue)" and t1: "timely ?sz ?s1" and t2: "timely ?sz ?s2" and t3: "timely ?sz ?s3"
    and t4: "timely ?sz ?s4" and t5: "timely ?sz ?s5"
    by (auto simp: timely_def)
  have "wpush_step ?sz 0 0 (wq_start 0) ?s1" using wpush_start [of "wq_start 0" 0 ?sz 0 7] by simp
  with wq_begin t0 have s1: "wq_reach ?sz 0 ?s1" by (rule wq_push)
  have "wpush_step ?sz 0 0 ?s1 ?s2" by (rule wpush_room [of ?s1 0 7 0]) (simp_all add: as_int_def)
  with s1 t1 have s2: "wq_reach ?sz 0 ?s2" by (rule wq_push)
  have "wpush_step ?sz 0 0 ?s2 ?s3" by (rule wpush_won [of ?s2 0 7 0]) simp_all
  with s2 t2 have s3: "wq_reach ?sz 0 ?s3" by (rule wq_push)
  have "wpop_step ?sz 0 1 ?s3 ?s4" using wpop_start [of ?s3 1 ?sz 0] by simp
  with s3 t3 have s4: "wq_reach ?sz 0 ?s4" by (rule wq_pop)
  have "wpop_step ?sz 0 1 ?s4 ?s5" by (rule wpop_some [of ?s4 1 0]) (simp_all add: as_int_def)
  with s4 t4 have s5: "wq_reach ?sz 0 ?s5" by (rule wq_pop)
  have "wpop_step ?sz 0 1 ?s5 wq_sample" unfolding wq_sample_def by (rule wpop_won [of ?s5 1 0]) simp_all
  with s5 t5 show ?thesis by (rule wq_pop)
qed

theorem word_queue_loses_nothing_witness:
  "wq_reach (2 ^ 7) 0 wq_sample \<and> unat (wq_head wq_sample - wq_tail wq_sample) \<le> 2 ^ 7"
  using word_queue_loses_nothing [OF wq_sample_reachable] wq_sample_reachable by simp

text \<open>C32: a thread that waits for its slot does not wait in vain: in every reachable state some
  thread can take a step that gets this slot further, so no interleaving leads to a deadlock.\<close>

theorem word_slot_advances:
  assumes "wq_reach (2 ^ lg) b w" and "lg < 31" and "2 * b \<le> lg" and "wwaits_for (2 ^ lg) b i (wq_pc w t)"
  shows "wslot_advances (2 ^ lg) b i w"
proof -
  obtain s where s: "cq_reach (2 ^ lg) s" "wsim lg b s w" using wq_reach_refines [OF assms(2,3,1)] by blast
  have pc: "map_pc (\<lambda>x. x) of_nat (cq_pc s t) = wq_pc w t" using s(2) by (simp add: wsim_def)
  have "\<exists>j < 2 ^ lg. i = slot_index b j \<and> waits_for (2 ^ lg) j (cq_pc s t)"
    using assms(4) unfolding wwaits_for_def pc [symmetric]
    by (auto simp: waits_for_def ticket_slot_of_nat [OF assms(2)] dest!: map_pc_inv(4,9))
  then show ?thesis using waiting_slot_advances [OF s(1)] wsim_advances [OF s(2) assms(2)] by blast
qed

theorem word_slot_advances_witness: "wslot_advances (2 ^ 7) 0 0 wq_sample"
  by (rule word_slot_advances [OF wq_sample_reachable, of _ 1])
    (simp_all add: wq_sample_def wwaits_for_def ticket_slot_def remap_index_def)

end
