(* ===== verification/Queue_Order.thy ===== *)
theory Queue_Order
  imports Word_Queue
begin

text \<open>
  The order of what goes through the concurrent queue. The send queue of a client has one
  producer, the listener, and one consumer, the worker of that client. For two such threads
  the queue is linearizable: every call takes effect at its compare-and-swap, or at the test
  that makes it give up, as the call of a bounded first-in-first-out list. With a second producer
  it is not: a message may overtake others.
\<close>

subsection \<open>The specification\<close>

text \<open>
  A bounded list, the element its consumer has taken and not yet been given, and the elements
  it was given. An operation that is not possible in a state has no result.
\<close>

datatype 'a fifo_op = Put 'a | Refuse | Take | Nothing | Give 'a

record 'a fifo =
  ff_items :: "'a list"
  ff_hand :: "'a option"
  ff_given :: "'a list"

definition fifo_new :: "'a fifo" where
  "fifo_new = \<lparr>ff_items = [], ff_hand = None, ff_given = []\<rparr>"

fun fifo_do :: "nat \<Rightarrow> 'a fifo_op \<Rightarrow> 'a fifo \<Rightarrow> 'a fifo option" where
  "fifo_do n (Put x) q = (if length (ff_items q) < n then Some (q\<lparr>ff_items := ff_items q @ [x]\<rparr>) else None)"
| "fifo_do n Refuse q = (if length (ff_items q) = n then Some q else None)"
| "fifo_do n Take q = (case (ff_items q, ff_hand q) of
     (x # xs, None) \<Rightarrow> Some (q\<lparr>ff_items := xs, ff_hand := Some x\<rparr>) | _ \<Rightarrow> None)"
| "fifo_do n Nothing q = (if ff_items q = [] then Some q else None)"
| "fifo_do n (Give x) q = (if ff_hand q = Some x then Some (q\<lparr>ff_hand := None, ff_given := ff_given q @ [x]\<rparr>) else None)"

definition acts :: "nat \<Rightarrow> 'a fifo_op list \<Rightarrow> 'a fifo \<Rightarrow> 'a fifo option" where
  "acts n ops q = fold (\<lambda>op r. Option.bind r (fifo_do n op)) ops (Some q)"

lemma acts_simps [simp]: "acts n [] q = Some q" "acts n [op] q = fifo_do n op q"
  by (simp_all add: acts_def)

lemma acts_append: "acts n (ops @ ops') q = Option.bind (acts n ops q) (acts n ops')"
proof -
  have "fold (\<lambda>op r. Option.bind r (fifo_do n op)) ops' None = None" by (induction ops') simp_all
  then show ?thesis by (cases "acts n ops q") (simp_all add: acts_def)
qed

text \<open>What a thread did, from its position before and after a step.\<close>

fun did :: "('a, 't) pc \<Rightarrow> ('a, 't) pc \<Rightarrow> 'a fifo_op list" where
  "did (Push_test x h) Idle = [Refuse]"
| "did (Push_cas x h) (Push_claim y k) = [Put x]"
| "did (Pop_test k) Idle = [Nothing]"
| "did (Pop_cas k) (Pop_claim i) = [Take]"
| "did (Pop_release x k) Idle = [Give x]"
| "did _ _ = []"

text \<open>Runs with the producer \<open>p\<close> and the consumer \<open>c\<close>, and what they did.\<close>

inductive wq_duo :: "u32 \<Rightarrow> nat \<Rightarrow> nat \<Rightarrow> nat \<Rightarrow> 'a fifo_op list \<Rightarrow> 'a wqueue \<Rightarrow> bool" for sz b p c where
  duo_begin: "wq_duo sz b p c [] (wq_start v)"
| duo_push: "wq_duo sz b p c ops w \<Longrightarrow> timely sz w \<Longrightarrow> wpush_step sz b p w w' \<Longrightarrow>
    wq_duo sz b p c (ops @ did (wq_pc w p) (wq_pc w' p)) w'"
| duo_pop: "wq_duo sz b p c ops w \<Longrightarrow> timely sz w \<Longrightarrow> wpop_step sz b c w w' \<Longrightarrow>
    wq_duo sz b p c (ops @ did (wq_pc w c) (wq_pc w' c)) w'"

text \<open>
  The list a state stands for: what the producer has drawn a ticket for and the consumer has
  not.
\<close>

fun carried :: "('a, 't) pc \<Rightarrow> 'a list" where
  "carried (Push_claim x h) = [x]"
| "carried (Push_store x h) = [x]"
| "carried (Push_publish x h) = [x]"
| "carried _ = []"

fun taking :: "('a, 't) pc \<Rightarrow> bool" where
  "taking (Pop_claim k) = True"
| "taking (Pop_load k) = True"
| "taking (Pop_release x k) = True"
| "taking _ = False"

definition fifo_view :: "'a list \<Rightarrow> 'a list \<Rightarrow> ('a, 't) pc \<Rightarrow> ('a, 't) pc \<Rightarrow> 'a fifo" where
  "fifo_view stored given pp pc = (let xs = drop (length given) (stored @ carried pp) in
     \<lparr>ff_items = (if taking pc then tl xs else xs), ff_hand = (if taking pc then Some (hd xs) else None), ff_given = given\<rparr>)"

definition wq_view :: "nat \<Rightarrow> nat \<Rightarrow> 'a wqueue \<Rightarrow> 'a fifo" where
  "wq_view p c w = fifo_view (map snd (wq_ins w)) (map snd (wq_outs w)) (wq_pc w p) (wq_pc w c)"

definition cq_view :: "nat \<Rightarrow> nat \<Rightarrow> 'a cqueue \<Rightarrow> 'a fifo" where
  "cq_view p c s = fifo_view (map snd (cq_ins s)) (map snd (cq_outs s)) (cq_pc s p) (cq_pc s c)"

subsection \<open>One producer and one consumer\<close>

text \<open>The slots are filled, and emptied, in turn.\<close>

definition in_order :: "nat \<Rightarrow> (nat \<times> 'a) list \<Rightarrow> bool" where
  "in_order n xs \<longleftrightarrow> map fst xs = map (\<lambda>k. k mod n) [0..<length xs]"

lemma in_order_simps [simp]:
  "in_order n []" "in_order n (xs @ [(i, x)]) \<longleftrightarrow> in_order n xs \<and> i = length xs mod n"
  by (auto simp: in_order_def)

lemma in_order_append:
  assumes "in_order n (xs @ (i, x) # ys)"
  shows "i = length xs mod n"
proof -
  let ?zs = "xs @ (i, x) # ys"
  have "map fst ?zs ! length xs = map (\<lambda>k. k mod n) [0..<length ?zs] ! length xs"
    using assms by (simp only: in_order_def)
  then show ?thesis by (simp add: nth_append del: upt_Suc)
qed

lemma at_slot_append: "at_slot i (xs @ ys) = at_slot i xs @ at_slot i ys"
  by (simp add: at_slot_def)

lemma slots_in_turn:
  "in_order n xs \<Longrightarrow> in_order n ys \<Longrightarrow> (\<And>i. \<exists>zs. at_slot i xs = at_slot i ys @ zs) \<Longrightarrow> \<exists>zs. xs = ys @ zs"
proof (induction ys rule: rev_induct)
  case (snoc y ys)
  obtain i x where y: "y = (i, x)" by (cases y)
  have i: "i = length ys mod n" and ys: "in_order n ys" using snoc.prems(2) by (simp_all add: y)
  have "\<exists>zs. at_slot j xs = at_slot j ys @ zs" for j
    using snoc.prems(3) [of j] by (auto simp: y split: if_splits)
  from snoc.IH [OF snoc.prems(1) ys this] obtain zs where zs: "xs = ys @ zs" by blast
  from snoc.prems(3) [of i] obtain us where us: "at_slot i zs = x # us" by (auto simp: y zs at_slot_append at_slot_def)
  then obtain j z zs' where z: "zs = (j, z) # zs'" by (cases zs) auto
  with in_order_append snoc.prems(1) zs have "j = i" by (metis i)
  with us z have "z = x" by (simp add: at_slot_def)
  with \<open>j = i\<close> show ?case by (simp add: zs z y)
qed simp

definition duo_ok :: "nat \<Rightarrow> nat \<Rightarrow> nat \<Rightarrow> 'a cqueue \<Rightarrow> bool" where
  "duo_ok n p c s \<longleftrightarrow> in_order n (cq_ins s) \<and> in_order n (cq_outs s) \<and>
     cq_head s = length (cq_ins s) + length (carried (cq_pc s p)) \<and>
     cq_tail s = length (cq_outs s) + (if taking (cq_pc s c) then 1 else 0) \<and>
     (\<forall>h. push_ticket (cq_pc s p) = Some h \<longrightarrow> h = length (cq_ins s)) \<and>
     (\<forall>k. pop_ticket (cq_pc s c) = Some k \<longrightarrow> k = length (cq_outs s)) \<and>
     (\<forall>h. seen (cq_pc s p) = Some h \<longrightarrow> h = cq_head s) \<and> (\<forall>k. seen_tail (cq_pc s c) = Some k \<longrightarrow> k = cq_tail s)"

lemma duo_ok_push:
  assumes "p \<noteq> c" "push_step n p s s'" "duo_ok n p c s"
  shows "duo_ok n p c s'"
  using assms(2) by cases (use assms(1,3) in \<open>auto simp: duo_ok_def\<close>)

lemma duo_ok_pop:
  assumes "p \<noteq> c" "pop_step n c s s'" "duo_ok n p c s"
  shows "duo_ok n p c s'"
  using assms(2) by cases (use assms(1,3) in \<open>auto simp: duo_ok_def\<close>)

text \<open>What was taken out of the slots is what was put in, in order.\<close>

lemma duo_prefix:
  assumes "cq_reach n s" "duo_ok n p c s"
  shows "\<exists>zs. cq_ins s = cq_outs s @ zs"
proof (rule slots_in_turn [of n])
  show "in_order n (cq_ins s)" "in_order n (cq_outs s)" using assms(2) by (simp_all add: duo_ok_def)
  fix i
  show "\<exists>zs. at_slot i (cq_ins s) = at_slot i (cq_outs s) @ zs"
    using concurrent_queue_loses_nothing [OF assms(1)] by blast
qed

text \<open>The calls take effect as operations of the list.\<close>

lemma push_acts:
  assumes "p \<noteq> c" "push_step n p s s'" "duo_ok n p c s" "tickets_ok n s"
  shows "acts n (did (cq_pc s p) (cq_pc s' p)) (cq_view p c s) = Some (cq_view p c s')"
  using assms(2)
proof cases
  case (push_full x h)
  with assms(1,3,4) show ?thesis
    by (auto simp: cq_view_def fifo_view_def duo_ok_def tickets_ok_def Let_def split: if_splits)
next
  case (push_won x h)
  have "length (cq_outs s) \<le> length (cq_ins s)" "taking (cq_pc s c) \<longrightarrow> length (cq_outs s) < length (cq_ins s)"
    "h = length (cq_ins s)" "h < cq_tail s + n"
    using assms(3,4) push_won by (auto simp: duo_ok_def tickets_ok_def split: if_splits)
  moreover have "cq_tail s = length (cq_outs s) + (if taking (cq_pc s c) then 1 else 0)" using assms(3) by (simp add: duo_ok_def)
  ultimately show ?thesis
    using assms(1) push_won
    by (auto simp: cq_view_def fifo_view_def Let_def fun_upd_def tl_append hd_append split: list.splits if_splits)
next
  case (push_lost x h)
  then show ?thesis using assms(1) by (simp add: cq_view_def fifo_view_def)
qed (use assms(1) in \<open>simp_all add: cq_view_def fifo_view_def\<close>)

lemma pop_acts:
  assumes "p \<noteq> c" "pop_step n c s s'" "duo_ok n p c s" "tickets_ok n s" "cq_reach n s"
  shows "acts n (did (cq_pc s c) (cq_pc s' c)) (cq_view p c s) = Some (cq_view p c s')"
  using assms(2)
proof cases
  case (pop_empty k)
  with assms(1,3,4) show ?thesis
    by (auto simp: cq_view_def fifo_view_def duo_ok_def tickets_ok_def Let_def split: if_splits)
next
  case (pop_won k)
  have "length (cq_outs s) < length (cq_ins s) + length (carried (cq_pc s p))"
    using assms(3,4) pop_won by (auto simp: duo_ok_def tickets_ok_def)
  then have "drop (length (cq_outs s)) (map snd (cq_ins s) @ carried (cq_pc s p)) \<noteq> []" by (simp only: drop_eq_Nil) simp
  then obtain x xs where "drop (length (cq_outs s)) (map snd (cq_ins s) @ carried (cq_pc s p)) = x # xs"
    by (meson neq_Nil_conv)
  with assms(1) pop_won show ?thesis by (simp add: cq_view_def fifo_view_def Let_def)
next
  case (pop_release x k)
  have k: "k = length (cq_outs s)" using assms(3) pop_release by (simp add: duo_ok_def)
  have s': "cq_reach n s'" using assms(2,5) by (rule cq_reach.cq_pop [rotated])
  obtain zs where "cq_ins s' = cq_outs s' @ zs"
    using duo_prefix [OF s' duo_ok_pop [OF assms(1-3)]] by blast
  then have "cq_ins s = cq_outs s @ (k mod n, x) # zs" using pop_release by simp
  with assms(1) pop_release show ?thesis by (simp add: cq_view_def fifo_view_def Let_def)
qed (use assms(1) in \<open>simp_all add: cq_view_def fifo_view_def\<close>)

lemma view_pc_map: "fifo_view xs ys (map_pc (\<lambda>x. x) f pp) (map_pc (\<lambda>x. x) f pc) = fifo_view xs ys pp pc"
proof -
  have "carried (map_pc (\<lambda>x. x) f pp) = carried pp" "taking (map_pc (\<lambda>x. x) f pc) = taking pc"
    by (cases pp; simp) (cases pc; simp)
  then show ?thesis by (simp add: fifo_view_def)
qed

lemma did_map: "did (map_pc (\<lambda>x. x) f u) (map_pc (\<lambda>x. x) f v) = did u v"
  by (cases u; cases v; simp)

lemma wsim_views:
  assumes "wsim lg b s w"
  shows "wq_view p c w = cq_view p c s" "wq_pc w t = map_pc (\<lambda>x. x) of_nat (cq_pc s t)"
  using assms by (simp_all add: wsim_def wq_view_def cq_view_def view_pc_map comp_def)

text \<open>Every timely run of two threads is a run of the list.\<close>

lemma wq_duo_refines:
  assumes "lg < 31" "2 * b \<le> lg" "p \<noteq> c"
  shows "wq_duo (2 ^ lg) b p c ops w \<Longrightarrow> \<exists>s. cq_reach (2 ^ lg) s \<and> duo_ok (2 ^ lg) p c s \<and> wsim lg b s w \<and>
    acts (2 ^ lg) ops fifo_new = Some (cq_view p c s)"
proof (induction rule: wq_duo.induct)
  case (duo_begin v)
  show ?case
    by (intro exI conjI, rule cq_begin) (rule wsim_start | simp add: duo_ok_def cq_start_def cq_view_def fifo_view_def fifo_new_def)+
next
  case (duo_push ops w w')
  then obtain s where s: "cq_reach (2 ^ lg) s" "duo_ok (2 ^ lg) p c s" "wsim lg b s w"
    "acts (2 ^ lg) ops fifo_new = Some (cq_view p c s)" by blast
  note tk = reach_tickets [OF s(1)]
  obtain s' where s': "push_step (2 ^ lg) p s s'" "wsim lg b s' w'"
    using wsim_push [OF s(3) tk duo_push(2) assms(1,2) duo_push(3)] by blast
  with push_acts [OF assms(3) s'(1) s(2) tk] s(4) show ?case
    by (intro exI [of _ s'])
      (auto simp: acts_append wsim_views [OF s(3)] wsim_views [OF s'(2)] did_map duo_ok_push [OF assms(3) s'(1) s(2)] intro: cq_push s(1))
next
  case (duo_pop ops w w')
  then obtain s where s: "cq_reach (2 ^ lg) s" "duo_ok (2 ^ lg) p c s" "wsim lg b s w"
    "acts (2 ^ lg) ops fifo_new = Some (cq_view p c s)" by blast
  note tk = reach_tickets [OF s(1)]
  obtain s' where s': "pop_step (2 ^ lg) c s s'" "wsim lg b s' w'"
    using wsim_pop [OF s(3) tk duo_pop(2) assms(1,2) duo_pop(3)] by blast
  with pop_acts [OF assms(3) s'(1) s(2) tk s(1)] s(4) show ?case
    by (intro exI [of _ s'])
      (auto simp: acts_append wsim_views [OF s(3)] wsim_views [OF s'(2)] did_map duo_ok_pop [OF assms(3) s'(1) s(2)] intro: cq_pop s(1))
qed

subsection \<open>Calls of one thread\<close>

text \<open>Steps of one thread while the others stand still, with what it did.\<close>

inductive push_run :: "u32 \<Rightarrow> nat \<Rightarrow> nat \<Rightarrow> 'a fifo_op list \<Rightarrow> 'a wqueue \<Rightarrow> 'a wqueue \<Rightarrow> bool" for sz b t where
  push_run_nil: "push_run sz b t [] w w"
| push_run_step: "push_run sz b t ops w u \<Longrightarrow> timely sz u \<Longrightarrow> wpush_step sz b t u v \<Longrightarrow>
    push_run sz b t (ops @ did (wq_pc u t) (wq_pc v t)) w v"

inductive pop_run :: "u32 \<Rightarrow> nat \<Rightarrow> nat \<Rightarrow> 'a fifo_op list \<Rightarrow> 'a wqueue \<Rightarrow> 'a wqueue \<Rightarrow> bool" for sz b t where
  pop_run_nil: "pop_run sz b t [] w w"
| pop_run_step: "pop_run sz b t ops w u \<Longrightarrow> timely sz u \<Longrightarrow> wpop_step sz b t u v \<Longrightarrow>
    pop_run sz b t (ops @ did (wq_pc u t) (wq_pc v t)) w v"

lemma push_run_reach: "push_run sz b t ops w v \<Longrightarrow> wq_reach sz b w \<Longrightarrow> wq_reach sz b v"
  by (induction rule: push_run.induct) (auto intro: wq_push)

lemma pop_run_reach: "pop_run sz b t ops w v \<Longrightarrow> wq_reach sz b w \<Longrightarrow> wq_reach sz b v"
  by (induction rule: pop_run.induct) (auto intro: wq_pop)

lemma push_run_duo: "push_run sz b p ops' w v \<Longrightarrow> wq_duo sz b p c ops w \<Longrightarrow> wq_duo sz b p c (ops @ ops') v"
  by (induction rule: push_run.induct) (simp_all add: wq_duo.duo_push flip: append_assoc)

lemma pop_run_duo: "pop_run sz b c ops' w v \<Longrightarrow> wq_duo sz b p c ops w \<Longrightarrow> wq_duo sz b p c (ops @ ops') v"
  by (induction rule: pop_run.induct) (simp_all add: wq_duo.duo_pop flip: append_assoc)

lemma push_run_trans: "push_run sz b t ops' u v \<Longrightarrow> push_run sz b t ops w u \<Longrightarrow> push_run sz b t (ops @ ops') w v"
  by (induction rule: push_run.induct) (simp_all add: push_run_step flip: append_assoc)

lemma pop_run_trans: "pop_run sz b t ops' u v \<Longrightarrow> pop_run sz b t ops w u \<Longrightarrow> pop_run sz b t (ops @ ops') w v"
  by (induction rule: pop_run.induct) (simp_all add: pop_run_step flip: append_assoc)

lemma push_run_three:
  assumes "timely sz w1" "wpush_step sz b t w1 w2" "timely sz w2" "wpush_step sz b t w2 w3" "timely sz w3" "wpush_step sz b t w3 w4"
  shows "push_run sz b t (did (wq_pc w1 t) (wq_pc w2 t) @ did (wq_pc w2 t) (wq_pc w3 t) @ did (wq_pc w3 t) (wq_pc w4 t)) w1 w4"
  using push_run_step [OF push_run_step [OF push_run_step [OF push_run_nil assms(1,2)] assms(3,4)] assms(5,6)] by simp

lemma pop_run_three:
  assumes "timely sz w1" "wpop_step sz b t w1 w2" "timely sz w2" "wpop_step sz b t w2 w3" "timely sz w3" "wpop_step sz b t w3 w4"
  shows "pop_run sz b t (did (wq_pc w1 t) (wq_pc w2 t) @ did (wq_pc w2 t) (wq_pc w3 t) @ did (wq_pc w3 t) (wq_pc w4 t)) w1 w4"
  using pop_run_step [OF pop_run_step [OF pop_run_step [OF pop_run_nil assms(1,2)] assms(3,4)] assms(5,6)] by simp

text \<open>Nobody is between reading a counter and using it.\<close>

definition calm :: "'a wqueue \<Rightarrow> bool" where
  "calm w \<longleftrightarrow> (\<forall>t. \<not> looking (wq_pc w t))"

lemma push_draw:
  assumes "calm w" "unat sz < 2 ^ 31" "wq_pc w t = Idle" "\<not> as_int sz \<le> as_int (wq_head w - wq_tail w)"
  shows "\<exists>v. push_run sz b t [Put x] w v \<and> calm v \<and> wq_pc v = (wq_pc w)(t := Push_claim x (wq_head w)) \<and>
    wq_head v = wq_head w + 1 \<and> wq_tail v = wq_tail w \<and> wq_state v = wq_state w \<and> wq_elem v = wq_elem w \<and>
    wq_ins v = wq_ins w \<and> wq_outs v = wq_outs w"
proof -
  let ?h = "wq_head w"
  let ?w1 = "wq_at t (Push_test x ?h) (wq_look t w)"
  let ?w2 = "wq_at t (Push_cas x ?h) ?w1"
  let ?w3 = "wq_at t (Push_claim x ?h) (wq_draw (?w2\<lparr>wq_head := ?h + 1\<rparr>))"
  have tm: "timely sz w" "timely sz ?w1" "timely sz ?w2" using assms(1,2) by (auto simp: timely_def calm_def)
  have st: "wpush_step sz b t w ?w1" "wpush_step sz b t ?w1 ?w2" "wpush_step sz b t ?w2 ?w3"
    using assms(3,4) by (auto intro: wpush_start wpush_room wpush_won)
  from push_run_three [OF tm(1) st(1) tm(2) st(2) tm(3) st(3)] assms(1,3) show ?thesis
    by (intro exI [of _ ?w3]) (auto simp: calm_def)
qed

lemma push_fill:
  assumes "calm w" "wq_pc w t = Push_claim x h" "wq_state w (ticket_slot sz b h) = EMPTY"
  shows "\<exists>v. push_run sz b t [] w v \<and> calm v \<and> wq_pc v = (wq_pc w)(t := Idle) \<and> wq_head v = wq_head w \<and> wq_tail v = wq_tail w \<and>
    wq_state v = (wq_state w)(ticket_slot sz b h := STORED) \<and> wq_elem v = (wq_elem w)(ticket_slot sz b h := x) \<and>
    wq_ins v = wq_ins w @ [(ticket_slot sz b h, x)] \<and> wq_outs v = wq_outs w"
proof -
  let ?i = "ticket_slot sz b h"
  let ?w1 = "wq_at t (Push_store x h) (wq_mark ?i STORING w)"
  let ?w2 = "wq_at t (Push_publish x h) (wq_put ?i x ?w1)"
  let ?w3 = "wq_at t Idle ((wq_mark ?i STORED ?w2)\<lparr>wq_ins := wq_ins ?w2 @ [(?i, x)]\<rparr>)"
  have tm: "timely sz w" "timely sz ?w1" "timely sz ?w2" using assms(1) by (auto simp: timely_def calm_def)
  have st1: "wpush_step sz b t w ?w1" by (rule wpush_claim [OF assms(2,3)])
  have st2: "wpush_step sz b t ?w1 ?w2" by (rule wpush_store) simp
  have st3: "wpush_step sz b t ?w2 ?w3" by (rule wpush_publish) simp
  from push_run_three [OF tm(1) st1 tm(2) st2 tm(3) st3] assms(1,2) show ?thesis
    by (intro exI [of _ ?w3]) (auto simp: calm_def)
qed

lemma pop_draw:
  assumes "calm w" "unat sz < 2 ^ 31" "wq_pc w t = Idle" "\<not> as_int (wq_head w - wq_tail w) \<le> 0"
  shows "\<exists>v. pop_run sz b t [Take] w v \<and> calm v \<and> wq_pc v = (wq_pc w)(t := Pop_claim (wq_tail w)) \<and>
    wq_head v = wq_head w \<and> wq_tail v = wq_tail w + 1 \<and> wq_state v = wq_state w \<and> wq_elem v = wq_elem w \<and>
    wq_ins v = wq_ins w \<and> wq_outs v = wq_outs w"
proof -
  let ?k = "wq_tail w"
  let ?w1 = "wq_at t (Pop_test ?k) (wq_look t w)"
  let ?w2 = "wq_at t (Pop_cas ?k) ?w1"
  let ?w3 = "wq_at t (Pop_claim ?k) (wq_draw (?w2\<lparr>wq_tail := ?k + 1\<rparr>))"
  have tm: "timely sz w" "timely sz ?w1" "timely sz ?w2" using assms(1,2) by (auto simp: timely_def calm_def)
  have st: "wpop_step sz b t w ?w1" "wpop_step sz b t ?w1 ?w2" "wpop_step sz b t ?w2 ?w3"
    using assms(3,4) by (auto intro: wpop_start wpop_some wpop_won)
  from pop_run_three [OF tm(1) st(1) tm(2) st(2) tm(3) st(3)] assms(1,3) show ?thesis
    by (intro exI [of _ ?w3]) (auto simp: calm_def)
qed

lemma pop_finish:
  assumes "calm w" "wq_pc w t = Pop_claim k" "wq_state w (ticket_slot sz b k) = STORED"
  shows "\<exists>v. pop_run sz b t [Give (wq_elem w (ticket_slot sz b k))] w v \<and> calm v \<and> wq_pc v = (wq_pc w)(t := Idle) \<and>
    wq_head v = wq_head w \<and> wq_tail v = wq_tail w \<and> wq_state v = (wq_state w)(ticket_slot sz b k := EMPTY) \<and>
    wq_elem v = wq_elem w \<and>
    wq_ins v = wq_ins w \<and> wq_outs v = wq_outs w @ [(ticket_slot sz b k, wq_elem w (ticket_slot sz b k))]"
proof -
  let ?i = "ticket_slot sz b k"
  let ?w1 = "wq_at t (Pop_load k) (wq_mark ?i LOADING w)"
  let ?w2 = "wq_at t (Pop_release (wq_elem ?w1 ?i) k) (wq_put ?i (wq_elem w ?i) ?w1)"
  let ?w3 = "wq_at t Idle ((wq_mark ?i EMPTY ?w2)\<lparr>wq_outs := wq_outs ?w2 @ [(?i, wq_elem ?w1 ?i)]\<rparr>)"
  have tm: "timely sz w" "timely sz ?w1" "timely sz ?w2" using assms(1) by (auto simp: timely_def calm_def)
  have st1: "wpop_step sz b t w ?w1" by (rule wpop_claim [OF assms(2,3)])
  have st2: "wpop_step sz b t ?w1 ?w2" by (rule wpop_load) simp
  have st3: "wpop_step sz b t ?w2 ?w3" by (rule wpop_release) simp
  from pop_run_three [OF tm(1) st1 tm(2) st2 tm(3) st3] assms(1,2) show ?thesis
    by (intro exI [of _ ?w3]) (auto simp: calm_def)
qed

lemma push_call:
  assumes "calm w" "unat sz < 2 ^ 31" "wq_pc w t = Idle" "\<not> as_int sz \<le> as_int (wq_head w - wq_tail w)"
    "wq_state w (ticket_slot sz b (wq_head w)) = EMPTY"
  shows "\<exists>v. push_run sz b t [Put x] w v \<and> calm v \<and> wq_pc v = wq_pc w \<and>
    wq_head v = wq_head w + 1 \<and> wq_tail v = wq_tail w \<and> wq_state v = (wq_state w)(ticket_slot sz b (wq_head w) := STORED) \<and>
    wq_elem v = (wq_elem w)(ticket_slot sz b (wq_head w) := x) \<and>
    wq_ins v = wq_ins w @ [(ticket_slot sz b (wq_head w), x)] \<and> wq_outs v = wq_outs w"
proof -
  obtain u where u: "push_run sz b t [Put x] w u" "calm u" "wq_pc u = (wq_pc w)(t := Push_claim x (wq_head w))"
    "wq_head u = wq_head w + 1" "wq_tail u = wq_tail w" "wq_state u = wq_state w" "wq_elem u = wq_elem w"
    "wq_ins u = wq_ins w" "wq_outs u = wq_outs w"
    using push_draw [OF assms(1-4)] by blast
  obtain v where v: "push_run sz b t [] u v" "calm v" "wq_pc v = (wq_pc u)(t := Idle)" "wq_head v = wq_head u" "wq_tail v = wq_tail u"
    "wq_state v = (wq_state u)(ticket_slot sz b (wq_head w) := STORED)" "wq_elem v = (wq_elem u)(ticket_slot sz b (wq_head w) := x)"
    "wq_ins v = wq_ins u @ [(ticket_slot sz b (wq_head w), x)]" "wq_outs v = wq_outs u"
    using push_fill [OF u(2), of t x "wq_head w" sz b] u(3,6) assms(5) by auto
  from push_run_trans [OF v(1) u(1)] u v assms(3) show ?thesis by (intro exI [of _ v]) (auto simp: fun_upd_idem)
qed

lemma size_word:
  assumes "lg < 31"
  shows "unat (2 ^ lg :: u32) = 2 ^ lg" "(2 :: nat) ^ lg < 2 ^ 31" "as_int (2 ^ lg) = 2 ^ lg"
proof -
  show n: "unat (2 ^ lg :: u32) = 2 ^ lg" "(2 :: nat) ^ lg < 2 ^ 31"
    using assms power_strict_increasing [of lg 31 "2 :: nat"] by (simp_all add: unat_exp)
  then show "as_int (2 ^ lg) = 2 ^ lg" using as_int_small [of "2 ^ lg"] by simp
qed

lemma as_int_one: "m < 2 ^ 31 \<Longrightarrow> as_int (of_nat (Suc m) - 1) = int m"
  using as_int_diff [of "Suc m" 1] by simp

subsection \<open>Overtaking\<close>

definition round_slot :: "nat \<Rightarrow> nat \<Rightarrow> nat \<Rightarrow> nat" where
  "round_slot lg b h = slot_index b (h mod 2 ^ lg)"

text \<open>
  Thread 0 has drawn ticket 0 and sleeps before it marks its slot; thread 2 has drawn the first
  ticket of a consumer and waits for that slot; thread 1 has stored the first \<open>k\<close> of its
  messages.
\<close>

definition stalled :: "nat \<Rightarrow> nat \<Rightarrow> 'a \<Rightarrow> 'a list \<Rightarrow> nat \<Rightarrow> 'a wqueue \<Rightarrow> bool" where
  "stalled lg b y xs k w \<longleftrightarrow> calm w \<and> wq_pc w = (\<lambda>_. Idle)(0 := Push_claim y 0, 2 := Pop_claim 0) \<and>
     wq_head w = of_nat (Suc k) \<and> wq_tail w = 1 \<and> map snd (wq_ins w) = take k xs \<and> wq_outs w = [] \<and>
     (\<forall>h. 1 \<le> h \<and> h \<le> 2 ^ lg \<longrightarrow> (if h \<le> k
        then wq_state w (round_slot lg b h) = STORED \<and> wq_elem w (round_slot lg b h) = xs ! (h - 1)
        else wq_state w (round_slot lg b h) = EMPTY))"

lemma slots_of_round:
  assumes "lg < 31" "2 * b \<le> lg" "1 \<le> h" "h \<le> 2 ^ lg" "1 \<le> k" "k \<le> 2 ^ lg"
  shows "round_slot lg b h = round_slot lg b k \<longleftrightarrow> h = k"
proof
  assume "round_slot lg b h = round_slot lg b k"
  then have eq: "h mod 2 ^ lg = k mod 2 ^ lg"
    using slot_index_inj [OF assms(1,2), of "h mod 2 ^ lg" "k mod 2 ^ lg"] by (simp add: round_slot_def)
  show "h = k"
  proof (rule linorder_le_cases [of h k])
    assume "h \<le> k"
    then show ?thesis by (rule mod_window [OF _ _ eq]) (use assms in simp)
  next
    assume "k \<le> h"
    then have "k = h" by (rule mod_window [OF _ _ eq [symmetric]]) (use assms in simp)
    then show ?thesis by simp
  qed
qed simp

lemma stalled_push:
  assumes lg: "lg < 31" "2 * b \<le> lg" and k: "k < 2 ^ lg" "k < length xs" and w: "stalled lg b y xs k w"
  shows "\<exists>v. push_run (2 ^ lg) b 1 [Put (xs ! k)] w v \<and> stalled lg b y xs (Suc k) v"
proof -
  note n = size_word [OF lg(1)]
  have slot: "ticket_slot (2 ^ lg) b (wq_head w) = round_slot lg b (Suc k)"
    using w ticket_slot_of_nat [OF lg(1), of b "Suc k"] by (simp add: stalled_def round_slot_def)
  have room: "\<not> as_int (2 ^ lg) \<le> as_int (wq_head w - wq_tail w)"
    using w as_int_one [of k] n k by (simp add: stalled_def)
  have free: "wq_state w (ticket_slot (2 ^ lg) b (wq_head w)) = EMPTY"
    using w k unfolding slot stalled_def by auto
  obtain v where v: "push_run (2 ^ lg) b 1 [Put (xs ! k)] w v" "calm v" "wq_pc v = wq_pc w" "wq_head v = wq_head w + 1"
    "wq_tail v = wq_tail w" "wq_state v = (wq_state w)(round_slot lg b (Suc k) := STORED)"
    "wq_elem v = (wq_elem w)(round_slot lg b (Suc k) := xs ! k)"
    "wq_ins v = wq_ins w @ [(round_slot lg b (Suc k), xs ! k)]" "wq_outs v = wq_outs w"
    using push_call [OF _ _ _ room free, of 1 "xs ! k"] w n unfolding slot by (auto simp: stalled_def)
  have other: "round_slot lg b h = round_slot lg b (Suc k) \<longleftrightarrow> h = Suc k" if "1 \<le> h" "h \<le> 2 ^ lg" for h
    by (rule slots_of_round [OF lg that]) (use k in simp_all)
  have "if h \<le> Suc k then wq_state v (round_slot lg b h) = STORED \<and> wq_elem v (round_slot lg b h) = xs ! (h - 1)
      else wq_state v (round_slot lg b h) = EMPTY" if "1 \<le> h" "h \<le> 2 ^ lg" for h
    using w that by (cases "h = Suc k") (auto simp: stalled_def v(6,7) other le_Suc_eq)
  then have "stalled lg b y xs (Suc k) v"
    using w v(2-5,8,9) k unfolding stalled_def by (simp add: take_Suc_conv_app_nth)
  with v(1) show ?thesis by blast
qed

lemma stalled_pushes:
  assumes "lg < 31" "2 * b \<le> lg" "length xs = 2 ^ lg" "stalled lg b y xs 0 w"
  shows "k \<le> 2 ^ lg \<Longrightarrow> \<exists>v. push_run (2 ^ lg) b 1 (map Put (take k xs)) w v \<and> stalled lg b y xs k v"
proof (induction k)
  case 0
  show ?case using assms(4) by (auto intro: push_run_nil)
next
  case (Suc k)
  then obtain u where u: "push_run (2 ^ lg) b 1 (map Put (take k xs)) w u" "stalled lg b y xs k u" by auto
  obtain v where "push_run (2 ^ lg) b 1 [Put (xs ! k)] u v" "stalled lg b y xs (Suc k) v"
    using stalled_push [OF assms(1,2) _ _ u(2)] Suc.prems assms(3) by auto
  with push_run_trans [OF this(1) u(1)] Suc.prems assms(3) show ?case
    by (intro exI [of _ v]) (simp add: take_Suc_conv_app_nth)
qed

lemma stall:
  assumes "lg < 31" "2 * b \<le> lg"
  shows "\<exists>w. wq_reach (2 ^ lg) b w \<and> stalled lg b y xs 0 w \<and> wq_ins w = []"
proof -
  have small: "unat (2 ^ lg :: u32) < 2 ^ 31" "\<not> as_int (2 ^ lg) \<le> 0" using size_word [OF assms(1)] by simp_all
  have z: "as_int 0 = 0" "as_int 1 = 1" by (simp_all add: as_int_def)
  let ?w0 = "wq_start y"
  have c: "calm ?w0" by (simp add: calm_def)
  obtain u where u: "push_run (2 ^ lg) b 0 [Put y] ?w0 u" "calm u" "wq_pc u = (\<lambda>_. Idle)(0 := Push_claim y 0)"
    "wq_head u = 1" "wq_tail u = 0" "wq_state u = (\<lambda>_. EMPTY)" "wq_ins u = []" "wq_outs u = []"
    using push_draw [OF c small(1), of 0 b y] small(2) z by (auto simp: wq_start_def)
  obtain v where v: "pop_run (2 ^ lg) b 2 [Take] u v" "calm v" "wq_pc v = (wq_pc u)(2 := Pop_claim 0)"
    "wq_head v = 1" "wq_tail v = 1" "wq_state v = (\<lambda>_. EMPTY)" "wq_ins v = []" "wq_outs v = []"
    using pop_draw [OF u(2) small(1), of 2 b] u z by auto
  have "wq_reach (2 ^ lg) b v"
    by (rule pop_run_reach [OF v(1)], rule push_run_reach [OF u(1)], rule wq_begin)
  with u v show ?thesis by (intro exI [of _ v]) (simp add: stalled_def)
qed

lemma overtaken:
  assumes lg: "0 < lg" "lg < 31" "2 * b \<le> lg" and xs: "length xs = 2 ^ lg" and w: "stalled lg b y xs (2 ^ lg) w"
  shows "\<exists>v. pop_run (2 ^ lg) b 2 [Give (last xs), Take, Give (hd xs)] w v \<and> map snd (wq_outs v) = [last xs, hd xs]"
proof -
  let ?N = "2 ^ lg :: nat"
  have n: "unat (2 ^ lg :: u32) = ?N" "?N < 2 ^ 31" "1 < ?N" and ne: "xs \<noteq> []"
    using size_word [OF lg(2)] lg(1) power_strict_increasing [of 0 lg "2 :: nat"] xs by auto
  have slots: "ticket_slot (2 ^ lg) b 0 = round_slot lg b ?N" "ticket_slot (2 ^ lg) b 1 = round_slot lg b 1"
    using ticket_slot_of_nat [OF lg(2), of b 0] ticket_slot_of_nat [OF lg(2), of b 1] by (simp_all add: round_slot_def)
  have at: "wq_state w (round_slot lg b h) = STORED" "wq_elem w (round_slot lg b h) = xs ! (h - 1)" if "1 \<le> h" "h \<le> ?N" for h
    using w that by (simp_all add: stalled_def)
  have ends: "wq_elem w (round_slot lg b ?N) = last xs" "wq_elem w (round_slot lg b 1) = hd xs"
    using at(2) [of ?N] at(2) [of 1] xs ne n(3) by (simp_all add: last_conv_nth hd_conv_nth)
  obtain u where u: "pop_run (2 ^ lg) b 2 [Give (last xs)] w u" "calm u" "wq_pc u = (wq_pc w)(2 := Idle)" "wq_head u = wq_head w"
    "wq_tail u = wq_tail w" "wq_state u = (wq_state w)(round_slot lg b ?N := EMPTY)" "wq_elem u = wq_elem w" "map snd (wq_outs u) = [last xs]"
    using pop_finish [of w 2 0 "2 ^ lg" b] w at(1) [of ?N] n(3) unfolding slots ends by (auto simp: stalled_def)
  have some: "\<not> as_int (wq_head u - wq_tail u) \<le> 0" using u(4,5) w as_int_one [OF n(2)] by (simp add: stalled_def)
  have small: "unat (2 ^ lg :: u32) < 2 ^ 31" and idle: "wq_pc u 2 = Idle" and tail: "wq_tail u = 1"
    using n u(3,5) w by (simp_all add: stalled_def)
  obtain v where v: "pop_run (2 ^ lg) b 2 [Take] u v" "calm v" "wq_pc v = (wq_pc u)(2 := Pop_claim 1)"
    "wq_state v = wq_state u" "wq_elem v = wq_elem u" "wq_outs v = wq_outs u"
    using pop_draw [OF u(2) small idle some, of b] unfolding tail by blast
  have "round_slot lg b 1 \<noteq> round_slot lg b ?N" using slots_of_round [OF lg(2,3), of 1 ?N] n(3) by simp
  then have there: "wq_state v (ticket_slot (2 ^ lg) b 1) = STORED" "wq_elem v (ticket_slot (2 ^ lg) b 1) = hd xs"
    using v(4,5) u(6,7) at(1) [of 1] n(3) ends(2) unfolding slots by simp_all
  have pc: "wq_pc v 2 = Pop_claim 1" using v(3) by simp
  obtain z where z: "pop_run (2 ^ lg) b 2 [Give (hd xs)] v z" "map snd (wq_outs z) = map snd (wq_outs v) @ [hd xs]"
    using pop_finish [OF v(2) pc there(1)] unfolding there(2) by auto
  from pop_run_trans [OF z(1) pop_run_trans [OF v(1) u(1)]] z(2) v(6) u(8) show ?thesis
    by (intro exI [of _ z]) simp
qed

subsection \<open>Properties\<close>

text \<open>C6: the send queue of a client under concurrency. With one producer and one consumer, the
  listener and the worker of the client, every interleaving of their atomic steps behaves as a
  first-in-first-out list of \<open>2 ^ lg\<close> elements: each accepted push is in effect at its
  compare-and-swap, each element is taken in the order of the pushes and handed over unchanged, a
  push is refused only when the list is full at that moment and a pop finds nothing only
  when it is empty. What was handed over is a prefix of what was stored.\<close>

theorem send_queue_linearizable:
  assumes "wq_duo (2 ^ lg) b p c ops w" and "lg < 31" and "2 * b \<le> lg" and "p \<noteq> c"
  shows "acts (2 ^ lg) ops fifo_new = Some (wq_view p c w) \<and>
    (\<exists>rest. map snd (wq_ins w) = map snd (wq_outs w) @ rest)"
proof -
  obtain s where s: "cq_reach (2 ^ lg) s" "duo_ok (2 ^ lg) p c s" "wsim lg b s w"
    "acts (2 ^ lg) ops fifo_new = Some (cq_view p c s)"
    using wq_duo_refines [OF assms(2-4,1)] by blast
  obtain zs where "cq_ins s = cq_outs s @ zs" using duo_prefix [OF s(1,2)] by blast
  then have "map snd (wq_ins w) = map snd (wq_outs w) @ map snd zs" using s(3) by (simp add: wsim_def)
  with s(4) wsim_views(1) [OF s(3)] show ?thesis by auto
qed

theorem send_queue_linearizable_witness:
  "\<exists>w. wq_duo (2 ^ 7) 0 0 1 [Put 7, Take, Give (7 :: nat)] w \<and> ff_given (wq_view 0 1 w) = [7] \<and> ff_items (wq_view 0 1 w) = []"
proof -
  have size: "unat (2 ^ 7 :: u32) < 2 ^ 31" "as_int (2 ^ 7) = 2 ^ 7" "as_int 0 = 0" "as_int 1 = 1"
    using size_word [of 7] by (simp_all add: as_int_def)
  have c: "calm (wq_start (0 :: nat))" by (simp add: calm_def)
  have room: "\<not> as_int (2 ^ 7) \<le> as_int (wq_head (wq_start (0 :: nat)) - wq_tail (wq_start (0 :: nat)))" using size by simp
  obtain u where u: "push_run (2 ^ 7) 0 0 [Put 7] (wq_start (0 :: nat)) u" "calm u" "wq_pc u = (\<lambda>_. Idle)" "wq_head u = 1" "wq_tail u = 0"
    "wq_state u = (\<lambda>_. EMPTY)(ticket_slot (2 ^ 7) 0 0 := STORED)" "wq_elem u = (\<lambda>_. 0)(ticket_slot (2 ^ 7) 0 0 := 7)"
    using push_call [OF c size(1) _ room, of 0 0 7] by (auto simp: wq_start_def)
  obtain v where v: "pop_run (2 ^ 7) 0 1 [Take] u v" "calm v" "wq_pc v 1 = Pop_claim 0" "wq_state v = wq_state u" "wq_elem v = wq_elem u"
    using pop_draw [OF u(2) size(1), of 1 0] u(3-5) size(4) by auto
  obtain w where w: "pop_run (2 ^ 7) 0 1 [Give 7] v w"
    using pop_finish [OF v(2,3), of "2 ^ 7" 0] u(6,7) v(4,5) by auto
  have run: "wq_duo (2 ^ 7) 0 0 1 [Put 7, Take, Give 7] w"
    using pop_run_duo [OF w pop_run_duo [OF v(1) push_run_duo [OF u(1) duo_begin]]] by simp
  from send_queue_linearizable [OF this] have "acts (2 ^ 7) [Put 7, Take, Give 7] fifo_new = Some (wq_view 0 1 w)" by simp
  then have "wq_view 0 1 w = \<lparr>ff_items = [], ff_hand = None, ff_given = [7]\<rparr>" by (simp add: acts_def fifo_new_def)
  with run show ?thesis by auto
qed

text \<open>C25: with two producers the queue is not first-in-first-out, not even for the messages of one of them.
  A producer sleeps after it has drawn its ticket, and the consumer waits for that slot. The
  other producer stores \<open>2 ^ lg\<close> messages, all accepted, and the last of them goes into the slot the
  consumer waits for: it is handed over first, and the first of them after it.\<close>

theorem last_message_overtakes:
  assumes "0 < lg" and "lg < 31" and "2 * b \<le> lg" and "length xs = 2 ^ lg"
  shows "\<exists>w1 w2 w3. wq_reach (2 ^ lg) b w1 \<and> wq_ins w1 = [] \<and> push_run (2 ^ lg) b 1 (map Put xs) w1 w2 \<and>
    map snd (wq_ins w2) = xs \<and> pop_run (2 ^ lg) b 2 [Give (last xs), Take, Give (hd xs)] w2 w3 \<and>
    map snd (wq_outs w3) = [last xs, hd xs]"
proof -
  obtain w1 where w1: "wq_reach (2 ^ lg) b w1" "stalled lg b (hd xs) xs 0 w1" "wq_ins w1 = []"
    using stall [OF assms(2,3), of "hd xs" xs] by blast
  have whole: "take (2 ^ lg) xs = xs" using assms(4) by simp
  obtain w2 where w2: "push_run (2 ^ lg) b 1 (map Put xs) w1 w2" "stalled lg b (hd xs) xs (2 ^ lg) w2"
    using stalled_pushes [OF assms(2-4) w1(2) order_refl] unfolding whole by blast
  have stored: "map snd (wq_ins w2) = xs" using w2(2) assms(4) by (simp add: stalled_def)
  obtain w3 where w3: "pop_run (2 ^ lg) b 2 [Give (last xs), Take, Give (hd xs)] w2 w3" "map snd (wq_outs w3) = [last xs, hd xs]"
    using overtaken [OF assms w2(2)] by (elim exE conjE)
  show ?thesis
    by (rule exI [of _ w1], rule exI [of _ w2], rule exI [of _ w3]) (intro conjI w1(1,3) w2(1) stored w3)
qed

theorem last_message_overtakes_witness:
  "\<exists>w1 w2 w3. wq_reach (2 ^ 7) 0 w1 \<and> push_run (2 ^ 7) 0 1 (map Put [0..<128]) w1 w2 \<and>
     pop_run (2 ^ 7) 0 2 [Give 127, Take, Give 0] w2 w3 \<and> map snd (wq_outs w3) = [127, 0]"
proof -
  have ends: "last [0..<128] = (127 :: nat)" "hd [0..<128] = (0 :: nat)" by (simp_all add: last_conv_nth hd_conv_nth del: upt_rec_numeral upt_Suc)
  have len: "length [0..<128] = 2 ^ 7" by (simp del: upt_rec_numeral)
  obtain w1 w2 w3 where w: "wq_reach (2 ^ 7) 0 w1" "push_run (2 ^ 7) 0 1 (map Put [0..<128]) w1 w2"
    "pop_run (2 ^ 7) 0 2 [Give 127, Take, Give 0] w2 w3" "map snd (wq_outs w3) = [127, 0]"
    using last_message_overtakes [OF _ _ _ len, of 0] unfolding ends by fastforce
  show ?thesis by (rule exI [of _ w1], rule exI [of _ w2], rule exI [of _ w3]) (intro conjI w)
qed

end
