(* ===== verification/Locks.thy ===== *)
theory Locks
  imports Queue_Index
begin

text \<open>
  The locks of \<^verbatim>\<open>include/Atomic_queue/spinlock.h\<close> and the barrier of \<^verbatim>\<open>barrier.h\<close>, one atomic
  access per step, any interleaving of the threads \<open>0 .. N - 1\<close>. Counters are 32-bit words, as
  in the source, so \<open>N < 2 ^ 32\<close> is what keeps a ticket from being handed out twice. The accesses
  are sequentially consistent.
\<close>

subsection \<open>The contract of a mutex\<close>

text \<open>
  \<^verbatim>\<open>M::scoped_lock\<close> as its clients use it: \<open>lstep t\<close> are the steps a thread takes inside
  \<^verbatim>\<open>lock\<close> and \<^verbatim>\<open>unlock\<close>, \<open>inside\<close> tells who is between the two.
\<close>

locale mutex =
  fixes lstart :: 's
    and lstep :: "nat \<Rightarrow> 's \<Rightarrow> 's \<Rightarrow> bool"
    and inside :: "'s \<Rightarrow> nat \<Rightarrow> bool"
    and linv :: "'s \<Rightarrow> bool"
  assumes start_inv: "linv lstart"
    and step_inv: "linv s \<Longrightarrow> lstep t s s' \<Longrightarrow> linv s'"
    and start_out: "\<not> inside lstart t"
    and exclusive: "linv s \<Longrightarrow> inside s t \<Longrightarrow> inside s u \<Longrightarrow> t = u"
    and local_step: "lstep t s s' \<Longrightarrow> u \<noteq> t \<Longrightarrow> inside s' u = inside s u"
    and leaves: "lstep t s s' \<Longrightarrow> inside s t \<Longrightarrow> \<not> inside s' t"

subsection \<open>TicketSpinlock\<close>

text \<open>Where a thread is: outside, waiting with its ticket, or holding a \<^verbatim>\<open>LockGuard\<close> with it.\<close>

datatype ticket_pc = Ticket_out | Ticket_wait u32 | Ticket_guard u32

record ticket_lock =
  tl_ticket :: u32
  tl_next :: u32
  tl_pc :: "nat \<Rightarrow> ticket_pc"

definition TicketSpinlock :: ticket_lock where
  "TicketSpinlock = \<lparr>tl_ticket = 0, tl_next = 0, tl_pc = (\<lambda>_. Ticket_out)\<rparr>"

definition unlock_ticket :: "u32 \<Rightarrow> ticket_lock \<Rightarrow> ticket_lock" where
  "unlock_ticket ticket s = s\<lparr>tl_next := ticket + 1\<rparr>"

definition unlock_plain :: "ticket_lock \<Rightarrow> ticket_lock" where
  "unlock_plain s = unlock_ticket (tl_next s + 1) s"

definition ticket_at :: "nat \<Rightarrow> ticket_pc \<Rightarrow> ticket_lock \<Rightarrow> ticket_lock" where
  "ticket_at t p s = s\<lparr>tl_pc := (tl_pc s)(t := p)\<rparr>"

text \<open>
  \<^verbatim>\<open>lock\<close> takes a ticket and waits until its position is zero (the pauses in between change
  nothing); the destructor of the guard calls \<^verbatim>\<open>unlock(ticket)\<close>.
\<close>

inductive ticket_step :: "nat \<Rightarrow> nat \<Rightarrow> ticket_lock \<Rightarrow> ticket_lock \<Rightarrow> bool" for N t where
  ticket_take: "t < N \<Longrightarrow> tl_pc s t = Ticket_out \<Longrightarrow>
    ticket_step N t s (ticket_at t (Ticket_wait (tl_ticket s)) (s\<lparr>tl_ticket := tl_ticket s + 1\<rparr>))"
| ticket_spin: "tl_pc s t = Ticket_wait k \<Longrightarrow> k - tl_next s \<noteq> 0 \<Longrightarrow> ticket_step N t s s"
| ticket_enter: "tl_pc s t = Ticket_wait k \<Longrightarrow> k - tl_next s = 0 \<Longrightarrow>
    ticket_step N t s (ticket_at t (Ticket_guard k) s)"
| ticket_leave: "tl_pc s t = Ticket_guard k \<Longrightarrow>
    ticket_step N t s (ticket_at t Ticket_out (unlock_ticket k s))"

inductive_cases ticket_stepE: "ticket_step N t s s'"

lemma ticket_at_simps [simp]:
  "tl_ticket (ticket_at t p s) = tl_ticket s" "tl_next (ticket_at t p s) = tl_next s"
  "tl_pc (ticket_at t p s) = (tl_pc s)(t := p)"
  "tl_ticket (unlock_ticket k s) = tl_ticket s" "tl_next (unlock_ticket k s) = k + 1"
  "tl_pc (unlock_ticket k s) = tl_pc s"
  by (simp_all add: ticket_at_def unlock_ticket_def)

text \<open>
  The specification: a queue of threads, first come first served, whose head may hold the lock.
\<close>

record fifo_lock =
  fl_queue :: "nat list"
  fl_held :: bool

inductive fifo_step :: "nat \<Rightarrow> fifo_lock \<Rightarrow> fifo_lock \<Rightarrow> bool" for t where
  fifo_join: "t \<notin> set (fl_queue a) \<Longrightarrow> fifo_step t a (a\<lparr>fl_queue := fl_queue a @ [t]\<rparr>)"
| fifo_wait: "t \<in> set (fl_queue a) \<Longrightarrow> t \<noteq> hd (fl_queue a) \<Longrightarrow> fifo_step t a a"
| fifo_enter: "fl_queue a = t # ts \<Longrightarrow> \<not> fl_held a \<Longrightarrow> fifo_step t a (a\<lparr>fl_held := True\<rparr>)"
| fifo_leave: "fl_queue a = t # ts \<Longrightarrow> fl_held a \<Longrightarrow> fifo_step t a \<lparr>fl_queue = ts, fl_held = False\<rparr>"

text \<open>
  The thread at position \<open>i\<close> of the queue has ticket \<open>next + i\<close>, the next ticket to hand out is
  behind them all, and everybody else is outside.
\<close>

definition ticket_sim :: "nat \<Rightarrow> ticket_lock \<Rightarrow> fifo_lock \<Rightarrow> bool" where
  "ticket_sim N s a \<longleftrightarrow> distinct (fl_queue a) \<and> set (fl_queue a) \<subseteq> {..<N} \<and>
     tl_ticket s = tl_next s + of_nat (length (fl_queue a)) \<and> (fl_held a \<longrightarrow> fl_queue a \<noteq> []) \<and>
     (\<forall>i < length (fl_queue a). tl_pc s (fl_queue a ! i) =
        (if i = 0 \<and> fl_held a then Ticket_guard (tl_next s) else Ticket_wait (tl_next s + of_nat i))) \<and>
     (\<forall>t. t \<notin> set (fl_queue a) \<longrightarrow> tl_pc s t = Ticket_out)"

lemma sim_length: "ticket_sim N s a \<Longrightarrow> length (fl_queue a) \<le> N"
  using card_mono [of "{..<N}" "set (fl_queue a)"] by (simp add: ticket_sim_def distinct_card)

lemma sim_position:
  assumes "ticket_sim N s a" "tl_pc s t \<noteq> Ticket_out"
  shows "\<exists>i < length (fl_queue a). fl_queue a ! i = t"
  using assms by (metis in_set_conv_nth ticket_sim_def)

lemma sim_start: "ticket_sim N TicketSpinlock \<lparr>fl_queue = [], fl_held = False\<rparr>"
  by (simp add: ticket_sim_def TicketSpinlock_def)

lemma small_word_zero: "n < 2 ^ 32 \<Longrightarrow> (of_nat n :: u32) = 0 \<longleftrightarrow> n = 0"
  using unat_of_nat [of n, where 'a = 32] by (auto simp: word_unat_eq_iff take_bit_eq_mod)

lemma sim_take:
  assumes "ticket_sim N s a" "t < N" "tl_pc s t = Ticket_out"
  shows "ticket_sim N (ticket_at t (Ticket_wait (tl_ticket s)) (s\<lparr>tl_ticket := tl_ticket s + 1\<rparr>))
      (a\<lparr>fl_queue := fl_queue a @ [t]\<rparr>) \<and> t \<notin> set (fl_queue a)"
proof -
  have "t \<notin> set (fl_queue a)"
    using assms(1,3) by (auto simp: ticket_sim_def in_set_conv_nth split: if_splits)
  moreover have "fl_queue a ! i \<noteq> t" if "i < length (fl_queue a)" for i using calculation that nth_mem by blast
  ultimately show ?thesis
    using assms by (auto simp: ticket_sim_def nth_append less_Suc_eq)
qed

lemma sim_enter:
  assumes sim: "ticket_sim N s a" and N: "N < 2 ^ 32" and k: "tl_pc s t = Ticket_wait k"
  shows "if k - tl_next s = 0 then \<exists>ts. fl_queue a = t # ts \<and> \<not> fl_held a
     else t \<in> set (fl_queue a) \<and> t \<noteq> hd (fl_queue a)"
proof -
  obtain i where i: "i < length (fl_queue a)" "fl_queue a ! i = t" using sim_position [OF sim, of t] k by auto
  then have ki: "k = tl_next s + of_nat i" "\<not> (i = 0 \<and> fl_held a)"
    using sim k by (auto simp: ticket_sim_def split: if_splits)
  have "i < 2 ^ 32" using i sim_length [OF sim] N by linarith
  then have "k - tl_next s = 0 \<longleftrightarrow> i = 0" by (simp add: ki small_word_zero)
  moreover have "\<exists>ts. fl_queue a = t # ts" if "i = 0" using i that by (cases "fl_queue a") auto
  moreover have "t \<noteq> hd (fl_queue a)" if "0 < i"
  proof -
    have "hd (fl_queue a) = fl_queue a ! 0" using i(1) by (intro hd_conv_nth) auto
    moreover have "distinct (fl_queue a)" using sim by (simp add: ticket_sim_def)
    moreover have "0 < length (fl_queue a)" using i(1) by linarith
    ultimately show ?thesis using i that by (metis less_irrefl nth_eq_iff_index_eq)
  qed
  ultimately show ?thesis using i ki(2) by auto
qed

lemma sim_holder:
  assumes sim: "ticket_sim N s a" and k: "tl_pc s t = Ticket_guard k"
  shows "\<exists>ts. fl_queue a = t # ts \<and> fl_held a \<and> k = tl_next s"
proof -
  obtain i where i: "i < length (fl_queue a)" "fl_queue a ! i = t" using sim_position [OF sim, of t] k by auto
  then have "i = 0 \<and> fl_held a \<and> k = tl_next s" using sim k by (auto simp: ticket_sim_def split: if_splits)
  with i show ?thesis by (cases "fl_queue a") auto
qed

lemma sim_leave:
  assumes sim: "ticket_sim N s a" and a: "fl_queue a = t # ts" "fl_held a"
  shows "ticket_sim N (ticket_at t Ticket_out (unlock_ticket (tl_next s) s)) \<lparr>fl_queue = ts, fl_held = False\<rparr>"
proof -
  have "tl_pc s (ts ! i) = Ticket_wait (tl_next s + of_nat (Suc i))" if "i < length ts" for i
    using sim a that by (fastforce simp: ticket_sim_def)
  moreover have "ts ! i \<noteq> t" if "i < length ts" for i using sim a that nth_mem by (fastforce simp: ticket_sim_def)
  ultimately show ?thesis
    using sim a by (auto simp: ticket_sim_def add.assoc)
qed

lemma sim_enter_step:
  assumes "ticket_sim N s a" "fl_queue a = t # ts" "\<not> fl_held a" "tl_pc s t = Ticket_wait (tl_next s)"
  shows "ticket_sim N (ticket_at t (Ticket_guard (tl_next s)) s) (a\<lparr>fl_held := True\<rparr>)"
  using assms by (auto simp: ticket_sim_def nth_Cons split: nat.splits if_splits)

lemma ticket_simulates:
  assumes sim: "ticket_sim N s a" and N: "N < 2 ^ 32" and step: "ticket_step N t s s'"
  shows "\<exists>a'. fifo_step t a a' \<and> ticket_sim N s' a'"
  using step
proof cases
  case ticket_take
  then show ?thesis using sim_take [OF sim] fifo_join by blast
next
  case (ticket_spin k)
  then show ?thesis using sim_enter [OF sim N] sim fifo_wait by (auto intro: exI [of _ a])
next
  case (ticket_enter k)
  then have k: "k = tl_next s" "tl_pc s t = Ticket_wait (tl_next s)" by simp_all
  with sim_enter [OF sim N, of t k] obtain ts where "fl_queue a = t # ts" "\<not> fl_held a" by auto
  with ticket_enter(1) k sim_enter_step [OF sim] fifo_enter show ?thesis by blast
next
  case (ticket_leave k)
  with sim_holder [OF sim, of t k] obtain ts where "fl_queue a = t # ts" "fl_held a" "k = tl_next s" by blast
  with ticket_leave(1) sim_leave [OF sim] fifo_leave show ?thesis by blast
qed

definition ticket_ok :: "nat \<Rightarrow> ticket_lock \<Rightarrow> bool" where
  "ticket_ok N s \<longleftrightarrow> (\<exists>a. ticket_sim N s a)"

definition ticket_inside :: "ticket_lock \<Rightarrow> nat \<Rightarrow> bool" where
  "ticket_inside s t \<longleftrightarrow> (case tl_pc s t of Ticket_guard k \<Rightarrow> True | _ \<Rightarrow> False)"

lemma ticket_inside_iff: "ticket_inside s t \<longleftrightarrow> (\<exists>k. tl_pc s t = Ticket_guard k)"
  by (simp add: ticket_inside_def split: ticket_pc.splits)

lemma ticket_mutex: "N < 2 ^ 32 \<Longrightarrow> mutex TicketSpinlock (ticket_step N) ticket_inside (ticket_ok N)"
proof (unfold_locales, goal_cases)
  case 1 then show ?case unfolding ticket_ok_def using sim_start by blast
next
  case (2 s t s') then show ?case unfolding ticket_ok_def using ticket_simulates by blast
next
  case (3 t) then show ?case by (simp add: ticket_inside_iff TicketSpinlock_def)
next
  case (4 s t u)
  then obtain a k l where "ticket_sim N s a" "tl_pc s t = Ticket_guard k" "tl_pc s u = Ticket_guard l"
    by (auto simp: ticket_ok_def ticket_inside_iff)
  with sim_holder [of N s a] show ?case by (metis list.inject)
next
  case (5 t s s' u) then show ?case by (auto simp: ticket_inside_iff elim!: ticket_stepE)
next
  case (6 t s s') then show ?case by (auto simp: ticket_inside_iff elim!: ticket_stepE)
qed

text \<open>For as many threads as the tickets can tell apart.\<close>

interpretation tl: mutex TicketSpinlock "ticket_step (2 ^ 32 - 1)" ticket_inside "ticket_ok (2 ^ 32 - 1)"
  by (rule ticket_mutex) simp

subsection \<open>UnfairSpinlock\<close>

text \<open>A thread is outside, has seen the word at zero and is about to exchange it, or is inside.\<close>

datatype unfair_pc = Unfair_out | Unfair_load | Unfair_exchange | Unfair_in

record unfair_lock =
  ul_lock :: u32
  ul_pc :: "nat \<Rightarrow> unfair_pc"

definition UnfairSpinlock :: unfair_lock where
  "UnfairSpinlock = \<lparr>ul_lock = 0, ul_pc = (\<lambda>_. Unfair_out)\<rparr>"

definition unfair_at :: "nat \<Rightarrow> unfair_pc \<Rightarrow> unfair_lock \<Rightarrow> unfair_lock" where
  "unfair_at t p s = s\<lparr>ul_pc := (ul_pc s)(t := p)\<rparr>"

inductive unfair_step :: "nat \<Rightarrow> unfair_lock \<Rightarrow> unfair_lock \<Rightarrow> bool" for t where
  unfair_call: "ul_pc s t = Unfair_out \<Longrightarrow> unfair_step t s (unfair_at t Unfair_load s)"
| unfair_pause: "ul_pc s t = Unfair_load \<Longrightarrow> ul_lock s \<noteq> 0 \<Longrightarrow> unfair_step t s s"
| unfair_free: "ul_pc s t = Unfair_load \<Longrightarrow> ul_lock s = 0 \<Longrightarrow> unfair_step t s (unfair_at t Unfair_exchange s)"
| unfair_lost: "ul_pc s t = Unfair_exchange \<Longrightarrow> ul_lock s \<noteq> 0 \<Longrightarrow>
    unfair_step t s (unfair_at t Unfair_load (s\<lparr>ul_lock := 1\<rparr>))"
| unfair_won: "ul_pc s t = Unfair_exchange \<Longrightarrow> ul_lock s = 0 \<Longrightarrow>
    unfair_step t s (unfair_at t Unfair_in (s\<lparr>ul_lock := 1\<rparr>))"
| unfair_unlock: "ul_pc s t = Unfair_in \<Longrightarrow> unfair_step t s (unfair_at t Unfair_out (s\<lparr>ul_lock := 0\<rparr>))"

inductive_cases unfair_stepE: "unfair_step t s s'"

lemma unfair_at_simps [simp]: "ul_lock (unfair_at t p s) = ul_lock s" "ul_pc (unfair_at t p s) = (ul_pc s)(t := p)"
  by (simp_all add: unfair_at_def)

definition unfair_inside :: "unfair_lock \<Rightarrow> nat \<Rightarrow> bool" where
  "unfair_inside s t \<longleftrightarrow> ul_pc s t = Unfair_in"

definition unfair_ok :: "unfair_lock \<Rightarrow> bool" where
  "unfair_ok s \<longleftrightarrow> (\<forall>t u. unfair_inside s t \<longrightarrow> unfair_inside s u \<longrightarrow> t = u) \<and>
     (\<forall>t. unfair_inside s t \<longrightarrow> ul_lock s \<noteq> 0)"

interpretation ul: mutex UnfairSpinlock unfair_step unfair_inside unfair_ok
proof (unfold_locales, goal_cases)
  case (2 s t s')
  then show ?case by (elim unfair_stepE) (auto simp: unfair_ok_def unfair_inside_def)
next
  case (5 t s s' u)
  then show ?case by (auto simp: unfair_inside_def elim!: unfair_stepE)
next
  case (6 t s s')
  then show ?case by (auto simp: unfair_inside_def elim!: unfair_stepE)
qed (auto simp: unfair_ok_def unfair_inside_def UnfairSpinlock_def)

subsection \<open>Spinlock\<close>

text \<open>
  The wrapper around the POSIX spin lock: the three calls are parameters, which return an error
  number and the new lock; any error aborts the program (\<open>None\<close>).
\<close>

record 'l spin_api =
  pthread_spin_init :: "'l \<Rightarrow> int \<times> 'l"
  pthread_spin_lock :: "'l \<Rightarrow> int \<times> 'l"
  pthread_spin_unlock :: "'l \<Rightarrow> int \<times> 'l"
  pthread_spin_destroy :: "'l \<Rightarrow> int \<times> 'l"

definition abort_on_error :: "int \<times> 'l \<Rightarrow> 'l option" where
  "abort_on_error r = (if fst r \<noteq> 0 then None else Some (snd r))"

definition Spinlock_new :: "'l spin_api \<Rightarrow> 'l \<Rightarrow> 'l option" where
  "Spinlock_new P s = abort_on_error (pthread_spin_init P s)"

definition Spinlock_destroy :: "'l spin_api \<Rightarrow> 'l \<Rightarrow> 'l" where
  "Spinlock_destroy P s = snd (pthread_spin_destroy P s)"

definition Spinlock_lock :: "'l spin_api \<Rightarrow> 'l \<Rightarrow> 'l option" where
  "Spinlock_lock P s = abort_on_error (pthread_spin_lock P s)"

definition Spinlock_unlock :: "'l spin_api \<Rightarrow> 'l \<Rightarrow> 'l option" where
  "Spinlock_unlock P s = abort_on_error (pthread_spin_unlock P s)"

subsection \<open>Barrier\<close>

datatype barrier_pc = Barrier_out | Barrier_spin | Barrier_passed

datatype release_pc = Release_load | Release_store | Release_done

record barrier =
  counter :: u32
  wait_pc :: "nat \<Rightarrow> barrier_pc"
  release_pc :: release_pc

definition Barrier_new :: barrier where
  "Barrier_new = \<lparr>counter = 0, wait_pc = (\<lambda>_. Barrier_out), release_pc = Release_load\<rparr>"

text \<open>\<^verbatim>\<open>wait\<close> by each of the threads below \<open>N\<close>, once, and \<^verbatim>\<open>release(expected)\<close> by one more thread.\<close>

inductive barrier_step :: "nat \<Rightarrow> u32 \<Rightarrow> barrier \<Rightarrow> barrier \<Rightarrow> bool" for N expected where
  wait_arrive: "t < N \<Longrightarrow> wait_pc s t = Barrier_out \<Longrightarrow> barrier_step N expected s
    (s\<lparr>counter := counter s + 1, wait_pc := (wait_pc s)(t := Barrier_spin)\<rparr>)"
| wait_pause: "wait_pc s t = Barrier_spin \<Longrightarrow> counter s \<noteq> 0 \<Longrightarrow> barrier_step N expected s s"
| wait_pass: "wait_pc s t = Barrier_spin \<Longrightarrow> counter s = 0 \<Longrightarrow>
    barrier_step N expected s (s\<lparr>wait_pc := (wait_pc s)(t := Barrier_passed)\<rparr>)"
| release_pause: "release_pc s = Release_load \<Longrightarrow> counter s \<noteq> expected \<Longrightarrow> barrier_step N expected s s"
| release_seen: "release_pc s = Release_load \<Longrightarrow> counter s = expected \<Longrightarrow>
    barrier_step N expected s (s\<lparr>release_pc := Release_store\<rparr>)"
| release_clear: "release_pc s = Release_store \<Longrightarrow>
    barrier_step N expected s (s\<lparr>counter := 0, release_pc := Release_done\<rparr>)"

inductive barrier_reach :: "nat \<Rightarrow> u32 \<Rightarrow> barrier \<Rightarrow> bool" for N expected where
  barrier_begin: "barrier_reach N expected Barrier_new"
| barrier_next: "barrier_reach N expected s \<Longrightarrow> barrier_step N expected s s' \<Longrightarrow> barrier_reach N expected s'"

definition arrived :: "nat \<Rightarrow> barrier \<Rightarrow> nat set" where
  "arrived N s = {t. t < N \<and> wait_pc s t \<noteq> Barrier_out}"

text \<open>
  Until the counter is cleared it counts the threads that have arrived, none of which has passed.
\<close>

definition barrier_ok :: "nat \<Rightarrow> u32 \<Rightarrow> barrier \<Rightarrow> bool" where
  "barrier_ok N expected s \<longleftrightarrow>
     (release_pc s \<noteq> Release_done \<longrightarrow> counter s = of_nat (card (arrived N s)) \<and> (\<forall>t. wait_pc s t \<noteq> Barrier_passed)) \<and>
     (release_pc s \<noteq> Release_load \<longrightarrow> unat expected \<le> card (arrived N s)) \<and> (\<forall>t. N \<le> t \<longrightarrow> wait_pc s t = Barrier_out)"

lemma arrived_finite [simp]: "finite (arrived N s)"
  by (simp add: arrived_def)

lemma arrived_bound: "card (arrived N s) \<le> N"
  using card_mono [of "{..<N}" "arrived N s"] by (auto simp: arrived_def)

lemma arrived_more:
  assumes "t < N" "wait_pc s t = Barrier_out"
  shows "card (arrived N (s\<lparr>counter := c, wait_pc := (wait_pc s)(t := Barrier_spin)\<rparr>)) = Suc (card (arrived N s))"
proof -
  have "arrived N (s\<lparr>counter := c, wait_pc := (wait_pc s)(t := Barrier_spin)\<rparr>) = insert t (arrived N s)"
    using assms(1) by (auto simp: arrived_def)
  moreover have "t \<notin> arrived N s" using assms(2) by (simp add: arrived_def)
  ultimately show ?thesis by simp
qed

lemma barrier_keeps_ok:
  assumes "barrier_step N expected s s'" "barrier_ok N expected s" "N < 2 ^ 32"
  shows "barrier_ok N expected s'"
  using assms(1)
proof cases
  case (wait_arrive t)
  with assms(2) arrived_more [of t N s "counter s + 1"] show ?thesis by (auto simp: barrier_ok_def)
next
  case (wait_pass t)
  have "arrived N s' = arrived N s" using wait_pass by (auto simp: arrived_def)
  moreover have "release_pc s = Release_done"
  proof (rule ccontr)
    assume a: "release_pc s \<noteq> Release_done"
    then have "(of_nat (card (arrived N s)) :: u32) = 0" using assms(2) wait_pass by (simp add: barrier_ok_def)
    moreover have "card (arrived N s) < 2 ^ 32" using arrived_bound [of N s] assms(3) by linarith
    ultimately have "arrived N s = {}" by (simp add: small_word_zero)
    moreover have "t \<in> arrived N s" using wait_pass assms(2) by (auto simp: arrived_def barrier_ok_def not_less [symmetric])
    ultimately show False by simp
  qed
  moreover have "t < N" using wait_pass assms(2) by (auto simp: barrier_ok_def not_le [symmetric])
  ultimately show ?thesis using wait_pass assms(2) by (auto simp: barrier_ok_def)
next
  case release_seen
  have "arrived N s' = arrived N s" using release_seen by (auto simp: arrived_def)
  moreover have "unat (of_nat (card (arrived N s)) :: u32) = card (arrived N s)"
    using arrived_bound [of N s] assms(3) by (simp add: unat_of_nat take_bit_nat_eq_self)
  ultimately show ?thesis using release_seen assms(2) by (auto simp: barrier_ok_def)
next
  case release_clear
  have "arrived N s' = arrived N s" using release_clear by (auto simp: arrived_def)
  then show ?thesis using release_clear assms(2) by (auto simp: barrier_ok_def)
qed (use assms(2) in simp_all)

lemma barrier_reach_ok:
  assumes "barrier_reach N expected s" "N < 2 ^ 32"
  shows "barrier_ok N expected s"
  using assms(1)
proof induction
  case barrier_begin
  show ?case by (simp add: barrier_ok_def Barrier_new_def arrived_def)
next
  case (barrier_next s s')
  show ?case using barrier_next(2,3) assms(2) by (rule barrier_keeps_ok)
qed

subsection \<open>Properties of the locks\<close>

text \<open>C20: the ticket lock is a first-come-first-served lock. With fewer than \<open>2 ^ 32\<close> threads every
  step of a thread in \<open>lock\<close> or \<open>unlock(ticket)\<close>, wrap-around of the tickets included, is a step of
  a queue of threads whose head alone may hold the lock, and the thread inside is always that
  head.\<close>

theorem ticket_lock_refines_fifo:
  assumes "N < 2 ^ 32"
  shows "ticket_sim N TicketSpinlock \<lparr>fl_queue = [], fl_held = False\<rparr> \<and>
    (\<forall>s a t s'. ticket_sim N s a \<longrightarrow> ticket_step N t s s' \<longrightarrow> (\<exists>a'. fifo_step t a a' \<and> ticket_sim N s' a')) \<and>
    (\<forall>s a t. ticket_sim N s a \<longrightarrow> ticket_inside s t \<longrightarrow> fl_held a \<and> hd (fl_queue a) = t)"
proof (intro conjI allI impI)
  show "ticket_sim N TicketSpinlock \<lparr>fl_queue = [], fl_held = False\<rparr>" by (rule sim_start)
  show "\<exists>a'. fifo_step t a a' \<and> ticket_sim N s' a'" if "ticket_sim N s a" "ticket_step N t s s'" for s a t s'
    using ticket_simulates [OF that(1) assms that(2)] .
  show "fl_held a" "hd (fl_queue a) = t" if "ticket_sim N s a" "ticket_inside s t" for s a t
    using that sim_holder [OF that(1), of t] by (auto simp: ticket_inside_iff)
qed

theorem ticket_lock_refines_fifo_witness:
  "ticket_sim 2 TicketSpinlock \<lparr>fl_queue = [], fl_held = False\<rparr> \<and>
   (\<exists>a'. fifo_step 1 \<lparr>fl_queue = [], fl_held = False\<rparr> a' \<and>
      ticket_sim 2 (ticket_at 1 (Ticket_wait 0) (TicketSpinlock\<lparr>tl_ticket := 1\<rparr>)) a')"
proof -
  have "ticket_step 2 1 TicketSpinlock (ticket_at 1 (Ticket_wait 0) (TicketSpinlock\<lparr>tl_ticket := 1\<rparr>))"
    using ticket_take [of 1 2 TicketSpinlock] by (simp add: TicketSpinlock_def)
  with ticket_lock_refines_fifo [of 2] show ?thesis by fastforce
qed

text \<open>The holder that releases with its ticket lets in exactly the thread behind it; the
  overload without argument stores \<open>next + 2\<close> instead, so that this thread waits on while the one
  behind it, if there is one, is let in.\<close>

theorem unlock_overloads_differ:
  assumes "ticket_sim N s a" and "fl_queue a = t # u # ts" and "fl_held a"
  shows "(\<exists>s'. ticket_step N u (ticket_at t Ticket_out (unlock_ticket (tl_next s) s)) s' \<and> ticket_inside s' u) \<and>
    (\<forall>s'. ticket_step N u (ticket_at t Ticket_out (unlock_plain s)) s' \<longrightarrow> s' = ticket_at t Ticket_out (unlock_plain s)) \<and>
    (\<forall>v vs. ts = v # vs \<longrightarrow> (\<exists>s'. ticket_step N v (ticket_at t Ticket_out (unlock_plain s)) s' \<and> ticket_inside s' v))"
proof -
  have pcs: "\<forall>i < length (fl_queue a). tl_pc s (fl_queue a ! i) =
      (if i = 0 \<and> fl_held a then Ticket_guard (tl_next s) else Ticket_wait (tl_next s + of_nat i))"
    using assms(1) by (simp add: ticket_sim_def)
  have d: "u \<noteq> t" "\<And>v. v \<in> set ts \<Longrightarrow> v \<noteq> t" using assms(1,2) by (auto simp: ticket_sim_def)
  have u: "tl_pc s u = Ticket_wait (tl_next s + 1)" using pcs [rule_format, of 1] assms(2) by simp
  let ?T = "ticket_at t Ticket_out (unlock_ticket (tl_next s) s)" and ?P = "ticket_at t Ticket_out (unlock_plain s)"
  have "ticket_step N u ?T (ticket_at u (Ticket_guard (tl_next s + 1)) ?T)" using u d(1) by (intro ticket_enter) simp_all
  then have 1: "\<exists>s'. ticket_step N u ?T s' \<and> ticket_inside s' u" by (auto simp: ticket_inside_iff intro!: exI)
  have 2: "s' = ?P" if "ticket_step N u ?P s'" for s'
    using that u d(1) by (auto simp: unlock_plain_def elim!: ticket_stepE)
  have 3: "\<exists>s'. ticket_step N v ?P s' \<and> ticket_inside s' v" if "ts = v # vs" for v vs
  proof -
    have "tl_pc ?P v = Ticket_wait (tl_next s + 2)" using pcs [rule_format, of 2] assms(2) d(2) [of v] that by (simp add: unlock_plain_def)
    then have "ticket_step N v ?P (ticket_at v (Ticket_guard (tl_next s + 2)) ?P)"
      by (intro ticket_enter) (simp_all add: unlock_plain_def)
    then show ?thesis by (auto simp: ticket_inside_iff intro!: exI)
  qed
  from 1 2 3 show ?thesis by blast
qed

definition queued_lock :: ticket_lock where
  "queued_lock = \<lparr>tl_ticket = 2, tl_next = - 1, tl_pc = (\<lambda>_. Ticket_out)(0 := Ticket_guard (- 1), 1 := Ticket_wait 0, 2 := Ticket_wait 1)\<rparr>"

theorem unlock_overloads_differ_witness:
  "(\<exists>s'. ticket_step 3 1 (ticket_at 0 Ticket_out (unlock_ticket (- 1) queued_lock)) s' \<and> ticket_inside s' 1) \<and>
   (\<exists>s'. ticket_step 3 2 (ticket_at 0 Ticket_out (unlock_plain queued_lock)) s' \<and> ticket_inside s' 2)"
proof -
  have "ticket_sim 3 queued_lock \<lparr>fl_queue = [0, 1, 2], fl_held = True\<rparr>"
    by (auto simp: ticket_sim_def queued_lock_def less_Suc_eq numeral_3_eq_3)
  from unlock_overloads_differ [OF this, of 0 1 "[2]"] show ?thesis by (auto simp: queued_lock_def)
qed

text \<open>C31: nobody passes the barrier early. With fewer than \<open>2 ^ 32\<close> threads a thread leaves \<open>wait\<close>
  only after \<open>release\<close> has cleared the counter, and then at least the expected number of threads
  have arrived.\<close>

theorem barrier_holds_until_released:
  assumes "barrier_reach N expected s" and "N < 2 ^ 32" and "wait_pc s t = Barrier_passed"
  shows "release_pc s = Release_done \<and> unat expected \<le> card (arrived N s)"
  using barrier_reach_ok [OF assms(1,2)] assms(3) by (auto simp: barrier_ok_def)

theorem barrier_holds_until_released_witness:
  "\<exists>s. barrier_reach 1 1 s \<and> wait_pc s 0 = Barrier_passed \<and> release_pc s = Release_done \<and> unat (1 :: u32) \<le> card (arrived 1 s)"
proof -
  define s1 where "s1 = Barrier_new\<lparr>counter := 1, wait_pc := (\<lambda>_. Barrier_out)(0 := Barrier_spin)\<rparr>"
  define s2 where "s2 = s1\<lparr>release_pc := Release_store\<rparr>"
  define s3 where "s3 = s2\<lparr>counter := 0, release_pc := Release_done\<rparr>"
  define s4 where "s4 = s3\<lparr>wait_pc := (wait_pc s3)(0 := Barrier_passed)\<rparr>"
  note defs = s1_def s2_def s3_def s4_def Barrier_new_def
  have "barrier_step 1 1 Barrier_new s1" using wait_arrive [of 0 1 Barrier_new 1] by (simp add: defs)
  moreover have "barrier_step 1 1 s1 s2" using release_seen [of s1 1 1] by (simp add: defs)
  moreover have "barrier_step 1 1 s2 s3" using release_clear [of s2 1 1] by (simp add: defs)
  moreover have "barrier_step 1 1 s3 s4" using wait_pass [of s3 0 1 1] by (simp add: defs)
  ultimately have r: "barrier_reach 1 1 s4" using barrier_begin barrier_next by metis
  have p: "wait_pc s4 0 = Barrier_passed" by (simp add: defs)
  from r p barrier_holds_until_released [OF r _ p] show ?thesis by auto
qed

end
