(* ===== verification/Mutex_Queue.thy ===== *)
theory Mutex_Queue
  imports Queue_Instances Locks
begin

text \<open>
  The queue with a mutex of \<^verbatim>\<open>include/Atomic_queue/atomic_queue_mutex.h\<close>: its operations as one
  critical section each, and their equivalence with the lock-free queue. The queue under
  concurrency, where threads interleave inside the lock and inside the sections, is the theory
  \<^verbatim>\<open>Locked_Queue\<close>.
\<close>

subsection \<open>The operations\<close>

record mutex_class =
  mx_size :: u32
  mx_index :: "u32 \<Rightarrow> nat"

definition AtomicQueueMutexT :: "nat \<Rightarrow> u32 \<Rightarrow> bool \<Rightarrow> mutex_class" where
  "AtomicQueueMutexT sizeof_T SIZE MINIMIZE_CONTENTION =
     (let size = (if MINIMIZE_CONTENTION then round_up_to_power_of_2 SIZE else SIZE);
          SHUFFLE_BITS = GetIndexShuffleBits MINIMIZE_CONTENTION size (CACHE_LINE_SIZE div sizeof_T)
      in \<lparr>mx_size = size, mx_index = (\<lambda>t. unat (remap_index SHUFFLE_BITS (t mod size)))\<rparr>)"

text \<open>The two halves of a critical section: the access to the slot and the count.\<close>

definition put_slot :: "mutex_class \<Rightarrow> 'a \<Rightarrow> 'a list queue_common \<Rightarrow> 'a list queue_common" where
  "put_slot K element q = q\<lparr>q_cells := (q_cells q)[mx_index K (q_head q) := element]\<rparr>"

definition take_slot :: "('a \<Rightarrow> 'a) \<Rightarrow> mutex_class \<Rightarrow> 'a list queue_common \<Rightarrow> 'a \<times> 'a list queue_common" where
  "take_slot moved_from K q = (let i = mx_index K (q_tail q); element = q_cells q ! i in
     (element, q\<lparr>q_cells := (q_cells q)[i := moved_from element]\<rparr>))"

definition mutex_try_push :: "mutex_class \<Rightarrow> 'a \<Rightarrow> 'a list queue_common \<Rightarrow> bool \<times> 'a list queue_common" where
  "mutex_try_push K element q =
     (if q_head q - q_tail q < mx_size K
      then (True, (put_slot K element q)\<lparr>q_head := q_head q + 1\<rparr>) else (False, q))"

definition mutex_try_pop :: "('a \<Rightarrow> 'a) \<Rightarrow> mutex_class \<Rightarrow> 'a list queue_common \<Rightarrow> 'a option \<times> 'a list queue_common" where
  "mutex_try_pop moved_from K q =
     (if q_head q \<noteq> q_tail q
      then (let (element, q') = take_slot moved_from K q in (Some element, q'\<lparr>q_tail := q_tail q + 1\<rparr>))
      else (None, q))"

definition mutex_was_empty :: "'a list queue_common \<Rightarrow> bool" where
  "mutex_was_empty q \<longleftrightarrow> as_int (q_head q - q_tail q) \<le> 0"

definition mutex_was_full :: "mutex_class \<Rightarrow> 'a list queue_common \<Rightarrow> bool" where
  "mutex_was_full K q \<longleftrightarrow> as_int (mx_size K) \<le> as_int (q_head q - q_tail q)"

definition mutex_queue_new :: "mutex_class \<Rightarrow> 'a \<Rightarrow> 'a list queue_common" where
  "mutex_queue_new K dflt = new_queue (replicate (unat (mx_size K)) dflt)"

subsection \<open>The contract\<close>

definition mutex_inv :: "nat \<Rightarrow> 'a list queue_common \<Rightarrow> bool" where
  "mutex_inv lg q \<longleftrightarrow> length (q_cells q) = 2 ^ lg \<and> ring_count q \<le> 2 ^ lg"

definition mutex_items :: "nat \<Rightarrow> nat \<Rightarrow> 'a list queue_common \<Rightarrow> 'a list" where
  "mutex_items lg b q = map (\<lambda>k. q_cells q ! slot_index b (ring_pos lg q k)) [0..<ring_count q]"

locale mutex_ring = ring_size lg for K :: mutex_class and b lg :: nat +
  assumes mx_size: "mx_size K = 2 ^ lg"
    and mx_index: "mx_index K t = slot_index b (unat t mod 2 ^ lg)"
    and shuffle: "2 * b \<le> lg"
begin

lemma pos_less: "ring_pos lg q k < 2 ^ lg"
  by (simp add: ring_pos_def)

lemma index_less: "slot_index b (ring_pos lg q k) < 2 ^ lg"
  using slot_index_less [OF lg_less shuffle pos_less] .

lemma index_eq: "i < 2 ^ lg \<Longrightarrow> j < 2 ^ lg \<Longrightarrow>
    slot_index b (ring_pos lg q i) = slot_index b (ring_pos lg q j) \<longleftrightarrow> i = j"
  using slot_index_inj [OF lg_less shuffle pos_less pos_less] pos_inj by metis

lemma room_iff: "q_head q - q_tail q < mx_size K \<longleftrightarrow> ring_count q < 2 ^ lg"
  using lg_less by (simp add: mx_size ring_count_def word_less_nat_alt unat_exp)

lemma filled_iff: "q_head q \<noteq> q_tail q \<longleftrightarrow> 0 < ring_count q"
  by (auto simp: ring_count_def unat_gt_0)

lemma mutex_observers:
  assumes "mutex_inv lg q"
  shows "mutex_was_empty q \<longleftrightarrow> mutex_items lg b q = []" "mutex_was_full K q \<longleftrightarrow> length (mutex_items lg b q) = 2 ^ lg"
proof -
  have n: "ring_count q \<le> 2 ^ lg" using assms by (simp add: mutex_inv_def)
  then have c: "as_int (q_head q - q_tail q) = int (ring_count q)" using pow_less by (simp add: ring_count_def as_int_small)
  have s: "as_int (mx_size K) = int (2 ^ lg)" using lg_less pow_less by (simp add: mx_size as_int_small unat_exp)
  show "mutex_was_empty q \<longleftrightarrow> mutex_items lg b q = []" by (auto simp: mutex_was_empty_def c mutex_items_def)
  show "mutex_was_full K q \<longleftrightarrow> length (mutex_items lg b q) = 2 ^ lg"
    unfolding mutex_was_full_def c s of_nat_le_iff mutex_items_def using n by auto
qed

lemma push_outcome:
  assumes "mutex_inv lg q" "ring_count q < 2 ^ lg"
  shows "\<exists>q'. mutex_try_push K x q = (True, q') \<and> mutex_inv lg q' \<and> mutex_items lg b q' = mutex_items lg b q @ [x]"
proof -
  let ?c = "(q_cells q)[slot_index b (ring_pos lg q (ring_count q)) := x]"
  have "mutex_try_push K x q = (True, q\<lparr>q_head := q_head q + 1, q_cells := ?c\<rparr>)"
    using assms(2) by (simp add: mutex_try_push_def room_iff put_slot_def mx_index head_slot)
  moreover have "mutex_inv lg (q\<lparr>q_head := q_head q + 1, q_cells := ?c\<rparr>)"
    using assms by (simp add: mutex_inv_def count_push)
  moreover have "mutex_items lg b (q\<lparr>q_head := q_head q + 1, q_cells := ?c\<rparr>) = mutex_items lg b q @ [x]"
    using assms by (auto simp: mutex_items_def count_push mutex_inv_def nth_list_update index_eq index_less)
  ultimately show ?thesis by blast
qed

lemma pop_outcome:
  assumes "mutex_inv lg q" "mutex_items lg b q = x # xs"
  shows "\<exists>q'. mutex_try_pop mv K q = (Some x, q') \<and> mutex_inv lg q' \<and> mutex_items lg b q' = xs"
proof -
  let ?c = "(q_cells q)[slot_index b (ring_pos lg q 0) := mv x]"
  have n: "0 < ring_count q" "ring_count q \<le> 2 ^ lg"
    using assms by (auto simp: mutex_items_def mutex_inv_def intro!: gr0I)
  then have list: "[0..<ring_count q] = 0 # map Suc [0..<ring_count q - 1]" by (simp add: upt_conv_Cons map_Suc_upt)
  then have x: "x = q_cells q ! slot_index b (ring_pos lg q 0)"
    and xs: "xs = map (\<lambda>k. q_cells q ! slot_index b (ring_pos lg q (Suc k))) [0..<ring_count q - 1]"
    using assms(2) by (simp_all add: mutex_items_def comp_def)
  have "mutex_try_pop mv K q = (Some x, q\<lparr>q_tail := q_tail q + 1, q_cells := ?c\<rparr>)"
    using n(1) by (simp add: mutex_try_pop_def filled_iff take_slot_def mx_index tail_slot Let_def x)
  moreover have "mutex_inv lg (q\<lparr>q_tail := q_tail q + 1, q_cells := ?c\<rparr>)"
    using assms(1) n by (simp add: mutex_inv_def count_pop)
  moreover have "mutex_items lg b (q\<lparr>q_tail := q_tail q + 1, q_cells := ?c\<rparr>) = xs"
    using n assms(1) by (auto simp: mutex_items_def count_pop pos_pop xs mutex_inv_def nth_list_update index_eq index_less)
  ultimately show ?thesis by blast
qed

end

sublocale mutex_ring \<subseteq> mtsq: thread_safe_queue "\<lambda>x q. Some (mutex_try_push K x q)" "\<lambda>q. Some (mutex_try_pop mv K q)"
  "mutex_inv lg" "mutex_items lg b" "2 ^ lg" "\<lambda>_. True" for mv
proof (unfold_locales, goal_cases)
  case (1 q x) then show ?case using push_outcome by (auto simp: mutex_items_def)
next
  case (2 q x) then show ?case by (simp add: mutex_try_push_def room_iff mutex_items_def)
next
  case (3 q x xs) then show ?case using pop_outcome by auto
next
  case (4 q) then show ?case using filled_iff [of q] by (simp add: mutex_try_pop_def mutex_items_def)
next
  case (5 q) then show ?case by (simp add: mutex_inv_def mutex_items_def)
qed

subsection \<open>A mutex queue of 128 elements\<close>

definition mutex_bits :: "nat \<Rightarrow> nat" where
  "mutex_bits sizeof_T = GetIndexShuffleBits True (2 ^ 7) (CACHE_LINE_SIZE div sizeof_T)"

interpretation ring128: ring_size 7
  by unfold_locales simp

interpretation smq: mutex_ring "AtomicQueueMutexT sizeof_T 128 True" "mutex_bits sizeof_T" 7 for sizeof_T
proof (unfold_locales, goal_cases)
  case 1 show ?case by (simp add: AtomicQueueMutexT_def Let_def round_up_128 [simplified])
next
  case (2 t)
  have "(2 :: u32) ^ 7 = 128" by simp
  then show ?case using mod_slot_index [of 7 "mutex_bits sizeof_T" t]
    by (simp add: AtomicQueueMutexT_def Let_def round_up_128 [simplified] mutex_bits_def)
next
  case 3 show ?case using shuffle_bits_le [of 7 True "CACHE_LINE_SIZE div sizeof_T"] by (simp add: mutex_bits_def)
qed

text \<open>C18: the queue with a mutex and the lock-free queue are interchangeable. Started with the same
  elements, both return the same answers to every sequence of \<open>try_push\<close> and \<open>try_pop\<close> calls, end
  with the same elements, and agree on \<open>was_empty\<close> and \<open>was_full\<close>.\<close>

theorem mutex_queue_equals_lock_free:
  assumes "string_queue_inv q" and "mutex_inv 7 m" and "mutex_items 7 (mutex_bits sz) m = string_queue_items q"
  shows "\<exists>as q' m'. impl_run (try_push (AtomicQueueString mv)) (try_pop (AtomicQueueString mv)) ops q = Some (as, q') \<and>
    impl_run (\<lambda>x q. Some (mutex_try_push (AtomicQueueMutexT sz 128 True) x q))
      (\<lambda>q. Some (mutex_try_pop mv (AtomicQueueMutexT sz 128 True) q)) ops m = Some (as, m') \<and>
    mutex_items 7 (mutex_bits sz) m' = string_queue_items q' \<and> (mutex_was_empty m' \<longleftrightarrow> was_empty q') \<and>
    (mutex_was_full (AtomicQueueMutexT sz 128 True) m' \<longleftrightarrow> was_full (AtomicQueueString mv) q')"
proof -
  obtain as q' where q': "impl_run (try_push (AtomicQueueString mv)) (try_pop (AtomicQueueString mv)) ops q = Some (as, q')"
    "string_queue_inv q'" "spec_run 128 ops (string_queue_items q) = (as, string_queue_items q')"
    using strq.run_refines [OF assms(1), of ops mv] by auto
  obtain as' m' where m': "impl_run (\<lambda>x q. Some (mutex_try_push (AtomicQueueMutexT sz 128 True) x q))
      (\<lambda>q. Some (mutex_try_pop mv (AtomicQueueMutexT sz 128 True) q)) ops m = Some (as', m')"
    "mutex_inv 7 m'" "spec_run 128 ops (string_queue_items q) = (as', mutex_items 7 (mutex_bits sz) m')"
    using smq.mtsq.run_refines [OF assms(2), of ops sz mv] assms(3) by auto
  with q' have "as' = as" "mutex_items 7 (mutex_bits sz) m' = string_queue_items q'" by simp_all
  with q' m' smq.mutex_observers [OF m'(2), of sz] sq.observers [OF q'(2) [unfolded string_queue_inv_def]]
  show ?thesis by (simp add: string_queue_items_def)
qed

lemma mutex_queue_new_ok:
  "mutex_inv 7 (mutex_queue_new (AtomicQueueMutexT sz 128 True) d)" "mutex_items 7 b (mutex_queue_new K d) = []"
  using round_up_128
  by (simp_all add: mutex_queue_new_def new_queue_def mutex_inv_def mutex_items_def ring_count_def AtomicQueueMutexT_def Let_def)

theorem mutex_queue_equals_lock_free_witness:
  "\<exists>as q' m'. impl_run (try_push (AtomicQueueString (\<lambda>s. s))) (try_pop (AtomicQueueString (\<lambda>s. s)))
       [Try_push ''a'', Try_pop, Try_pop] new_string_queue = Some (as, q') \<and>
     impl_run (\<lambda>x q. Some (mutex_try_push (AtomicQueueMutexT 32 128 True) x q))
       (\<lambda>q. Some (mutex_try_pop (\<lambda>s. s) (AtomicQueueMutexT 32 128 True) q))
       [Try_push ''a'', Try_pop, Try_pop] (mutex_queue_new (AtomicQueueMutexT 32 128 True) []) = Some (as, m')"
  using mutex_queue_equals_lock_free [OF new_string_queue_inv mutex_queue_new_ok(1) [of 32 "[]"], of 32 "\<lambda>s. s"
      "[Try_push ''a'', Try_pop, Try_pop]"] mutex_queue_new_ok(2) new_string_queue_items by metis

end
