(* ===== verification/Locked_Queue.thy ===== *)
theory Locked_Queue
  imports Mutex_Queue
begin

text \<open>
  The queue with a mutex under concurrency: every thread takes the steps of its lock, and inside
  the lock the steps of \<^verbatim>\<open>try_push\<close> or \<^verbatim>\<open>try_pop\<close>, in any interleaving. The lock is any that meets
  the contract \<open>mutex\<close>.
\<close>

subsection \<open>The threads\<close>

text \<open>Where a thread is in its critical section.\<close>

datatype 'a sect =
    Outside
  | Entered "'a queue_op"
  | Stored 'a
  | Moved 'a
  | Answered "'a queue_answer"

text \<open>\<open>lk_log\<close> records the finished sections with their answers, in the order they finished.\<close>

record ('s, 'a) locked =
  lk_lock :: 's
  lk_queue :: "'a list queue_common"
  lk_sect :: "nat \<Rightarrow> 'a sect"
  lk_log :: "('a queue_op \<times> 'a queue_answer) list"

definition sect_at :: "nat \<Rightarrow> 'a sect \<Rightarrow> ('s, 'a) locked \<Rightarrow> ('s, 'a) locked" where
  "sect_at t p s = s\<lparr>lk_sect := (lk_sect s)(t := p)\<rparr>"

definition sect_answer :: "nat \<Rightarrow> 'a queue_op \<Rightarrow> 'a queue_answer \<Rightarrow> ('s, 'a) locked \<Rightarrow> ('s, 'a) locked" where
  "sect_answer t op a s = (sect_at t (Answered a) s)\<lparr>lk_log := lk_log s @ [(op, a)]\<rparr>"

inductive section_step :: "('a \<Rightarrow> 'a) \<Rightarrow> mutex_class \<Rightarrow> nat \<Rightarrow> ('s, 'a) locked \<Rightarrow> ('s, 'a) locked \<Rightarrow> bool" for mv K t where
  section_store: "lk_sect s t = Entered (Try_push x) \<Longrightarrow> q_head (lk_queue s) - q_tail (lk_queue s) < mx_size K \<Longrightarrow>
    section_step mv K t s (sect_at t (Stored x) (s\<lparr>lk_queue := put_slot K x (lk_queue s)\<rparr>))"
| section_full: "lk_sect s t = Entered (Try_push x) \<Longrightarrow> \<not> q_head (lk_queue s) - q_tail (lk_queue s) < mx_size K \<Longrightarrow>
    section_step mv K t s (sect_answer t (Try_push x) (Pushed False) s)"
| section_pushed: "lk_sect s t = Stored x \<Longrightarrow> section_step mv K t s (sect_answer t (Try_push x) (Pushed True)
    (s\<lparr>lk_queue := (lk_queue s)\<lparr>q_head := q_head (lk_queue s) + 1\<rparr>\<rparr>))"
| section_move: "lk_sect s t = Entered Try_pop \<Longrightarrow> q_head (lk_queue s) \<noteq> q_tail (lk_queue s) \<Longrightarrow>
    take_slot mv K (lk_queue s) = (x, q) \<Longrightarrow> section_step mv K t s (sect_at t (Moved x) (s\<lparr>lk_queue := q\<rparr>))"
| section_empty: "lk_sect s t = Entered Try_pop \<Longrightarrow> q_head (lk_queue s) = q_tail (lk_queue s) \<Longrightarrow>
    section_step mv K t s (sect_answer t Try_pop (Popped None) s)"
| section_popped: "lk_sect s t = Moved x \<Longrightarrow> section_step mv K t s (sect_answer t Try_pop (Popped (Some x))
    (s\<lparr>lk_queue := (lk_queue s)\<lparr>q_tail := q_tail (lk_queue s) + 1\<rparr>\<rparr>))"

text \<open>
  The scoped lock around it: a thread that gets the lock starts the section of some call, and
  leaves the lock when the section has its answer.
\<close>

inductive scoped_step ::
  "(nat \<Rightarrow> 's \<Rightarrow> 's \<Rightarrow> bool) \<Rightarrow> ('s \<Rightarrow> nat \<Rightarrow> bool) \<Rightarrow> nat \<Rightarrow> ('s, 'a) locked \<Rightarrow> ('s, 'a) locked \<Rightarrow> bool"
  for lstep inside t where
  scoped_enter: "lstep t (lk_lock s) l \<Longrightarrow> \<not> inside (lk_lock s) t \<Longrightarrow> inside l t \<Longrightarrow>
    scoped_step lstep inside t s (sect_at t (Entered op) (s\<lparr>lk_lock := l\<rparr>))"
| scoped_wait: "lstep t (lk_lock s) l \<Longrightarrow> \<not> inside (lk_lock s) t \<Longrightarrow> \<not> inside l t \<Longrightarrow>
    scoped_step lstep inside t s (s\<lparr>lk_lock := l\<rparr>)"
| scoped_leave: "lstep t (lk_lock s) l \<Longrightarrow> lk_sect s t = Answered a \<Longrightarrow>
    scoped_step lstep inside t s (sect_at t Outside (s\<lparr>lk_lock := l\<rparr>))"

inductive locked_reach ::
  "(nat \<Rightarrow> 's \<Rightarrow> 's \<Rightarrow> bool) \<Rightarrow> ('s \<Rightarrow> nat \<Rightarrow> bool) \<Rightarrow> ('a \<Rightarrow> 'a) \<Rightarrow> mutex_class \<Rightarrow> ('s, 'a) locked \<Rightarrow> ('s, 'a) locked \<Rightarrow> bool"
  for lstep inside mv K start where
  locked_begin: "locked_reach lstep inside mv K start start"
| locked_section: "locked_reach lstep inside mv K start s \<Longrightarrow> section_step mv K t s s' \<Longrightarrow>
    locked_reach lstep inside mv K start s'"
| locked_scoped: "locked_reach lstep inside mv K start s \<Longrightarrow> scoped_step lstep inside t s s' \<Longrightarrow>
    locked_reach lstep inside mv K start s'"

definition locked_start :: "'s \<Rightarrow> mutex_class \<Rightarrow> 'a \<Rightarrow> ('s, 'a) locked" where
  "locked_start l K d = \<lparr>lk_lock = l, lk_queue = mutex_queue_new K d, lk_sect = (\<lambda>_. Outside), lk_log = []\<rparr>"

lemma sect_simps [simp]:
  "lk_lock (sect_at t p s) = lk_lock s" "lk_queue (sect_at t p s) = lk_queue s" "lk_log (sect_at t p s) = lk_log s"
  "lk_sect (sect_at t p s) = (lk_sect s)(t := p)"
  "lk_lock (sect_answer t op a s) = lk_lock s" "lk_queue (sect_answer t op a s) = lk_queue s"
  "lk_log (sect_answer t op a s) = lk_log s @ [(op, a)]" "lk_sect (sect_answer t op a s) = (lk_sect s)(t := Answered a)"
  by (simp_all add: sect_at_def sect_answer_def)

subsection \<open>Linearizability\<close>

lemma spec_run_snoc:
  "spec_run cap ops xs = (as, ys) \<Longrightarrow> spec_step cap op ys = (a, zs) \<Longrightarrow> spec_run cap (ops @ [op]) xs = (as @ [a], zs)"
  by (induction ops arbitrary: xs as) (auto split: prod.splits)

text \<open>
  What the queue looks like from the last finished section \<open>q\<close> on, with one thread in the middle
  of its section.
\<close>

fun midway :: "('a \<Rightarrow> 'a) \<Rightarrow> mutex_class \<Rightarrow> 'a sect \<Rightarrow> 'a list queue_common \<Rightarrow> 'a list queue_common" where
  "midway mv K (Stored x) q = put_slot K x q"
| "midway mv K (Moved x) q = snd (take_slot mv K q)"
| "midway mv K p q = q"

fun midway_ok :: "('a \<Rightarrow> 'a) \<Rightarrow> mutex_class \<Rightarrow> 'a sect \<Rightarrow> 'a list queue_common \<Rightarrow> bool" where
  "midway_ok mv K (Stored x) q \<longleftrightarrow> fst (mutex_try_push K x q)"
| "midway_ok mv K (Moved x) q \<longleftrightarrow> fst (mutex_try_pop mv K q) = Some x"
| "midway_ok mv K p q \<longleftrightarrow> True"

definition log_ok :: "nat \<Rightarrow> nat \<Rightarrow> ('a queue_op \<times> 'a queue_answer) list \<Rightarrow> 'a list queue_common \<Rightarrow> bool" where
  "log_ok lg b log q \<longleftrightarrow> mutex_inv lg q \<and> spec_run (2 ^ lg) (map fst log) [] = (map snd log, mutex_items lg b q)"

definition lk_ok ::
  "('s \<Rightarrow> bool) \<Rightarrow> ('s \<Rightarrow> nat \<Rightarrow> bool) \<Rightarrow> ('a \<Rightarrow> 'a) \<Rightarrow> mutex_class \<Rightarrow> nat \<Rightarrow> nat \<Rightarrow> ('s, 'a) locked \<Rightarrow> bool" where
  "lk_ok linv inside mv K lg b s \<longleftrightarrow> linv (lk_lock s) \<and> (\<forall>t. inside (lk_lock s) t \<longleftrightarrow> lk_sect s t \<noteq> Outside) \<and>
     (\<exists>q. log_ok lg b (lk_log s) q \<and> ((\<forall>t. lk_sect s t = Outside) \<longrightarrow> lk_queue s = q) \<and>
       (\<forall>t. lk_sect s t \<noteq> Outside \<longrightarrow> lk_queue s = midway mv K (lk_sect s t) q \<and> midway_ok mv K (lk_sect s t) q))"

locale locked_queue = mutex lstart lstep inside linv + mutex_ring K b lg
  for lstart :: 's and lstep inside linv and K b lg
begin

lemma log_step:
  assumes "log_ok lg b log q" "impl_step (\<lambda>x q. Some (mutex_try_push K x q)) (\<lambda>q. Some (mutex_try_pop mv K q)) op q = Some (a, q')"
  shows "log_ok lg b (log @ [(op, a)]) q'"
proof -
  have inv: "mutex_inv lg q" "spec_run (2 ^ lg) (map fst log) [] = (map snd log, mutex_items lg b q)"
    using assms(1) by (simp_all add: log_ok_def)
  from mtsq.step_refines [OF inv(1), of op mv] assms(2)
  have "mutex_inv lg q' \<and> spec_step (2 ^ lg) op (mutex_items lg b q) = (a, mutex_items lg b q')" by auto
  with spec_run_snoc [OF inv(2)] show ?thesis by (simp add: log_ok_def)
qed

text \<open>In the middle of a section no other thread is in one.\<close>

lemma section_ok:
  assumes ok: "lk_ok linv inside mv K lg b s" and step: "section_step mv K t s s'"
  shows "lk_ok linv inside mv K lg b s'"
proof -
  have t: "lk_sect s t \<noteq> Outside" using step by cases auto
  have l: "linv (lk_lock s)" "\<forall>u. inside (lk_lock s) u \<longleftrightarrow> lk_sect s u \<noteq> Outside" using ok by (simp_all add: lk_ok_def)
  then have alone: "lk_sect s u = Outside" if "u \<noteq> t" for u using exclusive [of "lk_lock s" t u] t that by blast
  obtain q where q: "log_ok lg b (lk_log s) q" "lk_queue s = midway mv K (lk_sect s t) q" "midway_ok mv K (lk_sect s t) q"
    using ok t by (auto simp: lk_ok_def)
  have "lk_lock s' = lk_lock s \<and> (\<forall>u. u \<noteq> t \<longrightarrow> lk_sect s' u = lk_sect s u) \<and> lk_sect s' t \<noteq> Outside"
    using step by cases auto
  moreover have "\<exists>q. log_ok lg b (lk_log s') q \<and> lk_queue s' = midway mv K (lk_sect s' t) q \<and> midway_ok mv K (lk_sect s' t) q"
    using step
  proof cases
    case (section_store x) then show ?thesis using q by (auto simp: mutex_try_push_def)
  next
    case (section_full x) then show ?thesis
      using q log_step [OF q(1), of mv "Try_push x"] by (auto simp: mutex_try_push_def)
  next
    case (section_pushed x) then show ?thesis
      using q log_step [OF q(1), of mv "Try_push x"] by (auto simp: mutex_try_push_def put_slot_def split: if_splits)
  next
    case (section_move x q') then show ?thesis using q by (auto simp: mutex_try_pop_def)
  next
    case section_empty then show ?thesis
      using q log_step [OF q(1), of mv Try_pop] by (auto simp: mutex_try_pop_def)
  next
    case (section_popped x) then show ?thesis
      using q log_step [OF q(1), of mv Try_pop] by (auto simp: mutex_try_pop_def take_slot_def Let_def split: if_splits)
  qed
  ultimately show ?thesis using l t alone unfolding lk_ok_def by metis
qed

lemma scoped_ok:
  assumes ok: "lk_ok linv inside mv K lg b s" and step: "scoped_step lstep inside t s s'"
  shows "lk_ok linv inside mv K lg b s'"
proof -
  have l: "linv (lk_lock s)" "\<forall>u. inside (lk_lock s) u \<longleftrightarrow> lk_sect s u \<noteq> Outside" using ok by (simp_all add: lk_ok_def)
  have ls: "lstep t (lk_lock s) (lk_lock s')" using step by cases auto
  then have l': "linv (lk_lock s')" "\<forall>u. u \<noteq> t \<longrightarrow> inside (lk_lock s') u = inside (lk_lock s) u"
    using step_inv [OF l(1)] local_step by auto
  show ?thesis
    using step
  proof cases
    case (scoped_enter l op)
    have "lk_sect s u = Outside" if "u \<noteq> t" for u
      using exclusive [OF l'(1), of t u] l(2) l'(2) scoped_enter that by auto
    moreover have "lk_sect s t = Outside" using scoped_enter l(2) by blast
    ultimately have "\<forall>u. lk_sect s u = Outside" by metis
    then show ?thesis using ok scoped_enter l' l(2) by (auto simp: lk_ok_def)
  next
    case (scoped_wait l)
    then show ?thesis using ok l' l(2) by (auto simp: lk_ok_def)
  next
    case (scoped_leave l a)
    have "lk_sect s u = Outside" if "u \<noteq> t" for u
      using exclusive [OF l(1), of t u] l(2) scoped_leave that by auto
    moreover have "\<not> inside (lk_lock s') t" using leaves [OF ls] l(2) scoped_leave by auto
    moreover have "lk_sect s t \<noteq> Outside" using scoped_leave(3) by simp
    then obtain q where "log_ok lg b (lk_log s) q" "lk_queue s = midway mv K (lk_sect s t) q"
      using ok by (auto simp: lk_ok_def)
    then have "log_ok lg b (lk_log s) (lk_queue s)" using scoped_leave(3) by simp
    ultimately show ?thesis using scoped_leave l' l(2) by (auto simp: lk_ok_def)
  qed
qed

lemma locked_reach_ok:
  assumes "locked_reach lstep inside mv K (locked_start lstart K d) s"
  shows "lk_ok linv inside mv K lg b s"
  using assms
proof induction
  case locked_begin
  have "mutex_inv lg (mutex_queue_new K d)" "mutex_items lg b (mutex_queue_new K d) = []"
    using lg_less by (simp_all add: mutex_queue_new_def new_queue_def mutex_inv_def mutex_items_def ring_count_def mx_size unat_exp)
  then show ?case using start_inv start_out by (simp add: lk_ok_def locked_start_def log_ok_def)
next
  case (locked_section s t s') then show ?case using section_ok by blast
next
  case (locked_scoped s t s') then show ?case using scoped_ok by blast
qed

text \<open>Every answer given so far is the one a bounded FIFO list gives to the same calls.\<close>

lemma linearizable:
  assumes "locked_reach lstep inside mv K (locked_start lstart K d) s"
  shows "\<exists>xs. spec_run (2 ^ lg) (map fst (lk_log s)) [] = (map snd (lk_log s), xs) \<and>
    ((\<forall>t. \<not> inside (lk_lock s) t) \<longrightarrow> mutex_items lg b (lk_queue s) = xs)"
  using locked_reach_ok [OF assms] by (auto simp: lk_ok_def log_ok_def)

end

interpretation tlq: locked_queue TicketSpinlock "ticket_step (2 ^ 32 - 1)" ticket_inside "ticket_ok (2 ^ 32 - 1)"
  "AtomicQueueMutexT sizeof_T 128 True" "mutex_bits sizeof_T" 7 for sizeof_T
  by unfold_locales

interpretation ulq: locked_queue UnfairSpinlock unfair_step unfair_inside unfair_ok
  "AtomicQueueMutexT sizeof_T 128 True" "mutex_bits sizeof_T" 7 for sizeof_T
  by unfold_locales

text \<open>C17: the queue with a mutex is linearizable under either lock of the library. Whatever the
  interleaving of the threads inside \<open>lock\<close>, the critical sections and \<open>unlock\<close>, the answers given
  so far are those of a FIFO list of at most 128 elements to the same calls in the order the
  sections finished, and while nobody is inside the lock the queue holds exactly that list.\<close>

theorem locked_queue_linearizable:
  fixes s :: "(ticket_lock, 'a) locked" and s' :: "(unfair_lock, 'a) locked"
  assumes "locked_reach (ticket_step (2 ^ 32 - 1)) ticket_inside mv (AtomicQueueMutexT sz 128 True)
      (locked_start TicketSpinlock (AtomicQueueMutexT sz 128 True) d) s"
    and "locked_reach unfair_step unfair_inside mv (AtomicQueueMutexT sz 128 True)
      (locked_start UnfairSpinlock (AtomicQueueMutexT sz 128 True) d) s'"
  shows "(\<exists>xs. spec_run 128 (map fst (lk_log s)) [] = (map snd (lk_log s), xs) \<and>
      ((\<forall>t. \<not> ticket_inside (lk_lock s) t) \<longrightarrow> mutex_items 7 (mutex_bits sz) (lk_queue s) = xs)) \<and>
    (\<exists>xs. spec_run 128 (map fst (lk_log s')) [] = (map snd (lk_log s'), xs) \<and>
      ((\<forall>t. \<not> unfair_inside (lk_lock s') t) \<longrightarrow> mutex_items 7 (mutex_bits sz) (lk_queue s') = xs))"
  using tlq.linearizable [OF assms(1)] ulq.linearizable [OF assms(2)] by simp

lemma sample_locked_run:
  "\<exists>s. locked_reach unfair_step unfair_inside mv K (locked_start UnfairSpinlock K d) s \<and> lk_log s = [(Try_pop, Popped None)]"
proof -
  let ?s0 = "locked_start UnfairSpinlock K d" and ?R = "locked_reach unfair_step unfair_inside mv K (locked_start UnfairSpinlock K d)"
  define l1 where "l1 = unfair_at 0 Unfair_load UnfairSpinlock"
  define l2 where "l2 = unfair_at 0 Unfair_exchange l1"
  define l3 where "l3 = unfair_at 0 Unfair_in (l2\<lparr>ul_lock := 1\<rparr>)"
  note defs = l1_def l2_def l3_def UnfairSpinlock_def unfair_inside_def locked_start_def
  have l: "unfair_step 0 UnfairSpinlock l1" "unfair_step 0 l1 l2" "unfair_step 0 l2 l3"
    unfolding l1_def l2_def l3_def
    by (intro unfair_call unfair_free unfair_won; simp add: UnfairSpinlock_def)+
  have "scoped_step unfair_step unfair_inside 0 ?s0 (?s0\<lparr>lk_lock := l1\<rparr>)"
    using l(1) by (intro scoped_wait) (simp_all add: defs)
  moreover have "scoped_step unfair_step unfair_inside 0 (?s0\<lparr>lk_lock := l1\<rparr>) (?s0\<lparr>lk_lock := l2\<rparr>)"
    using scoped_wait [of unfair_step 0 "?s0\<lparr>lk_lock := l1\<rparr>" l2 unfair_inside] l(2) by (simp add: defs)
  moreover have "scoped_step unfair_step unfair_inside 0 (?s0\<lparr>lk_lock := l2\<rparr>) (sect_at 0 (Entered Try_pop) (?s0\<lparr>lk_lock := l3\<rparr>))"
    using scoped_enter [of unfair_step 0 "?s0\<lparr>lk_lock := l2\<rparr>" l3 unfair_inside Try_pop] l(3) by (simp add: defs)
  moreover have "section_step mv K 0 (sect_at 0 (Entered Try_pop) (?s0\<lparr>lk_lock := l3\<rparr>))
      (sect_answer 0 Try_pop (Popped None) (sect_at 0 (Entered Try_pop) (?s0\<lparr>lk_lock := l3\<rparr>)))"
    by (intro section_empty) (simp_all add: locked_start_def mutex_queue_new_def new_queue_def)
  ultimately have "?R (sect_answer 0 Try_pop (Popped None) (sect_at 0 (Entered Try_pop) (?s0\<lparr>lk_lock := l3\<rparr>)))"
    using locked_begin locked_scoped locked_section by metis
  moreover have "lk_log (sect_answer 0 Try_pop (Popped None) (sect_at 0 (Entered Try_pop) (?s0\<lparr>lk_lock := l3\<rparr>))) = [(Try_pop, Popped None)]"
    by (simp add: locked_start_def)
  ultimately show ?thesis by blast
qed

theorem locked_queue_linearizable_witness:
  "\<exists>s :: (unfair_lock, string) locked. locked_reach unfair_step unfair_inside (\<lambda>x. x) (AtomicQueueMutexT 32 128 True)
      (locked_start UnfairSpinlock (AtomicQueueMutexT 32 128 True) []) s \<and> lk_log s = [(Try_pop, Popped None)] \<and>
    (\<exists>xs. spec_run 128 [Try_pop] [] = ([Popped None], xs))"
proof -
  let ?K = "AtomicQueueMutexT 32 128 True"
  obtain s' where s': "locked_reach unfair_step unfair_inside (\<lambda>x. x) ?K (locked_start UnfairSpinlock ?K ([] :: string)) s'"
    "lk_log s' = [(Try_pop, Popped None)]" using sample_locked_run [of "\<lambda>x. x" ?K "[]"] by auto
  have "locked_reach (ticket_step (2 ^ 32 - 1)) ticket_inside (\<lambda>x. x) ?K (locked_start TicketSpinlock ?K ([] :: string))
      (locked_start TicketSpinlock ?K [])" by (rule locked_begin)
  from locked_queue_linearizable [OF this s'(1)] s' show ?thesis by auto
qed

end
