(* ===== verification/Queue_Objects.thy ===== *)
theory Queue_Objects
  imports Queue_Instances
begin

unbundle bit_operations_syntax

text \<open>
  The queues that allocate their slots, \<^verbatim>\<open>AtomicQueueB\<close> and \<^verbatim>\<open>AtomicQueueB2\<close> of
  \<^verbatim>\<open>include/Atomic_queue/atomic_queue.h\<close>, as objects: constructors, moves, \<^verbatim>\<open>swap\<close> and
  destructors over a heap of blocks, and the retrying decorator. The contract of a class that
  owns its blocks is the locale \<open>owning_class\<close>, which both classes meet.
\<close>

subsection \<open>The heap\<close>

text \<open>A block knows the allocator it came from and its size in units of that allocator.\<close>

record heap =
  hp_blocks :: "nat \<rightharpoonup> nat \<times> nat"
  hp_fresh :: nat

text \<open>\<open>can\<close> says whether an allocation succeeds; \<open>None\<close> is \<^verbatim>\<open>std::bad_alloc\<close>.\<close>

definition allocate :: "(nat \<Rightarrow> heap \<Rightarrow> bool) \<Rightarrow> nat \<Rightarrow> nat \<Rightarrow> heap \<Rightarrow> (nat \<times> heap) option" where
  "allocate can a n h =
     (if can n h then Some (hp_fresh h, h\<lparr>hp_blocks := (hp_blocks h)(hp_fresh h \<mapsto> (a, n)), hp_fresh := hp_fresh h + 1\<rparr>)
      else None)"

text \<open>Giving back a block that is not there, or not of this allocator and size, is undefined: \<open>None\<close>.\<close>

definition deallocate :: "nat \<Rightarrow> nat \<Rightarrow> nat \<Rightarrow> heap \<Rightarrow> heap option" where
  "deallocate a p n h =
     (if hp_blocks h p = Some (a, n) then Some (h\<lparr>hp_blocks := (hp_blocks h)(p := None)\<rparr>) else None)"

subsection \<open>The tickets of AtomicQueueCommon as a sub-object\<close>

record tickets =
  tk_head :: u32
  tk_tail :: u32

definition tickets_new :: tickets where
  "tickets_new = \<lparr>tk_head = 0, tk_tail = 0\<rparr>"

definition tickets_copy :: "tickets \<Rightarrow> tickets" where
  "tickets_copy b = \<lparr>tk_head = tk_head b, tk_tail = tk_tail b\<rparr>"

definition copy_relaxed :: "'a \<Rightarrow> 'a \<Rightarrow> 'a" where
  "copy_relaxed a b = b"

definition tickets_assign :: "tickets \<Rightarrow> tickets \<Rightarrow> tickets" where
  "tickets_assign a b = a\<lparr>tk_head := copy_relaxed (tk_head a) (tk_head b), tk_tail := copy_relaxed (tk_tail a) (tk_tail b)\<rparr>"

definition swap_relaxed :: "'a \<Rightarrow> 'a \<Rightarrow> 'a \<times> 'a" where
  "swap_relaxed a b = (let a2 = a; a = b; b = a2 in (a, b))"

definition tickets_swap :: "tickets \<Rightarrow> tickets \<Rightarrow> tickets \<times> tickets" where
  "tickets_swap a b =
     (let (ah, bh) = swap_relaxed (tk_head a) (tk_head b); (at, bt) = swap_relaxed (tk_tail a) (tk_tail b)
      in (a\<lparr>tk_head := ah, tk_tail := at\<rparr>, b\<lparr>tk_head := bh, tk_tail := bt\<rparr>))"

subsection \<open>AtomicQueueB\<close>

record queue_b =
  b_allocator :: nat
  b_base :: tickets
  b_size :: u32
  b_elements :: "nat option"

definition AtomicQueueB_new ::
  "nat \<Rightarrow> (nat \<Rightarrow> heap \<Rightarrow> bool) \<Rightarrow> u32 \<Rightarrow> nat \<Rightarrow> heap \<Rightarrow> queue_b option \<times> heap" where
  "AtomicQueueB_new sizeof_T can sz allocator h =
     (let SHUFFLE_BITS = GetCacheLineIndexBits (CACHE_LINE_SIZE div sizeof_T);
          size = max (round_up_to_power_of_2 sz) (push_bit (SHUFFLE_BITS * 2) 1)
      in case allocate can allocator (unat size) h of
           None \<Rightarrow> (None, h)
         | Some (p, h) \<Rightarrow> (Some \<lparr>b_allocator = allocator, b_base = tickets_new, b_size = size, b_elements = Some p\<rparr>, h))"

definition AtomicQueueB_move :: "queue_b \<Rightarrow> queue_b \<times> queue_b" where
  "AtomicQueueB_move b =
     (\<lparr>b_allocator = b_allocator b, b_base = tickets_copy (b_base b), b_size = b_size b, b_elements = b_elements b\<rparr>,
      b\<lparr>b_size := 0, b_elements := None\<rparr>)"

definition AtomicQueueB_swap :: "queue_b \<Rightarrow> queue_b \<Rightarrow> queue_b \<times> queue_b" where
  "AtomicQueueB_swap a b =
     (let (ta, tb) = tickets_swap (b_base a) (b_base b)
      in (a\<lparr>b_allocator := b_allocator b, b_base := ta, b_size := b_size b, b_elements := b_elements b\<rparr>,
          b\<lparr>b_allocator := b_allocator a, b_base := tb, b_size := b_size a, b_elements := b_elements a\<rparr>))"

text \<open>\<^verbatim>\<open>a = std::move(b)\<close> calls \<^verbatim>\<open>b.swap(a)\<close>.\<close>

definition AtomicQueueB_assign :: "queue_b \<Rightarrow> queue_b \<Rightarrow> queue_b \<times> queue_b" where
  "AtomicQueueB_assign a b = (let (b, a) = AtomicQueueB_swap b a in (a, b))"

definition AtomicQueueB_destroy :: "queue_b \<Rightarrow> heap \<Rightarrow> heap option" where
  "AtomicQueueB_destroy b h =
     (case b_elements b of
        None \<Rightarrow> Some h
      | Some p \<Rightarrow> deallocate (b_allocator b) p (unat (b_size b)) h)"

subsection \<open>AtomicQueueB2\<close>

record queue_b2 =
  b2_allocator :: nat
  b2_base :: tickets
  b2_size :: u32
  b2_states :: "nat option"
  b2_elements :: "nat option"

text \<open>
  Sizes are in bytes here: one byte per state. The multiplication \<^verbatim>\<open>size_ * sizeof(U)\<close> is done in
  \<^verbatim>\<open>size_t\<close> and does not wrap. When the second allocation throws, the constructor leaves with the
  exception; the members set so far are plain pointers.
\<close>

definition AtomicQueueB2_new ::
  "nat \<Rightarrow> (nat \<Rightarrow> heap \<Rightarrow> bool) \<Rightarrow> u32 \<Rightarrow> nat \<Rightarrow> heap \<Rightarrow> queue_b2 option \<times> heap" where
  "AtomicQueueB2_new sizeof_T can sz allocator h =
     (let SHUFFLE_BITS = GetCacheLineIndexBits (CACHE_LINE_SIZE div 1);
          size = max (round_up_to_power_of_2 sz) (push_bit (SHUFFLE_BITS * 2) 1)
      in case allocate can allocator (unat size) h of
           None \<Rightarrow> (None, h)
         | Some (s, h) \<Rightarrow> (case allocate can allocator (unat size * sizeof_T) h of
             None \<Rightarrow> (None, h)
           | Some (e, h) \<Rightarrow> (Some \<lparr>b2_allocator = allocator, b2_base = tickets_new, b2_size = size, b2_states = Some s,
               b2_elements = Some e\<rparr>, h)))"

definition AtomicQueueB2_move :: "queue_b2 \<Rightarrow> queue_b2 \<times> queue_b2" where
  "AtomicQueueB2_move b =
     (\<lparr>b2_allocator = b2_allocator b, b2_base = tickets_copy (b2_base b), b2_size = b2_size b, b2_states = b2_states b,
        b2_elements = b2_elements b\<rparr>,
      b\<lparr>b2_size := 0, b2_states := None, b2_elements := None\<rparr>)"

definition AtomicQueueB2_swap :: "queue_b2 \<Rightarrow> queue_b2 \<Rightarrow> queue_b2 \<times> queue_b2" where
  "AtomicQueueB2_swap a b =
     (let (ta, tb) = tickets_swap (b2_base a) (b2_base b)
      in (a\<lparr>b2_allocator := b2_allocator b, b2_base := ta, b2_size := b2_size b, b2_states := b2_states b,
            b2_elements := b2_elements b\<rparr>,
          b\<lparr>b2_allocator := b2_allocator a, b2_base := tb, b2_size := b2_size a, b2_states := b2_states a,
            b2_elements := b2_elements a\<rparr>))"

definition AtomicQueueB2_assign :: "queue_b2 \<Rightarrow> queue_b2 \<Rightarrow> queue_b2 \<times> queue_b2" where
  "AtomicQueueB2_assign a b = (let (b, a) = AtomicQueueB2_swap b a in (a, b))"

definition AtomicQueueB2_destroy :: "nat \<Rightarrow> queue_b2 \<Rightarrow> heap \<Rightarrow> heap option" where
  "AtomicQueueB2_destroy sizeof_T b h =
     (case b2_elements b of
        None \<Rightarrow> Some h
      | Some e \<Rightarrow> (case deallocate (b2_allocator b) e (unat (b2_size b) * sizeof_T) h of
          None \<Rightarrow> None
        | Some h \<Rightarrow> (case b2_states b of
            None \<Rightarrow> None
          | Some s \<Rightarrow> deallocate (b2_allocator b) s (unat (b2_size b)) h)))"

subsection \<open>Programs over queue objects\<close>

record 'o object_class =
  oc_new :: "u32 \<Rightarrow> nat \<Rightarrow> heap \<Rightarrow> 'o option \<times> heap"
  oc_move :: "'o \<Rightarrow> 'o \<times> 'o"
  oc_swap :: "'o \<Rightarrow> 'o \<Rightarrow> 'o \<times> 'o"
  oc_assign :: "'o \<Rightarrow> 'o \<Rightarrow> 'o \<times> 'o"
  oc_destroy :: "'o \<Rightarrow> heap \<Rightarrow> heap option"

definition class_B :: "nat \<Rightarrow> (nat \<Rightarrow> heap \<Rightarrow> bool) \<Rightarrow> queue_b object_class" where
  "class_B sizeof_T can = \<lparr>oc_new = AtomicQueueB_new sizeof_T can, oc_move = AtomicQueueB_move, oc_swap = AtomicQueueB_swap,
     oc_assign = AtomicQueueB_assign, oc_destroy = AtomicQueueB_destroy\<rparr>"

definition class_B2 :: "nat \<Rightarrow> (nat \<Rightarrow> heap \<Rightarrow> bool) \<Rightarrow> queue_b2 object_class" where
  "class_B2 sizeof_T can = \<lparr>oc_new = AtomicQueueB2_new sizeof_T can, oc_move = AtomicQueueB2_move, oc_swap = AtomicQueueB2_swap,
     oc_assign = AtomicQueueB2_assign, oc_destroy = AtomicQueueB2_destroy sizeof_T\<rparr>"

datatype object_op =
    Construct nat u32 nat
  | Move_construct nat nat
  | Move_assign nat nat
  | Swap nat nat
  | Destroy nat

text \<open>
  One operation on the named objects of a program. An operation that the language does not
  allow there (on an object that is not alive, or constructing over one that is) does nothing;
  \<open>None\<close> is undefined behaviour.
\<close>

fun object_step :: "'o object_class \<Rightarrow> object_op \<Rightarrow> (nat \<rightharpoonup> 'o) \<times> heap \<Rightarrow> ((nat \<rightharpoonup> 'o) \<times> heap) option" where
  "object_step C (Construct x sz a) (S, h) =
     (if S x = None then (case oc_new C sz a h of (ob, h) \<Rightarrow> Some (S(x := ob), h)) else Some (S, h))"
| "object_step C (Move_construct x y) (S, h) =
     (case S y of Some b \<Rightarrow> if S x = None then (case oc_move C b of (a, b) \<Rightarrow> Some (S(x \<mapsto> a, y \<mapsto> b), h)) else Some (S, h)
      | None \<Rightarrow> Some (S, h))"
| "object_step C (Move_assign x y) (S, h) =
     (case (S x, S y) of
        (Some a, Some b) \<Rightarrow> if x = y then Some (S, h) else (case oc_assign C a b of (a, b) \<Rightarrow> Some (S(x \<mapsto> a, y \<mapsto> b), h))
      | _ \<Rightarrow> Some (S, h))"
| "object_step C (Swap x y) (S, h) =
     (case (S x, S y) of
        (Some a, Some b) \<Rightarrow> if x = y then Some (S, h) else (case oc_swap C a b of (a, b) \<Rightarrow> Some (S(x \<mapsto> a, y \<mapsto> b), h))
      | _ \<Rightarrow> Some (S, h))"
| "object_step C (Destroy x) (S, h) =
     (case S x of Some a \<Rightarrow> map_option (\<lambda>h. (S(x := None), h)) (oc_destroy C a h) | None \<Rightarrow> Some (S, h))"

fun object_run :: "'o object_class \<Rightarrow> object_op list \<Rightarrow> (nat \<rightharpoonup> 'o) \<times> heap \<Rightarrow> ((nat \<rightharpoonup> 'o) \<times> heap) option" where
  "object_run C [] w = Some w"
| "object_run C (op # ops) w = (case object_step C op w of None \<Rightarrow> None | Some w \<Rightarrow> object_run C ops w)"

text \<open>What a construction that fails leaves allocated, and all that a program abandons that way.\<close>

definition gained :: "heap \<Rightarrow> heap \<Rightarrow> nat \<rightharpoonup> nat \<times> nat" where
  "gained h h' = hp_blocks h' |` (- dom (hp_blocks h))"

fun abandoned :: "'o object_class \<Rightarrow> object_op \<Rightarrow> (nat \<rightharpoonup> 'o) \<times> heap \<Rightarrow> nat \<rightharpoonup> nat \<times> nat" where
  "abandoned C (Construct x sz a) (S, h) =
     (if S x = None then (case oc_new C sz a h of (None, h') \<Rightarrow> gained h h' | _ \<Rightarrow> Map.empty) else Map.empty)"
| "abandoned C _ _ = Map.empty"

fun leaked :: "'o object_class \<Rightarrow> object_op list \<Rightarrow> (nat \<rightharpoonup> 'o) \<times> heap \<Rightarrow> nat \<rightharpoonup> nat \<times> nat" where
  "leaked C [] w = Map.empty"
| "leaked C (op # ops) w =
     (case object_step C op w of None \<Rightarrow> Map.empty | Some w' \<Rightarrow> abandoned C op w ++ leaked C ops w')"

subsection \<open>Ownership\<close>

text \<open>
  \<open>own\<close> says which blocks each owner holds; together they hold every block of the heap, each one
  once.
\<close>

definition owns_at :: "('i \<Rightarrow> nat \<rightharpoonup> nat \<times> nat) \<Rightarrow> heap \<Rightarrow> nat \<Rightarrow> bool" where
  "owns_at own h p \<longleftrightarrow> (case hp_blocks h p of
      None \<Rightarrow> \<forall>x. own x p = None
    | Some v \<Rightarrow> p < hp_fresh h \<and> (\<exists>x. \<forall>y. own y p = (if y = x then Some v else None)))"

definition owns :: "('i \<Rightarrow> nat \<rightharpoonup> nat \<times> nat) \<Rightarrow> heap \<Rightarrow> bool" where
  "owns own h \<longleftrightarrow> (\<forall>p. owns_at own h p)"

lemma owns_atE:
  assumes "owns own h" "hp_blocks h p = Some v"
  obtains x where "p < hp_fresh h" "\<And>y. own y p = (if y = x then Some v else None)"
proof -
  have "owns_at own h p" using assms(1) by (simp add: owns_def)
  with assms(2) that show thesis by (auto simp: owns_at_def)
qed

lemma owns_none: "owns own h \<Longrightarrow> hp_blocks h p = None \<Longrightarrow> own x p = None"
  unfolding owns_def owns_at_def by (drule spec [of _ p]) simp

lemma owns_atD:
  assumes "owns own h" "own x p = Some v"
  shows "hp_blocks h p = Some v \<and> own y p = (if y = x then Some v else None)"
proof (cases "hp_blocks h p")
  case None then show ?thesis using owns_none [OF assms(1)] assms(2) by auto
next
  case (Some w)
  with assms(1) obtain z where "\<And>y. own y p = (if y = z then Some w else None)" by (rule owns_atE) blast
  with assms(2) Some show ?thesis by (auto split: if_splits)
qed

lemma owns_fresh: "owns own h \<Longrightarrow> \<forall>p \<in> dom (hp_blocks h). p < hp_fresh h"
  by (auto elim: owns_atE)

lemma owns_part: "owns own h \<Longrightarrow> own x \<subseteq>\<^sub>m hp_blocks h"
  unfolding map_le_def by (metis domD owns_atD)

lemma owns_exchange:
  assumes "owns own h"
  shows "owns (own(x := own y, y := own x)) h"
  unfolding owns_def
proof
  fix p
  show "owns_at (own(x := own y, y := own x)) h p"
  proof (cases "hp_blocks h p")
    case (Some v)
    with assms obtain z where z: "p < hp_fresh h" "\<And>u. own u p = (if u = z then Some v else None)" by (rule owns_atE) blast
    have "\<forall>u. (own(x := own y, y := own x)) u p = (if u = (if z = x then y else if z = y then x else z) then Some v else None)"
      using z(2) by simp
    with z(1) Some show ?thesis unfolding owns_at_def by auto
  qed (use owns_none [OF assms] in \<open>simp add: owns_at_def\<close>)
qed

lemma owns_only:
  assumes "owns own h" "\<forall>x. x \<noteq> z \<longrightarrow> own x = Map.empty"
  shows "hp_blocks h = own z"
proof
  fix p
  show "hp_blocks h p = own z p"
  proof (cases "hp_blocks h p")
    case (Some v)
    with assms(1) obtain x where x: "\<And>y. own y p = (if y = x then Some v else None)" by (rule owns_atE) blast
    from x [of x] assms(2) have "x = z" by auto
    with x [of z] Some show ?thesis by simp
  qed (use owns_none [OF assms(1)] in simp)
qed

lemma owns_grow:
  assumes "owns own h" "dom bs \<inter> dom (hp_blocks h) = {}" "hp_blocks h' = hp_blocks h ++ bs"
    "\<forall>p \<in> dom (hp_blocks h'). p < hp_fresh h'"
  shows "owns (own(x := own x ++ bs)) h'"
  unfolding owns_def
proof
  fix p
  show "owns_at (own(x := own x ++ bs)) h' p"
  proof (cases "bs p")
    case (Some v)
    then have "hp_blocks h p = None" using assms(2) by (metis disjoint_iff domI domIff)
    then have "\<forall>y. own y p = None" using owns_none [OF assms(1)] by blast
    then have "\<forall>y. (own(x := own x ++ bs)) y p = (if y = x then Some v else None)" using Some by simp
    moreover have v: "hp_blocks h' p = Some v" using Some assms(3) by simp
    moreover have "p < hp_fresh h'" using v assms(4) by blast
    ultimately show ?thesis unfolding owns_at_def by auto
  next
    case None
    then have h': "hp_blocks h' p = hp_blocks h p" using assms(3) by (simp add: map_add_def)
    have same: "(own(x := own x ++ bs)) y p = own y p" for y using None by (simp add: map_add_def)
    show ?thesis
    proof (cases "hp_blocks h p")
      case (Some v)
      with assms(1) obtain z where z: "\<And>y. own y p = (if y = z then Some v else None)" by (rule owns_atE) blast
      moreover have "p < hp_fresh h'" using Some h' assms(4) by (metis domI)
      ultimately show ?thesis using Some h' unfolding owns_at_def same by auto
    qed (use owns_none [OF assms(1)] h' in \<open>simp only: owns_at_def same option.case simp_thms\<close>)
  qed
qed

lemma owns_shrink:
  assumes "owns own h" "hp_blocks h' = hp_blocks h |` (- dom (own x))" "hp_fresh h' = hp_fresh h"
  shows "owns (own(x := Map.empty)) h'"
  unfolding owns_def
proof
  fix p
  show "owns_at (own(x := Map.empty)) h' p"
  proof (cases "own x p")
    case (Some v)
    then have "p \<in> dom (own x)" by (rule domI)
    then have "hp_blocks h' p = None" using assms(2) by simp
    with owns_atD [OF assms(1) Some] show ?thesis by (simp add: owns_at_def)
  next
    case None
    then have "p \<notin> dom (own x)" by (simp add: domIff)
    then have "hp_blocks h' p = hp_blocks h p" using assms(2) by simp
    moreover have "(own(x := Map.empty)) y p = own y p" for y using None by simp
    moreover have "owns_at own h p" using assms(1) by (simp add: owns_def)
    ultimately show ?thesis using assms(3) unfolding owns_at_def by (simp only:)
  qed
qed

text \<open>The owners of a program's blocks: its objects, and \<open>None\<close> for the blocks \<open>L\<close> that no object
  will give back.\<close>

definition held :: "('o \<Rightarrow> nat \<rightharpoonup> nat \<times> nat) \<Rightarrow> (nat \<rightharpoonup> nat \<times> nat) \<Rightarrow> (nat \<rightharpoonup> 'o) \<Rightarrow> nat option \<Rightarrow> nat \<rightharpoonup> nat \<times> nat" where
  "held owned L S i = (case i of None \<Rightarrow> L | Some x \<Rightarrow> (case S x of None \<Rightarrow> Map.empty | Some ob \<Rightarrow> owned ob))"

lemma held_simps [simp]:
  "held owned L S None = L"
  "held owned L S (Some x) = (case S x of None \<Rightarrow> Map.empty | Some ob \<Rightarrow> owned ob)"
  by (simp_all add: held_def)

lemma held_eqI: "own None = L \<Longrightarrow> (\<And>x. own (Some x) = held owned L S (Some x)) \<Longrightarrow> held owned L S = own"
  by (rule ext) (simp add: held_def split: option.splits)

text \<open>The contract of a class that owns blocks.\<close>

locale owning_class =
  fixes C :: "'o object_class"
    and owned :: "'o \<Rightarrow> nat \<rightharpoonup> nat \<times> nat"
    and good :: "'o \<Rightarrow> bool"
  assumes new_owns: "oc_new C n al h = (Some ob, h') \<Longrightarrow> \<forall>p \<in> dom (hp_blocks h). p < hp_fresh h \<Longrightarrow>
      good ob \<and> dom (owned ob) \<inter> dom (hp_blocks h) = {} \<and> hp_blocks h' = hp_blocks h ++ owned ob \<and>
      (\<forall>p \<in> dom (hp_blocks h'). p < hp_fresh h')"
    and new_fails: "oc_new C n al h = (None, h') \<Longrightarrow> \<forall>p \<in> dom (hp_blocks h). p < hp_fresh h \<Longrightarrow>
      hp_blocks h \<subseteq>\<^sub>m hp_blocks h' \<and> (\<forall>p \<in> dom (hp_blocks h'). p < hp_fresh h')"
    and move_owns: "oc_move C b = (x, y) \<Longrightarrow> good b \<Longrightarrow> owned x = owned b \<and> owned y = Map.empty \<and> good x \<and> good y"
    and swap_owns: "oc_swap C a b = (x, y) \<Longrightarrow> good a \<Longrightarrow> good b \<Longrightarrow> owned x = owned b \<and> owned y = owned a \<and> good x \<and> good y"
    and assign_owns: "oc_assign C a b = (x, y) \<Longrightarrow> good a \<Longrightarrow> good b \<Longrightarrow> owned x = owned b \<and> owned y = owned a \<and> good x \<and> good y"
    and destroy_frees: "good ob \<Longrightarrow> owned ob \<subseteq>\<^sub>m hp_blocks h \<Longrightarrow>
      \<exists>h'. oc_destroy C ob h = Some h' \<and> hp_blocks h' = hp_blocks h |` (- dom (owned ob)) \<and> hp_fresh h' = hp_fresh h"
begin

lemma exchange_owns:
  assumes "owns (held owned L S) h" "\<forall>ob \<in> ran S. good ob" "x \<noteq> y" "owned u = held owned L S (Some y)" "owned v = held owned L S (Some x)"
    "good u" "good v"
  shows "owns (held owned L (S(x \<mapsto> u, y \<mapsto> v))) h \<and> (\<forall>ob \<in> ran (S(x \<mapsto> u, y \<mapsto> v)). good ob)"
proof -
  have "held owned L (S(x \<mapsto> u, y \<mapsto> v)) = (held owned L S)(Some x := held owned L S (Some y), Some y := held owned L S (Some x))"
    using assms(3-5) by (intro held_eqI) auto
  then have "owns (held owned L (S(x \<mapsto> u, y \<mapsto> v))) h" using owns_exchange [OF assms(1), of "Some x" "Some y"] by simp
  then show ?thesis using assms(2,6,7) by (auto simp: ran_def)
qed

lemma construct_owns:
  assumes ok: "owns (held owned L S) h" "\<forall>ob \<in> ran S. good ob" and new: "S x = None" "oc_new C sz a h = (Some ob, h')"
  shows "owns (held owned L (S(x \<mapsto> ob))) h' \<and> (\<forall>ob \<in> ran (S(x \<mapsto> ob)). good ob)"
proof -
  have o: "held owned L (S(x \<mapsto> ob)) = (held owned L S)(Some x := held owned L S (Some x) ++ owned ob)"
    using new(1) by (intro held_eqI) auto
  from new_owns [OF new(2) owns_fresh [OF ok(1)]] have n: "good ob" "dom (owned ob) \<inter> dom (hp_blocks h) = {}"
    "hp_blocks h' = hp_blocks h ++ owned ob" "\<forall>p \<in> dom (hp_blocks h'). p < hp_fresh h'" by blast+
  from owns_grow [OF ok(1) n(2-4), of "Some x"] have "owns (held owned L (S(x \<mapsto> ob))) h'" unfolding o .
  then show ?thesis using new(1) n(1) ok(2) by auto
qed

lemma failure_owns:
  assumes ok: "owns (held owned L S) h" and new: "oc_new C sz a h = (None, h')"
  shows "owns (held owned (L ++ gained h h') S) h'"
proof -
  have o: "held owned (L ++ gained h h') S = (held owned L S)(None := held owned L S None ++ gained h h')"
    by (intro held_eqI) auto
  from new_fails [OF new owns_fresh [OF ok]] have n: "hp_blocks h \<subseteq>\<^sub>m hp_blocks h'"
    "\<forall>p \<in> dom (hp_blocks h'). p < hp_fresh h'" by blast+
  have "hp_blocks h' = hp_blocks h ++ gained h h'"
  proof
    fix p
    show "hp_blocks h' p = (hp_blocks h ++ gained h h') p"
      using n(1) by (cases "hp_blocks h p") (auto simp: gained_def map_le_def map_add_def restrict_map_def dom_def split: option.splits)
  qed
  moreover have "dom (gained h h') \<inter> dom (hp_blocks h) = {}" by (auto simp: gained_def)
  ultimately show ?thesis unfolding o using owns_grow [OF ok _ _ n(2)] by blast
qed

lemma destroy_owns:
  assumes ok: "owns (held owned L S) h" "\<forall>ob \<in> ran S. good ob" and x: "S x = Some ob"
  shows "\<exists>h'. oc_destroy C ob h = Some h' \<and> owns (held owned L (S(x := None))) h' \<and> (\<forall>ob \<in> ran (S(x := None)). good ob)"
proof -
  have o: "held owned L (S(x := None)) = (held owned L S)(Some x := Map.empty)" by (intro held_eqI) auto
  have "good ob" using ok(2) x by (auto intro: ranI)
  moreover have "owned ob \<subseteq>\<^sub>m hp_blocks h" using owns_part [OF ok(1), of "Some x"] x by simp
  ultimately obtain h' where h': "oc_destroy C ob h = Some h'" "hp_blocks h' = hp_blocks h |` (- dom (owned ob))"
    "hp_fresh h' = hp_fresh h" using destroy_frees by blast
  have "owns (held owned L (S(x := None))) h'"
    unfolding o using x h' by (intro owns_shrink [OF ok(1)]) simp_all
  then show ?thesis using h'(1) ok(2) by (auto simp: ran_def)
qed

lemma object_step_owns:
  assumes ok: "owns (held owned L S) h" "\<forall>ob \<in> ran S. good ob"
  shows "\<exists>S' h'. object_step C op (S, h) = Some (S', h') \<and> owns (held owned (L ++ abandoned C op (S, h)) S') h' \<and>
    (\<forall>ob \<in> ran S'. good ob)"
proof (cases op)
  case (Construct x sz a)
  obtain r h' where r: "oc_new C sz a h = (r, h')" by (cases "oc_new C sz a h")
  show ?thesis
  proof (cases r)
    case None
    with r have "oc_new C sz a h = (None, h')" by simp
    with Construct ok failure_owns [OF ok(1) this] show ?thesis by (cases "S x") (auto simp: fun_upd_idem)
  next
    case (Some ob)
    then show ?thesis using Construct r ok construct_owns [OF ok, of x sz a ob h'] by (cases "S x") auto
  qed
next
  case (Destroy x)
  then show ?thesis using ok destroy_owns [OF ok, of x] by (cases "S x") auto
next
  case (Move_construct x y)
  show ?thesis
  proof (cases "S y = None \<or> S x \<noteq> None")
    case False
    then obtain b where b: "S y = Some b" "S x = None" "x \<noteq> y" by force
    obtain u v where uv: "oc_move C b = (u, v)" by (cases "oc_move C b")
    have "owned u = held owned L S (Some y)" "owned v = held owned L S (Some x)" "good u" "good v"
      using move_owns [OF uv] ok(2) b by (auto intro: ranI)
    from exchange_owns [OF ok b(3) this] show ?thesis using Move_construct b uv by auto
  qed (use Move_construct ok in \<open>auto split: option.splits\<close>)
next
  case (Move_assign x y)
  show ?thesis
  proof (cases "S x = None \<or> S y = None \<or> x = y")
    case False
    then obtain a b where b: "S x = Some a" "S y = Some b" "x \<noteq> y" by auto
    obtain u v where uv: "oc_assign C a b = (u, v)" by (cases "oc_assign C a b")
    have "good a" "good b" using ok(2) b by (auto intro: ranI)
    with exchange_owns [OF ok b(3), of u v] assign_owns [OF uv] show ?thesis using Move_assign b uv by auto
  qed (use Move_assign ok in \<open>auto split: option.splits\<close>)
next
  case (Swap x y)
  show ?thesis
  proof (cases "S x = None \<or> S y = None \<or> x = y")
    case False
    then obtain a b where b: "S x = Some a" "S y = Some b" "x \<noteq> y" by auto
    obtain u v where uv: "oc_swap C a b = (u, v)" by (cases "oc_swap C a b")
    have "good a" "good b" using ok(2) b by (auto intro: ranI)
    with exchange_owns [OF ok b(3), of u v] swap_owns [OF uv] show ?thesis using Swap b uv by auto
  qed (use Swap ok in \<open>auto split: option.splits\<close>)
qed

text \<open>No program over the class does anything undefined, and the heap is what its objects hold and
  what its failed constructions have left.\<close>

lemma object_run_owns:
  assumes "owns (held owned L S) h" "\<forall>ob \<in> ran S. good ob"
  shows "\<exists>S' h'. object_run C ops (S, h) = Some (S', h') \<and> owns (held owned (L ++ leaked C ops (S, h)) S') h'"
  using assms
proof (induction ops arbitrary: L S h)
  case (Cons op ops)
  from object_step_owns [OF Cons.prems, of op] obtain S1 h1 where
    1: "object_step C op (S, h) = Some (S1, h1)" "owns (held owned (L ++ abandoned C op (S, h)) S1) h1" "\<forall>ob \<in> ran S1. good ob"
    by blast
  from Cons.IH [OF 1(2,3)] 1(1) show ?case by simp
qed simp

lemma program_frees_all:
  "\<exists>S h. object_run C ops (Map.empty, \<lparr>hp_blocks = Map.empty, hp_fresh = n\<rparr>) = Some (S, h) \<and>
    (S = Map.empty \<longrightarrow> hp_blocks h = leaked C ops (Map.empty, \<lparr>hp_blocks = Map.empty, hp_fresh = n\<rparr>))"
proof -
  let ?h = "\<lparr>hp_blocks = Map.empty, hp_fresh = n\<rparr>"
  have "owns (held owned Map.empty Map.empty) ?h"
    by (auto simp: owns_def owns_at_def held_def split: option.splits)
  from object_run_owns [OF this, of ops] obtain S h where
    run: "object_run C ops (Map.empty, ?h) = Some (S, h)" "owns (held owned (leaked C ops (Map.empty, ?h)) S) h" by auto
  have "hp_blocks h = leaked C ops (Map.empty, ?h)" if "S = Map.empty"
    using owns_only [OF run(2), of None] that by (auto simp: held_def split: option.splits)
  with run(1) show ?thesis by blast
qed

end

definition owned_b :: "queue_b \<Rightarrow> nat \<rightharpoonup> nat \<times> nat" where
  "owned_b b = (case b_elements b of None \<Rightarrow> Map.empty | Some p \<Rightarrow> [p \<mapsto> (b_allocator b, unat (b_size b))])"

definition owned_b2 :: "nat \<Rightarrow> queue_b2 \<Rightarrow> nat \<rightharpoonup> nat \<times> nat" where
  "owned_b2 sizeof_T b = (case (b2_states b, b2_elements b) of
      (Some s, Some e) \<Rightarrow> [s \<mapsto> (b2_allocator b, unat (b2_size b)), e \<mapsto> (b2_allocator b, unat (b2_size b) * sizeof_T)]
    | _ \<Rightarrow> Map.empty)"

definition good_b2 :: "queue_b2 \<Rightarrow> bool" where
  "good_b2 b \<longleftrightarrow> (case (b2_states b, b2_elements b) of (Some s, Some e) \<Rightarrow> s \<noteq> e | (None, None) \<Rightarrow> True | _ \<Rightarrow> False)"

lemmas swap_defs = tickets_swap_def swap_relaxed_def Let_def

interpretation ob: owning_class "class_B sizeof_T can" owned_b "\<lambda>_. True" for sizeof_T can
proof (unfold_locales, goal_cases)
  case (1 n al h ob h')
  then show ?case
    by (auto simp: class_B_def AtomicQueueB_new_def allocate_def owned_b_def Let_def less_Suc_eq split: if_splits)
next
  case (2 n al h h')
  then show ?case
    by (auto simp: class_B_def AtomicQueueB_new_def allocate_def Let_def map_le_def less_Suc_eq split: if_splits)
next
  case (6 ob h)
  then show ?case
    by (auto simp: class_B_def AtomicQueueB_destroy_def deallocate_def owned_b_def map_le_def restrict_map_def fun_eq_iff
        split: option.splits)
qed (auto simp: class_B_def AtomicQueueB_move_def AtomicQueueB_swap_def AtomicQueueB_assign_def owned_b_def swap_defs
    split: option.splits)

interpretation ob2: owning_class "class_B2 sizeof_T can" "owned_b2 sizeof_T" good_b2 for sizeof_T can
proof (unfold_locales, goal_cases)
  case (1 n al h ob h')
  then have "hp_blocks h (hp_fresh h) = None" "hp_blocks h (Suc (hp_fresh h)) = None" by (meson domIff less_irrefl not_less_iff_gr_or_eq Suc_lessD)+
  with 1 show ?case
    by (auto simp: class_B2_def AtomicQueueB2_new_def allocate_def owned_b2_def good_b2_def Let_def less_Suc_eq split: if_splits)
next
  case (2 n al h h')
  then show ?case
    by (auto simp: class_B2_def AtomicQueueB2_new_def allocate_def Let_def map_le_def less_Suc_eq split: if_splits)
next
  case (6 ob h)
  then show ?case
    by (auto simp: class_B2_def AtomicQueueB2_destroy_def deallocate_def owned_b2_def good_b2_def map_le_def restrict_map_def
        fun_eq_iff split: option.splits)
qed (auto simp: class_B2_def AtomicQueueB2_move_def AtomicQueueB2_swap_def AtomicQueueB2_assign_def owned_b2_def good_b2_def
    swap_defs split: option.splits)

text \<open>\<open>AtomicQueueB\<close> abandons nothing, and \<open>AtomicQueueB2\<close> nothing while allocations succeed.\<close>

lemma leaked_nothing: "(\<And>op w. abandoned C op w = Map.empty) \<Longrightarrow> leaked C ops w = Map.empty"
  by (induction ops arbitrary: w) (auto split: option.splits)

lemma leaked_B: "leaked (class_B sizeof_T can) ops w = Map.empty"
proof (rule leaked_nothing)
  fix op w
  show "abandoned (class_B sizeof_T can) op w = Map.empty"
    by (cases w; cases op) (auto simp: class_B_def AtomicQueueB_new_def allocate_def gained_def Let_def restrict_map_def fun_eq_iff)
qed

lemma leaked_B2: "(\<And>n h. can n h) \<Longrightarrow> leaked (class_B2 sizeof_T can) ops w = Map.empty"
proof (rule leaked_nothing)
  fix op w assume "\<And>n h. can n h"
  then show "abandoned (class_B2 sizeof_T can) op w = Map.empty"
    by (cases w; cases op) (auto simp: class_B2_def AtomicQueueB2_new_def allocate_def Let_def)
qed

text \<open>C30: the queues that allocate their slots give every block back exactly once, whatever
  allocations fail. Any sequence of constructions, moves, swaps and destructions over named objects
  runs without giving back a block twice, with a wrong size or to a wrong allocator. When no object
  is left, no block of an \<open>AtomicQueueB\<close> is left either; the blocks left of \<open>AtomicQueueB2\<close> are
  exactly those that its failed constructions allocated, none when every allocation succeeds.\<close>

theorem blocks_freed_once:
  "(\<exists>S h. object_run (class_B sizeof_T can) ops (Map.empty, \<lparr>hp_blocks = Map.empty, hp_fresh = n\<rparr>) = Some (S, h) \<and>
      (S = Map.empty \<longrightarrow> hp_blocks h = Map.empty)) \<and>
   (\<exists>S h. object_run (class_B2 sizeof_T can) ops (Map.empty, \<lparr>hp_blocks = Map.empty, hp_fresh = n\<rparr>) = Some (S, h) \<and>
      (S = Map.empty \<longrightarrow>
        hp_blocks h = leaked (class_B2 sizeof_T can) ops (Map.empty, \<lparr>hp_blocks = Map.empty, hp_fresh = n\<rparr>) \<and>
        ((\<forall>m g. can m g) \<longrightarrow> hp_blocks h = Map.empty)))"
proof -
  let ?w = "(Map.empty, \<lparr>hp_blocks = Map.empty, hp_fresh = n\<rparr>)"
  have "leaked (class_B2 sizeof_T can) ops ?w = Map.empty" if "\<forall>m g. can m g" using leaked_B2 that by blast
  with ob.program_frees_all [where sizeof_T = sizeof_T and can = can and ops = ops and n = n]
    ob2.program_frees_all [where sizeof_T = sizeof_T and can = can and ops = ops and n = n] show ?thesis
    by (auto simp: leaked_B)
qed

theorem blocks_freed_once_witness:
  "\<exists>h. object_run (class_B2 32 (\<lambda>n _. n \<le> 4096 * 32)) [Construct 0 128 7, Construct 1 8192 7, Construct 2 5 7, Move_assign 2 0,
        Move_construct 1 2, Destroy 0, Destroy 1, Destroy 2]
      (Map.empty, \<lparr>hp_blocks = Map.empty, hp_fresh = 0\<rparr>) = Some (Map.empty, h) \<and> hp_blocks h = [2 \<mapsto> (7, 8192)]"
proof -
  let ?w = "(Map.empty, \<lparr>hp_blocks = Map.empty, hp_fresh = 0\<rparr>)"
  let ?C = "class_B2 32 (\<lambda>n _. n \<le> 4096 * 32)"
  let ?ops = "[Construct 0 128 7, Construct 1 8192 7, Construct 2 5 7, Move_assign 2 0, Move_construct 1 2, Destroy 0, Destroy 1,
    Destroy 2]"
  have sz: "round_up_to_power_of_2 128 = 128" "round_up_to_power_of_2 8192 = 8192" "round_up_to_power_of_2 5 = 8" by code_simp+
  note defs = class_B2_def AtomicQueueB2_new_def AtomicQueueB2_move_def AtomicQueueB2_assign_def AtomicQueueB2_swap_def
    AtomicQueueB2_destroy_def allocate_def deallocate_def swap_defs sz GetCacheLineIndexBits_def CACHE_LINE_SIZE_def
  have "map_option fst (object_run ?C ?ops ?w) = Some Map.empty" by (simp add: defs fun_eq_iff)
  moreover have "leaked ?C ?ops ?w = [2 \<mapsto> (7, 8192)]" by (simp add: defs gained_def restrict_map_def fun_eq_iff)
  ultimately show ?thesis using blocks_freed_once [of 32 "\<lambda>n _. n \<le> 4096 * 32" ?ops 0] by auto
qed

text \<open>A constructor of \<open>AtomicQueueB2\<close> whose second allocation fails leaves with the exception and
  without an object, but the block of the states stays allocated and nobody holds it.\<close>

theorem second_allocation_failure_leaks:
  assumes "AtomicQueueB2_new sizeof_T can sz a h = (None, h')" and "h' \<noteq> h"
  shows "\<exists>p n. hp_blocks h' = (hp_blocks h)(p \<mapsto> (a, n)) \<and> p = hp_fresh h \<and> 4096 \<le> n"
  using assms
  by (auto simp: AtomicQueueB2_new_def allocate_def Let_def GetCacheLineIndexBits_def CACHE_LINE_SIZE_def word_le_nat_alt max_def
      split: if_splits)

theorem second_allocation_failure_leaks_witness:
  "\<exists>h'. AtomicQueueB2_new 32 (\<lambda>n _. n \<le> 4096) 128 7 \<lparr>hp_blocks = Map.empty, hp_fresh = 0\<rparr> = (None, h') \<and>
     (\<exists>p n. hp_blocks h' = [p \<mapsto> (7, n)] \<and> p = 0 \<and> 4096 \<le> n)"
proof -
  let ?h = "\<lparr>hp_blocks = Map.empty, hp_fresh = 0\<rparr>"
  have "round_up_to_power_of_2 128 = 128" using round_up_128 by simp
  then have "AtomicQueueB2_new 32 (\<lambda>n _. n \<le> 4096) 128 7 ?h = (None, \<lparr>hp_blocks = [0 \<mapsto> (7, 4096)], hp_fresh = 1\<rparr>)"
    by (simp add: AtomicQueueB2_new_def allocate_def Let_def GetCacheLineIndexBits_def CACHE_LINE_SIZE_def)
  with second_allocation_failure_leaks [OF this] show ?thesis by simp
qed

subsection \<open>RetryDecorator\<close>

text \<open>
  \<^verbatim>\<open>push\<close> and \<^verbatim>\<open>pop\<close> of the decorator try until they succeed. Between two attempts other threads may
  change the queue: \<open>others k\<close> is what they do after attempt \<open>k\<close>. \<open>None\<close> is a call that never
  returns.
\<close>

partial_function (option) retry_push ::
  "('a \<Rightarrow> 'q \<Rightarrow> (bool \<times> 'q) option) \<Rightarrow> (nat \<Rightarrow> 'q \<Rightarrow> 'q) \<Rightarrow> nat \<Rightarrow> 'a \<Rightarrow> 'q \<Rightarrow> 'q option" where
  "retry_push tpush others k element q =
     (case tpush element q of None \<Rightarrow> None
      | Some (done, q) \<Rightarrow> if done then Some q else retry_push tpush others (k + 1) element (others k q))"

partial_function (option) retry_pop ::
  "('q \<Rightarrow> ('a option \<times> 'q) option) \<Rightarrow> (nat \<Rightarrow> 'q \<Rightarrow> 'q) \<Rightarrow> nat \<Rightarrow> 'q \<Rightarrow> ('a \<times> 'q) option" where
  "retry_pop tpop others k q =
     (case tpop q of None \<Rightarrow> None
      | Some (r, q) \<Rightarrow> (case r of Some element \<Rightarrow> Some (element, q) | None \<Rightarrow> retry_pop tpop others (k + 1) (others k q)))"

primrec meanwhile :: "(nat \<Rightarrow> 'q \<Rightarrow> 'q) \<Rightarrow> nat \<Rightarrow> nat \<Rightarrow> 'q \<Rightarrow> 'q" where
  "meanwhile others k 0 q = q"
| "meanwhile others k (Suc m) q = meanwhile others (k + 1) m (others k q)"

context thread_safe_queue
begin

lemma retry_push_returns:
  assumes "inv q" "ok x" "\<And>k q. inv q \<Longrightarrow> inv (others k q)" "length (items (meanwhile others k m q)) < cap"
  shows "\<exists>m q'. retry_push psh others k x q = Some q' \<and> inv q' \<and> items q' = items (meanwhile others k m q) @ [x]"
  using assms(1,4)
proof (induction m arbitrary: k q)
  case 0
  from push_room [OF 0(1) assms(2)] 0(2) obtain q' where "psh x q = Some (True, q')" "inv q'" "items q' = items q @ [x]" by auto
  then show ?case by (intro exI [of _ 0] exI [of _ q']) (simp add: retry_push.simps)
next
  case (Suc m)
  show ?case
  proof (cases "length (items q) < cap")
    case True
    from push_room [OF Suc.prems(1) assms(2) True] obtain q' where "psh x q = Some (True, q')" "inv q'" "items q' = items q @ [x]" by auto
    then show ?thesis by (intro exI [of _ 0] exI [of _ q']) (simp add: retry_push.simps)
  next
    case False
    then have "psh x q = Some (False, q)" using push_full [OF Suc.prems(1)] by simp
    moreover from Suc.IH [of "others k q" "k + 1"] Suc.prems assms(3) obtain m' q' where
      "retry_push psh others (k + 1) x (others k q) = Some q'" "inv q'" "items q' = items (meanwhile others (k + 1) m' (others k q)) @ [x]"
      by auto
    ultimately show ?thesis by (intro exI [of _ "Suc m'"] exI [of _ q']) (simp add: retry_push.simps [of psh others k])
  qed
qed

lemma retry_push_room:
  assumes "\<And>k q. inv q \<Longrightarrow> inv (oth k q)" "inv q" "retry_push psh oth k x q = Some r"
  shows "\<exists>m. length (items (meanwhile oth k m q)) < cap"
proof -
  have "tp = psh \<longrightarrow> o2 = oth \<longrightarrow> inv q \<longrightarrow> (\<exists>m. length (items (meanwhile oth k m q)) < cap)"
    if "retry_push tp o2 k x q = Some r" for tp o2 k q r
    using that
  proof (rule retry_push.raw_induct [where P = "\<lambda>tp o2 k x q r. tp = psh \<longrightarrow> o2 = oth \<longrightarrow> inv q \<longrightarrow>
        (\<exists>m. length (items (meanwhile oth k m q)) < cap)", rotated], intro impI, goal_cases)
    case (1 rp tp o2 k x q r)
    show ?case
    proof (cases "length (items q) < cap")
      case True
      then show ?thesis by (intro exI [of _ 0]) simp
    next
      case False
      then have "psh x q = Some (False, q)" using push_full [OF 1(6)] by simp
      with 1(2,4,5) have "rp psh oth (k + 1) x (oth k q) = Some r" by simp
      from 1(1) [OF this] assms(1) [OF 1(6), of k] obtain m where
        "length (items (meanwhile oth (k + 1) m (oth k q))) < cap" by blast
      then show ?thesis by (intro exI [of _ "Suc m"]) simp
    qed
  qed
  with assms(2,3) show ?thesis by blast
qed

lemma retry_pop_returns:
  assumes "inv q" "\<And>k q. inv q \<Longrightarrow> inv (others k q)" "items (meanwhile others k m q) \<noteq> []"
  shows "\<exists>m x q'. retry_pop pp others k q = Some (x, q') \<and> inv q' \<and> items (meanwhile others k m q) = x # items q'"
  using assms(1,3)
proof (induction m arbitrary: k q)
  case 0
  then obtain x xs where "items q = x # xs" by (cases "items q") auto
  with pop_item [OF 0(1) this] obtain q' where "pp q = Some (Some x, q')" "inv q'" "items q = x # items q'" by auto
  then show ?case by (intro exI [of _ 0] exI [of _ x] exI [of _ q']) (simp add: retry_pop.simps)
next
  case (Suc m)
  show ?case
  proof (cases "items q")
    case (Cons x xs)
    with pop_item [OF Suc.prems(1) this] obtain q' where "pp q = Some (Some x, q')" "inv q'" "items q = x # items q'" by auto
    then show ?thesis by (intro exI [of _ 0] exI [of _ x] exI [of _ q']) (simp add: retry_pop.simps)
  next
    case Nil
    then have "pp q = Some (None, q)" using pop_none [OF Suc.prems(1)] by simp
    moreover from Suc.IH [of "others k q" "k + 1"] Suc.prems assms(2) obtain m' x q' where
      "retry_pop pp others (k + 1) (others k q) = Some (x, q')" "inv q'" "items (meanwhile others (k + 1) m' (others k q)) = x # items q'"
      by auto
    ultimately show ?thesis by (intro exI [of _ "Suc m'"] exI [of _ x] exI [of _ q']) (simp add: retry_pop.simps [of pp others k])
  qed
qed

end

text \<open>The retrying \<open>push\<close> returns exactly when at some attempt the other threads have left room in
  the queue, and then it has put its element behind what was there; on a queue that stays full
  it never returns.\<close>

theorem retry_push_waits_for_room:
  assumes "string_queue_inv q" and "\<And>k q. string_queue_inv q \<Longrightarrow> string_queue_inv (others k q)"
  shows "if \<exists>m. length (string_queue_items (meanwhile others k m q)) < 128
    then \<exists>m q'. retry_push (try_push (AtomicQueueString mv)) others k x q = Some q' \<and>
      string_queue_items q' = string_queue_items (meanwhile others k m q) @ [x]
    else retry_push (try_push (AtomicQueueString mv)) others k x q = None"
proof (cases "\<exists>m. length (string_queue_items (meanwhile others k m q)) < 128")
  case True
  then obtain m where "length (string_queue_items (meanwhile others k m q)) < 128" ..
  from strq.retry_push_returns [OF assms(1) TrueI assms(2) this, of mv x] True show ?thesis by auto
next
  case False
  with strq.retry_push_room [where oth = others and mv = mv and k = k and x = x, OF assms(2,1)]
  have "retry_push (try_push (AtomicQueueString mv)) others k x q \<noteq> Some r" for r by blast
  then show ?thesis using False not_None_eq by auto
qed

theorem retry_push_waits_for_room_witness:
  "\<exists>q'. retry_push (try_push (AtomicQueueString (\<lambda>s. s))) (\<lambda>_ q. q) 0 ''a'' new_string_queue = Some q' \<and>
     string_queue_items q' = [''a'']"
proof -
  have m: "meanwhile (\<lambda>_ q. q) k m q = q" for k m and q :: "string state_cells queue_common" by (induction m arbitrary: k) auto
  show ?thesis
    using retry_push_waits_for_room [OF new_string_queue_inv, of "\<lambda>_ q. q" 0 "\<lambda>s. s" "''a''"]
    by (simp add: m new_string_queue_items)
qed

end
