(* ===== verification/Table_Invariant.thy ===== *)
theory Table_Invariant
  imports Turn_Rules
begin

text \<open>
  Every operation of the thread manager keeps the client table well formed, on the paths that
  end in an exception too. The table's id counter is followed along: it must not wrap, and it must
  not go back. With \<open>S\<close> the ids connected at some time and \<open>b\<close> the counter then, \<open>tab_at b S k\<close> says of a
  later state that the counter is between \<open>b\<close> and \<open>k\<close> and that whoever has joined since has an id of at
  least \<open>b\<close>.
\<close>

definition tab_at :: "int \<Rightarrow> int set \<Rightarrow> int \<Rightarrow> ('q, 'z) server_state_scheme \<Rightarrow> bool" where
  "tab_at b S k s \<longleftrightarrow> server_wf s \<and> b \<le> client_data_id s \<and> client_data_id s \<le> k \<and>
     (\<forall>c. Some c \<in> set (clients s) \<longrightarrow> cd_personal_id c \<in> S \<or> b \<le> cd_personal_id c)"

abbreviation tab_ok :: "int \<Rightarrow> ('q, 'z) server_state_scheme \<Rightarrow> bool" where
  "tab_ok \<equiv> tab_at 0 UNIV"

lemma tab_ok_def: "tab_ok k s \<longleftrightarrow> server_wf s \<and> client_data_id s \<le> k"
  by (auto simp: tab_at_def server_wf_def)

lemma connected_ID_iff: "i \<in> set (get_connected_IDs s) \<longleftrightarrow> (\<exists>c. Some c \<in> set (clients s) \<and> cd_personal_id c = i)"
  using connected_IDs_iff [of i s] get_client_ref_None_iff [of i s] by auto

named_theorems tab \<open>operations that keep the table well formed\<close>

lemma tab_ok_same: "same_table s t \<Longrightarrow> tab_at b S k s \<Longrightarrow> tab_at b S k t"
  using same_table_wf by (auto simp: tab_at_def same_table_def)

lemma tab_ok_fields [simp]:
  "tab_at b S k (emit e s) \<longleftrightarrow> tab_at b S k s" "tab_at b S k (emit_print x s) \<longleftrightarrow> tab_at b S k s"
  "tab_at b S k (close_fd fd s) \<longleftrightarrow> tab_at b S k s"
  "tab_at b S k (s\<lparr>sv_socket := n\<rparr>) \<longleftrightarrow> tab_at b S k s" "tab_at b S k (s\<lparr>server_done := stop\<rparr>) \<longleftrightarrow> tab_at b S k s"
  "tab_at b S k (t\<lparr>q_worker_to_listener := q\<rparr>) \<longleftrightarrow> tab_at b S k t"
  "tab_at b S k (t\<lparr>q_listener_to_worker := q\<rparr>) \<longleftrightarrow> tab_at b S k t"
  "tab_at b S k (t\<lparr>max_clients_per_thread := n\<rparr>) \<longleftrightarrow> tab_at b S k t"
  "tab_at b S k (t\<lparr>nr_of_launched_threads := n\<rparr>) \<longleftrightarrow> tab_at b S k t" "tab_at b S k (t\<lparr>worker_threads := ws\<rparr>) \<longleftrightarrow> tab_at b S k t"
  "tab_at b S k (set_worker i w t) \<longleftrightarrow> tab_at b S k t"
  by (simp_all add: tab_at_def server_wf_def)

lemma tab_ok_put:
  assumes "tab_at b S k s" "i < length (clients s)" "clients s ! i = Some c" "cd_personal_id d = cd_personal_id c"
  shows "tab_at b S k (put_client i d s)"
proof -
  have "Some c \<in> set (clients s)" using assms(2,3) by (metis nth_mem)
  with assms put_client_wf [of s i c d] show ?thesis by (auto simp: tab_at_def dest!: in_set_update)
qed

text \<open>Sequencing, with what a successful first part leaves.\<close>

lemma tab_bind [tab]:
  assumes "tab_at b S k (snd r)" "\<And>a s. tab_at b S k s \<Longrightarrow> tab_at b S k (snd (f a s))"
  shows "tab_at b S k (snd (bindE r f))"
  using assms by (intro bindE_preserves [where P = "tab_at b S k"]) auto

lemma tab_handle [tab]:
  assumes "tab_at b S k (snd r)" "\<And>e s. tab_at b S k s \<Longrightarrow> tab_at b S k (snd (h e s))"
  shows "tab_at b S k (snd (handleE r h))"
  using assms by (intro handleE_preserves [where P = "tab_at b S k"]) auto

lemma tab_bind_deref:
  assumes "tab_at b S k s"
    "\<And>c. (\<And>d. cd_personal_id d = cd_personal_id c \<Longrightarrow> tab_at b S k (put_client i d s)) \<Longrightarrow> tab_at b S k (snd (f c s))"
  shows "tab_at b S k (snd (bindE (liftE (deref i s) s) f))"
proof (cases "deref i s")
  case (Inr c)
  have "tab_at b S k (put_client i d s)" if "cd_personal_id d = cd_personal_id c" for d
    using tab_ok_put [OF assms(1)] deref_InrD [OF Inr] that by blast
  with assms(2) Inr show ?thesis by simp
qed (use assms(1) in simp)

subsection \<open>System calls and queues\<close>

interpretation tabw: steady "tab_at b S k" Q for b S k Q
  by unfold_locales (auto intro: tab_ok_put)

lemmas tab_steady [tab] = tabw.keep_calls tabw.keep_unicast tabw.keep_all_client_events
  tabw.keep_take_new_client tabw.keep_worker_init tabw.keep_worker_client_disconnect
  tabw.keep_listener_stdin tabw.keep_listener_init tabw.keep_accept_handlers

lemma tab_worker_push [tab]: "tab_at b S k s \<Longrightarrow> tab_at b S k (snd (worker_push os Q m fd s))"
  by (auto simp: worker_push_def Let_def intro: tab split: sum.splits)

subsection \<open>The worker\<close>

lemma tab_erase [tab]: "tab_at b S k s \<Longrightarrow> tab_at b S k (snd (erase_disconnected os Q cs w s))"
proof (induction cs arbitrary: w s)
  case (Cons c cs)
  show ?case
  proof (cases "get_client_ref (snd c) s")
    case (Some i)
    then show ?thesis
      using Cons.prems by (auto simp: Let_def intro!: tab tab_bind_deref Cons.IH)
  qed (use Cons.prems in simp)
qed simp

lemma tab_worker_queue [tab]:
  "tab_at b S k s \<Longrightarrow> tab_at b S k (snd (worker_process_listener_to_worker_q os Q em i fd s))"
  by (auto simp: worker_process_listener_to_worker_q_def Let_def intro!: tab split: sum.splits option.splits)

lemma tab_worker_iteration [tab]: "tab_at b S k s \<Longrightarrow> tab_at b S k (snd (worker_iteration os Q w s))"
  by (auto simp: worker_iteration_def Let_def intro!: tab split: sum.splits option.splits)

subsection \<open>The listener\<close>

lemma tab_assign [tab]: "tab_at b S k s \<Longrightarrow> tab_at b S k (snd (assign_client_to_worker os Q i sock cid fd s))"
  by (auto simp: assign_client_to_worker_def Let_def intro!: tab split: sum.splits)

lemma tab_add_to_worker [tab]: "tab_at b S k s \<Longrightarrow> tab_at b S k (snd (add_to_worker os Q i sock cid s))"
  by (auto simp: add_to_worker_def intro!: tab)

lemma tab_emplace [tab]: "tab_at b S k s \<Longrightarrow> tab_at b S k (snd (emplace_new_worker os sock cid i fd s))"
  by (auto simp: emplace_new_worker_def Let_def intro!: tab)

lemma tab_process_new_client [tab]: "tab_at b S k s \<Longrightarrow> tab_at b S k (snd (process_new_client os Q sock cid fd s))"
  by (auto simp: process_new_client_def Let_def intro!: tab split: prod.splits)

lemma tab_disconnect_client [tab]:
  assumes "tab_at b S k s"
  shows "tab_at b S k (snd (disconnect_client cid s))"
proof -
  have "client_data_id (snd (disconnect_client cid s)) = client_data_id s"
    "Some c \<in> set (clients (snd (disconnect_client cid s))) \<Longrightarrow> Some c \<in> set (clients s)" for c
    by (auto simp: disconnect_client_def Let_def dest!: in_set_update split: option.splits sum.splits)
  with assms disconnect_client_wf [of s cid] show ?thesis by (auto simp: tab_at_def)
qed

lemma tab_dispatch [tab]: "tab_at b S k s \<Longrightarrow> tab_at b S k (snd (dispatch_message Q msg wire ids s))"
  by (auto simp: dispatch_message_def dispatch_disconnect_def Let_def intro!: tab split: prod.splits option.splits)

lemma tab_listener_queue [tab]:
  "tab_at b S k s \<Longrightarrow> tab_at b S k (snd (listener_process_worker_to_listener_q os Q fd s))"
  by (auto simp: listener_process_worker_to_listener_q_def Let_def intro!: tab split: sum.splits option.splits)

lemma tab_place:
  assumes "tab_at b S k s" "k < INT_MAX"
  shows "tab_at b S (k + 1) (snd (place_client os Q sock s))"
proof (cases "occupied (clients s) < MAX_CLIENTS")
  case True
  have wf: "server_wf s" "client_data_id s < INT_MAX" using assms by (auto simp: tab_at_def)
  from place_client_room [OF wf(1) True wf(2), of os Q sock] obtain i c t where
    "place_client os Q sock s = (Inr (sock, client_data_id s), t)" "clients t = (clients s)[i := Some c]"
    "cd_personal_id c = client_data_id s" "server_wf t" "client_data_id t = client_data_id s + 1" by metis
  with assms show ?thesis by (auto simp: tab_at_def dest!: in_set_update)
next
  case False
  with assms occupied_le_length [of "clients s"] have "occupied (clients s) = length (clients s)"
    by (simp add: tab_at_def server_wf_def)
  then have "snd (place_client os Q sock s) = close_fd sock s" by (simp add: place_client_full)
  with assms show ?thesis by (simp add: tab_at_def server_wf_def)
qed

lemma tab_accept:
  assumes "tab_at b S k s" "k < INT_MAX"
  shows "tab_at b S (k + 1) (snd (accept_client os Q nb s))"
proof -
  have stay: "tab_at b S (k + 1) s" using assms(1) by (simp add: tab_at_def)
  with assms show ?thesis
    by (auto simp: accept_client_def Let_def intro!: tab_place split: prod.splits)
qed

lemma tab_mono: "tab_at b S k s \<Longrightarrow> k \<le> l \<Longrightarrow> tab_at b S l s"
  by (auto simp: tab_at_def)

lemma tab_listener_accept:
  assumes "tab_at b S k s" "k < INT_MAX"
  shows "tab_at b S (k + 1) (snd (listener_accept os Q fd s))"
proof -
  have "tab_at b S (k + 1) (snd (bindE (accept_client os Q True s) (\<lambda>(sock, cid) t.
      process_new_client os Q sock cid fd t)))"
    using tab_accept [OF assms] by (auto intro!: tab)
  then show ?thesis
    unfolding listener_accept_def
    by (rule tab_handle) (auto simp: accept_handlers_def intro!: tab split: failure.splits)
qed

lemma tab_when_event:
  assumes "tab_at b S k s" "k \<le> l" "\<And>s. tab_at b S k s \<Longrightarrow> tab_at b S l (snd (act s))"
  shows "tab_at b S l (snd (when_event em fd ret act s))"
  using assms tab_mono [OF assms(1,2)]
  by (auto simp: when_event_def liftE_def bindE_def split: sum.splits)

lemma tab_bind_step:
  assumes "tab_at b S k (snd r)" "k \<le> l" "\<And>a s. tab_at b S k s \<Longrightarrow> tab_at b S l (snd (f a s))"
  shows "tab_at b S l (snd (bindE r f))"
  using assms tab_mono [OF assms(1,2)] by (auto simp: bindE_def split: sum.splits prod.splits)

lemma tab_listener_events:
  assumes "tab_at b S k s" "k < INT_MAX"
  shows "tab_at b S (k + 1) (snd (listener_events os Q ret l s))"
proof -
  have queue: "tab_at b S k (snd (when_event em fd ret (listener_process_worker_to_listener_q os Q e) t))"
    and stdin: "tab_at b S k (snd (when_event em fd ret (listener_stdin os Q) t))"
    and accept: "tab_at b S (k + 1) (snd (when_event em fd ret (listener_accept os Q e) t))"
    if "tab_at b S k t" for em fd ret e and t :: "('a, 'b) manager_state_scheme"
    using that assms(2) by (auto intro!: tab_when_event [where k = k] tab tab_listener_accept)
  show ?thesis
    unfolding listener_events_def
    by (rule tab_bind_step [OF queue [OF assms(1)]], simp, rule tab_bind_step [OF stdin], assumption, simp,
        rule tab_bind, erule accept, simp)
qed

lemma tab_listener_iteration:
  assumes "tab_at b S k s" "k < INT_MAX"
  shows "tab_at b S (k + 1) (snd (listener_iteration os Q l s))"
  unfolding listener_iteration_def
  by (rule tab_bind_step [where k = k])
    (use assms in \<open>auto simp: Let_def intro!: tab tab_listener_events intro: tab_mono split: prod.splits\<close>)

end
