(* ===== verification/Chat_System.thy ===== *)
theory Chat_System
  imports Table_Invariant
begin

text \<open>
  The server as a whole: the listener and the workers take turns of their loops in any order.
  A turn is one step here; the code has no locks around the shared table, and the effects of
  turns that overlap are not modelled. Waiting for a thread to end (the join events) does not
  restrict the order of steps, so the relation allows more runs than the program has. A turn of
  the listener that ends in an exception ends its loop, while the workers go on; an exception of a
  worker ends the process.
\<close>

subsection \<open>What a worker keeps to itself\<close>

text \<open>
  The receive buffer keeps its size, so a read never goes past it, and the epoll manager
  stays usable.
\<close>

definition worker_ok :: "worker \<Rightarrow> bool" where
  "worker_ok w \<longleftrightarrow> frame_wf (wk_frame w) \<and> em_wf (wk_em w)"

definition yields :: "('a \<Rightarrow> bool) \<Rightarrow> ('e, 'a, 's) outcome \<Rightarrow> bool" where
  "yields P r \<longleftrightarrow> (\<forall>a s. r = (Inr a, s) \<longrightarrow> P a)"

lemma yields_simps [simp]: "yields P (Inl e, s)" "yields P (Inr a, s) \<longleftrightarrow> P a"
  by (simp_all add: yields_def)

lemma yields_bind:
  assumes "yields R r" "\<And>a s. R a \<Longrightarrow> yields P (f a s)"
  shows "yields P (bindE r f)"
  unfolding yields_def bindE_eq_Inr
proof (intro allI impI, elim exE conjE)
  fix b t a u
  assume "r = (Inr a, u)" "f a u = (Inr b, t)"
  with assms show "P b" by (auto simp: yields_def)
qed

lemma yields_bind_any: "(\<And>a s. yields P (f a s)) \<Longrightarrow> yields P (bindE r f)"
  by (rule yields_bind [of "\<lambda>_. True"]) (simp_all add: yields_def)

lemma worker_ok_fields [simp]:
  "worker_ok (w\<lparr>wk_msg := m\<rparr>) \<longleftrightarrow> worker_ok w" "worker_ok (w\<lparr>wk_clients := cs\<rparr>) \<longleftrightarrow> worker_ok w"
  "worker_ok (w\<lparr>wk_frame := f\<rparr>) \<longleftrightarrow> frame_wf f \<and> em_wf (wk_em w)"
  "worker_ok (w\<lparr>wk_em := em\<rparr>) \<longleftrightarrow> frame_wf (wk_frame w) \<and> em_wf em"
  by (simp_all add: worker_ok_def)

lemma receive_frame:
  assumes "recv_spec os" "frame_wf f"
  shows "yields (\<lambda>(len, f). frame_wf f) (server_receive_msg os f cid s)"
proof -
  have len: "mf_msg_len f = 512" using assms(2) by (simp add: frame_wf_def)
  have "length d \<le> 512" if "sys_recv os h fd 512 = (r, d, e)" for h fd r d e
    using assms(1) that by (fastforce simp: recv_spec_def)
  with assms(2) show ?thesis
    by (auto simp: server_receive_msg_def call_recv_def Let_def len split: sum.splits prod.splits)
qed

lemma client_output_ok: "worker_ok w \<Longrightarrow> yields worker_ok (client_output os Q ret fd r w s)"
  unfolding client_output_def
  by (auto intro!: yields_bind_any)

lemma client_events_ok:
  assumes "recv_spec os" "worker_ok w"
  shows "yields worker_ok (client_events os Q ret c w s)"
proof -
  have f: "frame_wf (wk_frame w)" "em_wf (wk_em w)" using assms(2) by (simp_all add: worker_ok_def)
  show ?thesis
    unfolding client_events_def Let_def
    apply (rule yields_bind_any)
    apply (split if_split, intro conjI impI)
     apply (rule yields_bind [OF receive_frame [OF assms(1) f(1)]])
     apply (use f in \<open>auto intro!: yields_bind_any client_output_ok split: option.splits\<close>) [1]
    apply (rule client_output_ok [OF assms(2)])
    done
qed

lemma all_client_events_ok:
  assumes "recv_spec os"
  shows "worker_ok w \<Longrightarrow> yields worker_ok (all_client_events os Q ret cs w s)"
  by (induction cs arbitrary: w s) (auto intro!: yields_bind client_events_ok assms)

lemma erase_ok:
  fixes s :: "('q, 'z) manager_state_scheme"
  shows "worker_ok w \<Longrightarrow> yields (\<lambda>(cs, w). worker_ok w) (erase_disconnected os Q cs w s)"
proof (induction cs arbitrary: w s)
  case (Cons c cs)
  have keep: "yields (\<lambda>(cs, w). worker_ok w) (bindE (erase_disconnected os Q cs w t)
      (\<lambda>(kept, w) s. (Inr (c # kept, w), s)))" for t :: "('q, 'z) manager_state_scheme"
    by (rule yields_bind [OF Cons.IH [OF Cons.prems]]) auto
  show ?case
    using Cons.prems
    by (auto simp: Let_def keep intro!: yields_bind_any [where r = "liftE _ _"]
        yields_bind_any [where r = "worker_push _ _ _ _ _"] Cons.IH split: option.splits)
qed simp

lemma worker_iteration_ok:
  fixes s :: "('q, 'z) manager_state_scheme"
  assumes os: "recv_spec os" "epoll_spec os" and w: "worker_ok w"
  shows "yields worker_ok (worker_iteration os Q w s)"
proof -
  have wait: "yields (\<lambda>(ret, em). em_wf em) (wait_events os (wk_em w) s)"
    using wait_events_wf [OF os(2)] w by (fastforce simp: yields_def worker_ok_def)
  have take: "yields worker_ok (take_new_client q v t)" if "worker_ok v" for q v and t :: "('q, 'z) manager_state_scheme"
    using that by (auto simp: take_new_client_def split: prod.splits)
  have last: "yields worker_ok (bindE (erase_disconnected os Q cs v t) (\<lambda>(kept, w) s.
      take_new_client q (w\<lparr>wk_clients := kept\<rparr>) s))"
    if "worker_ok v" for cs v q and t :: "('q, 'z) manager_state_scheme"
    by (rule yields_bind [OF erase_ok [OF that]]) (auto intro: take)
  have body: "yields worker_ok (bindE (all_client_events os Q ret cs v t) (\<lambda>w s.
      bindE (erase_disconnected os Q (wk_clients w) w s) (\<lambda>(kept, w) s.
        take_new_client q (w\<lparr>wk_clients := kept\<rparr>) s)))"
    if "worker_ok v" for ret cs v q and t :: "('q, 'z) manager_state_scheme"
    by (rule yields_bind [OF all_client_events_ok [OF os(1) that]]) (rule last)
  show ?thesis
    unfolding worker_iteration_def Let_def
    by (rule yields_bind [OF wait])
      (use w in \<open>auto simp: worker_ok_def intro!: yields_bind_any [where r = "liftE _ _"]
         yields_bind_any [where r = "if _ then _ else _"] body\<close>)
qed

lemma worker_init_ok:
  assumes "length je = MAX_EVENTS" "length jm = MAX_LEN"
  shows "yields worker_ok (worker_init os je jm fd cid i e l s)"
proof -
  have new: "yields em_wf (EpollManager_new os je s)"
    using assms(1) by (auto simp: EpollManager_new_def em_wf_def Let_def)
  show ?thesis
    unfolding worker_init_def
    by (rule yields_bind [OF new])
      (use assms(2) in \<open>auto simp: worker_ok_def frame_wf_def intro!: yields_bind_any\<close>)
qed

subsection \<open>Runs of the server\<close>

fun spawns :: "history \<Rightarrow> (int \<times> int \<times> int \<times> int \<times> int) list" where
  "spawns [] = []"
| "spawns (Ev_spawn_worker sock cid i e l # h) = (sock, cid, i, e, l) # spawns h"
| "spawns (_ # h) = spawns h"

lemma spawns_append [simp]: "spawns (h @ h') = spawns h @ spawns h'"
  by (induction h rule: spawns.induct) simp_all

record 'q system =
  sy_listener :: listener
  sy_listening :: bool
  sy_workers :: "worker list"
  sy_started :: nat
  sy_state :: "'q manager_state"

text \<open>
  The steps: a turn of the listener, its last turn, which ends in an exception that the handlers
  around the loop take, the start of a worker the listener launched (its buffer and event array hold
  anything), and a turn of a worker. The number says how many turns of the listener the step is.
\<close>

inductive sys_step :: "os \<Rightarrow> 'q queue_ops \<Rightarrow> nat \<Rightarrow> 'q system \<Rightarrow> 'q system \<Rightarrow> bool" for os Q where
  listener_turn: "sy_listening y \<Longrightarrow> \<not> check_is_done (sy_state y) \<Longrightarrow>
    listener_iteration os Q (sy_listener y) (sy_state y) = (Inr l, s) \<Longrightarrow>
    sys_step os Q 1 y (y\<lparr>sy_listener := l, sy_state := s\<rparr>)"
| listener_end: "sy_listening y \<Longrightarrow> \<not> check_is_done (sy_state y) \<Longrightarrow>
    listener_iteration os Q (sy_listener y) (sy_state y) = (Inl e, s) \<Longrightarrow>
    listener_handlers e (EpollManager_destroy (ls_em (sy_listener y)) s) = (Inr (), t) \<Longrightarrow>
    sys_step os Q 1 y (y\<lparr>sy_listening := False, sy_state := t\<rparr>)"
| worker_start: "sy_started y < length (spawns (hist (sy_state y))) \<Longrightarrow>
    spawns (hist (sy_state y)) ! sy_started y = (sock, cid, i, e, lev) \<Longrightarrow>
    length je = MAX_EVENTS \<Longrightarrow> length jm = MAX_LEN \<Longrightarrow>
    worker_init os je jm sock cid i e lev (sy_state y) = (Inr w, s) \<Longrightarrow>
    sys_step os Q 0 y (y\<lparr>sy_workers := sy_workers y @ [w], sy_started := Suc (sy_started y), sy_state := s\<rparr>)"
| worker_turn: "k < length (sy_workers y) \<Longrightarrow>
    worker_running (sy_workers y ! k) (sy_state y) \<Longrightarrow>
    worker_iteration os Q (sy_workers y ! k) (sy_state y) = (Inr w, s) \<Longrightarrow>
    sys_step os Q 0 y (y\<lparr>sy_workers := (sy_workers y)[k := w], sy_state := s\<rparr>)"

text \<open>The runs from one state to a later one, and the states a server that was set up can reach; both
  with the number of turns the listener takes.\<close>

inductive sys_run :: "os \<Rightarrow> 'q queue_ops \<Rightarrow> nat \<Rightarrow> 'q system \<Rightarrow> 'q system \<Rightarrow> bool" for os Q where
  stay: "sys_run os Q 0 y y"
| step: "sys_run os Q n y z \<Longrightarrow> sys_step os Q j z x \<Longrightarrow> sys_run os Q (n + j) y x"

inductive sys_boot :: "os \<Rightarrow> 'q queue_ops \<Rightarrow> 'q system \<Rightarrow> bool" for os Q where
  boot: "Server_local os addr (manager_start Q []) = (Inr (), s1) \<Longrightarrow>
    listen_connections os s1 = (Inr (), s2) \<Longrightarrow> length je = MAX_EVENTS \<Longrightarrow> listener_init os je s2 = (Inr l, s) \<Longrightarrow>
    sys_boot os Q \<lparr>sy_listener = l, sy_listening = True, sy_workers = [], sy_started = 0, sy_state = s\<rparr>"

definition sys_reach :: "os \<Rightarrow> 'q queue_ops \<Rightarrow> nat \<Rightarrow> 'q system \<Rightarrow> bool" where
  "sys_reach os Q n y \<longleftrightarrow> (\<exists>x. sys_boot os Q x \<and> sys_run os Q n x y)"

lemma sys_reach_boot: "sys_boot os Q y \<Longrightarrow> sys_reach os Q 0 y"
  unfolding sys_reach_def by (blast intro: sys_run.stay)

lemma sys_reach_step: "sys_reach os Q n y \<Longrightarrow> sys_step os Q j y z \<Longrightarrow> sys_reach os Q (n + j) z"
  unfolding sys_reach_def by (blast intro: sys_run.step)

lemma sys_reach_induct [consumes 1, case_names boot step]:
  assumes "sys_reach os Q n y" "\<And>y. sys_boot os Q y \<Longrightarrow> P 0 y"
    "\<And>n j y z. sys_reach os Q n y \<Longrightarrow> P n y \<Longrightarrow> sys_step os Q j y z \<Longrightarrow> P (n + j) z"
  shows "P n y"
proof -
  obtain x where x: "sys_boot os Q x" "sys_run os Q n x y" using assms(1) by (auto simp: sys_reach_def)
  from x(2,1) have "sys_reach os Q n y \<and> P n y"
    by (induction rule: sys_run.induct) (auto intro: assms(2,3) sys_reach_boot sys_reach_step)
  then show ?thesis by simp
qed

lemma sys_reach_run:
  assumes "sys_run os Q m y z" "sys_reach os Q n y"
  shows "sys_reach os Q (n + m) z"
  using assms by (induction rule: sys_run.induct) (auto simp: add.assoc [symmetric] intro: sys_reach_step)

text \<open>The exceptions the listener's handlers take leave the state alone, but for what they print.\<close>

lemma listener_handlers_prints:
  "listener_handlers e s = (Inr (), t) \<Longrightarrow> \<exists>x. t = emit_print x s"
  by (auto simp: listener_handlers_def split: failure.splits if_splits)

lemma manager_start_tab: "tab_ok 0 (manager_start Q h)"
proof -
  have "same_table (server_start h) (manager_start Q h)"
    by (simp add: same_table_def server_start_def)
  then show ?thesis using same_table_wf server_wf_start by (auto simp: tab_ok_def)
qed

lemma tab_setup:
  "tab_ok k s \<Longrightarrow> tab_ok k (snd (Server_local os addr s))"
  "tab_ok k s \<Longrightarrow> tab_ok k (snd (listen_connections os s))"
  by (auto simp: Server_local_def open_sv_socket_def listen_connections_def Let_def)

lemma sys_step_table:
  assumes "sys_step os Q j y z" "tab_at b S k (sy_state y)" "k + int j \<le> INT_MAX"
  shows "tab_at b S (k + int j) (sy_state z)"
  using assms
proof (cases rule: sys_step.cases)
  case (listener_turn l s)
  then show ?thesis using tab_listener_iteration [OF assms(2), of os Q "sy_listener y"] assms(3) by simp
next
  case (listener_end e s t)
  then have "tab_at b S (k + 1) s" using tab_listener_iteration [OF assms(2), of os Q "sy_listener y"] assms(3) by simp
  with listener_end show ?thesis
    using listener_handlers_prints [OF listener_end(6)] by (auto simp: EpollManager_destroy_def)
next
  case (worker_start sock cid i e lev je jm w s)
  then show ?thesis using tabw.keep_worker_init [OF assms(2), of os je jm sock cid i e lev] by simp
next
  case (worker_turn l w s)
  then show ?thesis using tab_worker_iteration [OF assms(2), of os Q "sy_workers y ! l"] by simp
qed

lemma sys_boot_table: "sys_boot os Q y \<Longrightarrow> tab_ok 0 (sy_state y)"
proof (induction rule: sys_boot.induct)
  case (boot addr s1 s2 je l s)
  have "tab_ok 0 s1" using tab_setup(1) [OF manager_start_tab, of os addr Q "[]"] boot(1) by simp
  then have "tab_ok 0 s2" using tab_setup(2) [of 0 s1 os] boot(2) by simp
  then show ?case using tabw.keep_listener_init [of 0 UNIV 0 s2 os je] boot(4) by simp
qed

lemma sys_run_table:
  "sys_run os Q m y z \<Longrightarrow> tab_at b S k (sy_state y) \<Longrightarrow> k + int m \<le> INT_MAX \<Longrightarrow> tab_at b S (k + int m) (sy_state z)"
proof (induction rule: sys_run.induct)
  case (step n y z j x)
  then show ?case using sys_step_table [OF step(2), of b S "k + int n"] by (simp add: add.assoc)
qed simp

lemma sys_reach_table: "sys_reach os Q n y \<Longrightarrow> int n \<le> INT_MAX \<Longrightarrow> tab_ok (int n) (sy_state y)"
  using sys_run_table [of os Q n _ y 0 UNIV 0] sys_boot_table by (fastforce simp: sys_reach_def)

lemma sys_reach_workers:
  assumes "recv_spec os" "epoll_spec os"
  shows "sys_reach os Q n y \<Longrightarrow> w \<in> set (sy_workers y) \<Longrightarrow> worker_ok w"
proof (induction arbitrary: w rule: sys_reach_induct)
  case (step n j y z)
  from step(2) show ?case
  proof (cases rule: sys_step.cases)
    case (worker_start sock cid i e lev je jm v s)
    then show ?thesis
      using worker_init_ok [OF worker_start(5,6), of os sock cid i e lev "sy_state y"] step(3,4) by auto
  next
    case (worker_turn k v s)
    then have "worker_ok (sy_workers y ! k)" using step(3) by simp
    with worker_turn show ?thesis
      using worker_iteration_ok [OF assms, of "sy_workers y ! k" Q "sy_state y"] step(3,4)
      by (auto dest: in_set_update)
  next
    case (listener_turn l s)
    then show ?thesis using step(3,4) by simp
  next
    case (listener_end e s t)
    then show ?thesis using step(3,4) by simp
  qed
qed (auto elim: sys_boot.cases)

subsection \<open>Properties of the whole server\<close>

text \<open>C12: in every run of the server, however the turns of the listener and of the workers are
  interleaved and whatever the kernel and the clients do, the client table stays consistent:
  the connection counter is the number of occupied slots, at most \<open>MAX_CLIENTS\<close>, and the connected
  ids are distinct. An id is never given out twice: from any state on the counter of ids does not go
  back, whoever joins later gets an id the counter had not reached, and so the id of a client that is
  gone belongs to nobody in any later state. The run may have as many listener turns as the id counter
  has values.\<close>

theorem table_consistent_in_every_run:
  assumes "sys_reach os Q n y" and "sys_run os Q m y z" and "int (n + m) \<le> INT_MAX"
  shows "server_wf (sy_state z) \<and> distinct (get_connected_IDs (sy_state z)) \<and>
    get_nr_of_connections (sy_state z) = int (length (get_connected_IDs (sy_state z))) \<and>
    length (get_connected_IDs (sy_state z)) \<le> MAX_CLIENTS \<and>
    (\<forall>i \<in> set (get_connected_IDs (sy_state y)). i < client_data_id (sy_state y)) \<and>
    client_data_id (sy_state y) \<le> client_data_id (sy_state z) \<and>
    (\<forall>i \<in> set (get_connected_IDs (sy_state z)). i \<in> set (get_connected_IDs (sy_state y)) \<or> client_data_id (sy_state y) \<le> i)"
proof -
  let ?S = "set (get_connected_IDs (sy_state y))" and ?b = "client_data_id (sy_state y)"
  have y: "tab_ok (int n) (sy_state y)" using sys_reach_table [OF assms(1)] assms(3) by simp
  then have "tab_at ?b ?S (int n) (sy_state y)" by (auto simp: tab_at_def connected_ID_iff)
  from sys_run_table [OF assms(2) this] assms(3) have z: "tab_at ?b ?S (int n + int m) (sy_state z)" by simp
  then have wf: "server_wf (sy_state z)" and u: "ids_unique (clients (sy_state z))" by (simp_all add: tab_at_def server_wf_def)
  have "length (get_connected_IDs (sy_state z)) \<le> 6"
    using distinct_connected_IDs [OF u] occupied_le_length [of "clients (sy_state z)"] wf
    by (simp add: server_wf_def)
  moreover have "\<forall>i \<in> ?S. i < ?b" using y by (auto simp: connected_ID_iff tab_ok_def server_wf_def)
  ultimately show ?thesis
    using wf z reg.ids_distinct [OF wf] reg.count_ids [OF wf] by (auto simp: tab_at_def connected_ID_iff)
qed

text \<open>
  A run: the server starts, one client connects, its worker starts, and the client asks for its
  registration. The kernel reports the listening socket 3 and the client's socket 21 as ready.
\<close>

definition arriving_os :: os where
  "arriving_os = quiet_os\<lparr>sys_epoll_wait := (\<lambda>h fd n. let e = take (nat n) [(3, 1), (21, 5)] in (int (length e), e)),
     sys_recv := (\<lambda>h fd len. let d = take (nat len)
         (get_concatenated_msg (empty_message\<lparr>sm_action := get_action INIT_REQ, sm_name := ''ann''\<rparr>))
       in (int (length d), d, EAGAIN))\<rparr>"

lemma arriving_os_specs: "recv_spec arriving_os" "epoll_spec arriving_os"
  by (auto simp: arriving_os_def recv_spec_def epoll_spec_def Let_def)

lemmas start_defs = Server_local_def open_sv_socket_def listen_connections_def listener_init_def
  closing_em_def EpollManager_new_def get_evfd_def add_monitored_fd_def get_sv_socket_def Let_def

lemma server_boots:
  fixes Q :: "'q queue_ops"
  shows
  "\<exists>l s. sys_reach arriving_os Q 0
      \<lparr>sy_listener = l, sy_listening = True, sy_workers = [], sy_started = 0, sy_state = s\<rparr> \<and>
    l = \<lparr>ls_em = \<lparr>epfd = 5, events = replicate 20 (0, 0)\<rparr>, ls_socket = 3, ls_evfd = 7\<rparr> \<and> sv_socket s = 3 \<and>
    \<not> check_is_done s \<and> clients s = replicate 6 None \<and> client_data_id s = 0 \<and> nr_of_launched_threads s = 0 \<and>
    worker_threads s = [None, None] \<and> spawns (hist s) = [] \<and> length (hist s) = 10"
proof -
  obtain s1 where s1: "Server_local arriving_os ''127.0.0.1'' (manager_start Q []) = (Inr (), s1)"
    "s1 = emit Ev_setup (emit Ev_setup (emit (Ev_socket 3) ((emit Ev_setup (manager_start Q []))\<lparr>sv_socket := 3\<rparr>)))"
    by (simp add: start_defs arriving_os_def quiet_os_def)
  obtain s2 where s2: "listen_connections arriving_os s1 = (Inr (), s2)" "s2 = emit Ev_setup s1"
    by (simp add: start_defs arriving_os_def quiet_os_def)
  obtain l s where l: "listener_init arriving_os (replicate 20 (0, 0)) s2 = (Inr l, s)"
    "l = \<lparr>ls_em = \<lparr>epfd = 5, events = replicate 20 (0, 0)\<rparr>, ls_socket = 3, ls_evfd = 7\<rparr>"
    "s = emit (Ev_epoll_add 5 7 EPOLLIN) (emit (Ev_epoll_add 5 3 EPOLLIN) (emit (Ev_epoll_add 5 0 EPOLLIN)
       (emit (Ev_eventfd 7) (emit (Ev_epoll_create 5) s2))))"
    using s1(2) s2(2) by (simp add: start_defs arriving_os_def quiet_os_def STDIN_FILENO_def)
  have "sys_boot arriving_os Q \<lparr>sy_listener = l, sy_listening = True, sy_workers = [], sy_started = 0, sy_state = s\<rparr>"
    using s1(1) s2(1) _ l(1) by (rule sys_boot.boot) simp
  from sys_reach_boot [OF this]
  show ?thesis using l s2 s1 by (auto simp: check_is_done_def)
qed

definition newcomer :: "('q, 'z) manager_state_scheme \<Rightarrow> bool" where
  "newcomer s \<longleftrightarrow> sv_socket s = 3 \<and> \<not> check_is_done s \<and> (\<exists>c. clients s = Some c # replicate 5 None \<and>
     cd_personal_id c = 0 \<and> cd_fd c = 21 \<and> cd_init_state c = INITIAL_STATE)"

lemma newcomer_IDs: "newcomer s \<Longrightarrow> get_connected_IDs s = [0]"
  by (auto simp: newcomer_def get_connected_IDs_def List.map_filter_simps numeral_eq_Suc)

lemma first_client_arrives:
  fixes Q :: "'q queue_ops"
  shows
  "\<exists>y. sys_reach arriving_os Q 1 y \<and> sy_started y = 0 \<and> sy_workers y = [] \<and>
     spawns (hist (sy_state y)) = [(21, 0, 0, 7, 7)] \<and> newcomer (sy_state y)"
proof -
  obtain l s where s: "sys_reach arriving_os Q 0
      \<lparr>sy_listener = l, sy_listening = True, sy_workers = [], sy_started = 0, sy_state = s\<rparr>" (is "sys_reach _ _ _ ?y")
    "l = \<lparr>ls_em = \<lparr>epfd = 5, events = replicate 20 (0, 0)\<rparr>, ls_socket = 3, ls_evfd = 7\<rparr>" "sv_socket s = 3"
    "\<not> check_is_done s" "clients s = replicate 6 None" "client_data_id s = 0" "nr_of_launched_threads s = 0"
    "worker_threads s = [None, None]" "spawns (hist s) = []" "length (hist s) = 10"
    using server_boots by blast
  have kernel: "sys_accept4 arriving_os h 3 = (10 + int (length h), EAGAIN)"
    "sys_epoll_wait arriving_os h 5 20 = (2, [(3, 1), (21, 5)])" "sys_eventfd arriving_os h = 7"
    "sys_fcntl_getfl arriving_os h fd = 0" "sys_fcntl_setfl arriving_os h fd fl = 0"
    "sys_random_color arriving_os h = 6" for h fd fl
    by (simp_all add: arriving_os_def quiet_os_def)
  have free: "find_index (\<lambda>c. c = None) (replicate 6 (None :: 'q client_data option)) = Some 0"
    by (simp add: numeral_eq_Suc)
  have filled: "(replicate 6 None)[0 := Some c] = Some c # replicate 5 None" for c :: "'q client_data"
    by (simp add: numeral_eq_Suc)
  obtain t where t: "listener_iteration arriving_os Q l s =
      (Inr (l\<lparr>ls_em := \<lparr>epfd = 5, events = (3, 1) # (21, 5) # replicate 18 (0, 0)\<rparr>\<rparr>), t)"
    "newcomer t" "spawns (hist t) = [(21, 0, 0, 7, 7)]"
    using s(2-10)
    by (simp add: listener_iteration_def listener_events_def when_event_def wait_events_def check_event_def
        event_matches_def EPOLLIN_def STDIN_FILENO_def listener_accept_def accept_client_def place_client_def
        Client_Data_new_def getRandomColorID_def process_new_client_def emplace_new_worker_def get_evfd_def
        worker_at_def worker_val_def set_worker_def newcomer_def check_is_done_def free filled kernel Let_def)
  show ?thesis
    using sys_reach_step [OF s(1) sys_step.listener_turn [of ?y, simplified]] t s(4) by fastforce
qed

lemma first_worker_runs:
  fixes Q :: "'q queue_ops"
  shows
  "\<exists>y w. sys_reach arriving_os Q 1 y \<and> sy_workers y = [w] \<and> newcomer (sy_state y) \<and>
     w = \<lparr>wk_em = \<lparr>epfd = 5, events = replicate 20 (0, 0)\<rparr>, wk_clients = [(21, 0)],
       wk_frame = \<lparr>mf_msg = replicate 512 (CHR 0x00), mf_msg_len = 512\<rparr>, wk_msg = empty_message,
       wk_index = 0, wk_evfd = 7, wk_listener_evfd = 7\<rparr>"
proof -
  obtain y where y: "sys_reach arriving_os Q 1 y" "sy_started y = 0" "sy_workers y = []"
    "spawns (hist (sy_state y)) = [(21, 0, 0, 7, 7)]" "newcomer (sy_state y)"
    using first_client_arrives by blast
  have kernel: "sys_epoll_create1 arriving_os h = 5"
    "sys_epoll_ctl_add arriving_os h ep fd ev = (if fd < 0 then - 1 else 0)" for h ep fd ev
    by (simp_all add: arriving_os_def quiet_os_def)
  obtain w t where w: "worker_init arriving_os (replicate 20 (0, 0)) (replicate 512 (CHR 0x00)) 21 0 0 7 7 (sy_state y)
      = (Inr w, t)" "newcomer t" "w = \<lparr>wk_em = \<lparr>epfd = 5, events = replicate 20 (0, 0)\<rparr>, wk_clients = [(21, 0)],
       wk_frame = \<lparr>mf_msg = replicate 512 (CHR 0x00), mf_msg_len = 512\<rparr>, wk_msg = empty_message,
       wk_index = 0, wk_evfd = 7, wk_listener_evfd = 7\<rparr>"
    using y(5) by (simp add: worker_init_def EpollManager_new_def add_monitored_fd_def kernel
        newcomer_def check_is_done_def Let_def)
  show ?thesis
    using sys_reach_step [OF y(1) sys_step.worker_start [of y 21 0 0 7 7 "replicate 20 (0, 0)" "replicate 512 (CHR 0x00)" arriving_os w t]]
      y(2-4) w by fastforce
qed

theorem table_consistent_in_every_run_witness:
  "\<exists>x y. sys_reach arriving_os list_queue 0 x \<and> sys_run arriving_os list_queue 1 x y \<and>
     get_connected_IDs (sy_state y) = [0] \<and> get_nr_of_connections (sy_state y) = 1 \<and>
     0 \<notin> set (get_connected_IDs (sy_state x)) \<and> client_data_id (sy_state x) \<le> 0"
proof -
  obtain y where y: "sys_reach arriving_os list_queue 1 y" "get_connected_IDs (sy_state y) = [0]"
    using first_worker_runs newcomer_IDs by blast
  then obtain x where x: "sys_boot arriving_os list_queue x" "sys_run arriving_os list_queue 1 x y"
    by (auto simp: sys_reach_def)
  have "clients (sy_state x) = replicate 6 None"
    using x(1) by (auto elim!: sys_boot.cases simp: start_defs split: if_splits)
  then have "get_connected_IDs (sy_state x) = []" by (simp add: get_connected_IDs_def List.map_filter_simps numeral_eq_Suc)
  then have "get_nr_of_connections (sy_state y) = 1 \<and> client_data_id (sy_state x) \<le> 0"
    using table_consistent_in_every_run [OF sys_reach_boot [OF x(1)] x(2)] y(2) by (auto simp: INT_MAX_def)
  with \<open>get_connected_IDs (sy_state x) = []\<close> y(2) x sys_reach_boot [OF x(1)] show ?thesis
    by (intro exI [of _ x] exI [of _ y]) simp
qed

end
