(* ===== verification/Ownership.thy ===== *)
theory Ownership
  imports Chat_System Server_Queue "HOL-Library.Multiset"
begin

text \<open>
  Who is responsible for a connected client. Its descriptor and id are, at any moment, in one
  place only: in the arguments of a worker that was launched and has not started, in the queue
  of assignments, in the list of a worker, or in a farewell on its way to the listener. The
  invariant is kept by every turn, so that no client is served twice and no worker looks up a
  client that is gone.
\<close>

subsection \<open>Descriptors and ids on their way\<close>

definition assigned :: "string \<Rightarrow> (int \<times> int) option" where
  "assigned text = (case construct_from_string text empty_message of
       Inl _ \<Rightarrow> None
     | Inr m \<Rightarrow> if sm_action m \<noteq> get_action ACCEPT then None
         else case stoi (sm_fd m) of Inl _ \<Rightarrow> None
            | Inr fd \<Rightarrow> (case stoi (sm_id m) of Inl _ \<Rightarrow> None | Inr cid \<Rightarrow> Some (fd, cid)))"

definition departing :: "string \<Rightarrow> int option" where
  "departing text = (case construct_from_string text empty_message of
       Inl _ \<Rightarrow> None
     | Inr m \<Rightarrow> if sm_action m \<noteq> get_action CL_DISCONNECTED then None
         else case stoi (sm_id m) of Inl _ \<Rightarrow> None | Inr cid \<Rightarrow> Some cid)"

definition assignments :: "string list \<Rightarrow> (int \<times> int) multiset" where
  "assignments xs = mset (List.map_filter assigned xs)"

definition leaving :: "string list \<Rightarrow> int multiset" where
  "leaving xs = mset (List.map_filter departing xs)"

text \<open>The descriptor and id of every occupied slot.\<close>

definition slots :: "('q, 'z) server_state_scheme \<Rightarrow> (int \<times> int) option list" where
  "slots s = map (map_option (\<lambda>c. (cd_fd c, cd_personal_id c))) (clients s)"

text \<open>
  The invariant, for the descriptors and ids that somebody holds and the ids that are leaving:
  each of them is in the table, and no id occurs twice. The pair of a refused connection is
  in no slot.
\<close>

definition refused :: "int \<times> int" where
  "refused = (- 1, - 1)"

definition once :: "int multiset \<Rightarrow> bool" where
  "once M \<longleftrightarrow> (\<forall>i \<ge> 0. count M i \<le> 1)"

definition owned :: "(int \<times> int) multiset \<Rightarrow> int multiset \<Rightarrow> (int \<times> int) option list \<Rightarrow> bool" where
  "owned P L S \<longleftrightarrow> (\<forall>p \<in># P. p = refused \<or> Some p \<in> set S) \<and>
     (\<forall>i \<in># L. \<exists>fd. Some (fd, i) \<in> set S) \<and>
     once (image_mset snd P + L)"

lemma map_filter_snoc [simp]:
  "List.map_filter f (xs @ ys) = List.map_filter f xs @ List.map_filter f ys"
  by (induction xs) (simp_all add: List.map_filter_simps split: option.splits)

lemma assignments_simps [simp]:
  "assignments [] = {#}" "assignments (xs @ ys) = assignments xs + assignments ys"
  "assigned x = None \<Longrightarrow> assignments (x # xs) = assignments xs"
  "assigned x = Some p \<Longrightarrow> assignments (x # xs) = add_mset p (assignments xs)"
  by (simp_all add: assignments_def List.map_filter_simps)

lemma leaving_simps [simp]:
  "leaving [] = {#}" "leaving (xs @ ys) = leaving xs + leaving ys"
  "departing x = None \<Longrightarrow> leaving (x # xs) = leaving xs"
  "departing x = Some i \<Longrightarrow> leaving (x # xs) = add_mset i (leaving xs)"
  by (simp_all add: leaving_def List.map_filter_simps)

lemma actions_differ:
  "get_action a = get_action b \<longleftrightarrow> a = b"
  by (cases a; cases b) simp_all

lemma assigned_accept:
  "assigned (get_concatenated_msg (accept_message i fd cid)) \<in> {None, Some (fd, cid)}"
  by (auto simp: assigned_def construct_of_concatenated accept_message_def
      dest: stoi_to_string_InrD split: sum.splits)

lemma departing_other: "sm_action m \<noteq> get_action CL_DISCONNECTED \<Longrightarrow> departing (get_concatenated_msg m) = None"
  by (auto simp: departing_def construct_of_concatenated)

lemma once_mono: "once M \<Longrightarrow> N \<subseteq># M \<Longrightarrow> once N"
  unfolding once_def by (meson mset_subset_eq_count order_trans)

lemma once_add:
  assumes "0 \<le> i"
  shows "once (add_mset i M) \<longleftrightarrow> once M \<and> i \<notin># M"
proof
  assume M: "once (add_mset i M)"
  have "once M" using M by (rule once_mono) simp
  moreover have "count (add_mset i M) i \<le> 1" using assms M unfolding once_def by blast
  ultimately show "once M \<and> i \<notin># M" by (simp add: not_in_iff)
next
  assume "once M \<and> i \<notin># M"
  then show "once (add_mset i M)" by (simp add: once_def not_in_iff)
qed

lemma owned_less:
  assumes "owned P L S" "P' \<subseteq># P" "L' \<subseteq># L"
  shows "owned P' L' S"
proof -
  have "image_mset snd P' + L' \<subseteq># image_mset snd P + L"
    using assms(2,3) by (intro subset_mset.add_mono image_mset_subseteq_mono)
  with assms show ?thesis
    unfolding owned_def by (meson mset_subset_eqD once_mono)
qed

lemma owned_leave:
  assumes "owned (add_mset (fd, i) P) L S" "Some (fd, i) \<in> set S"
  shows "owned P (add_mset i L) S"
  using assms by (auto simp: owned_def)

lemma owned_remove:
  assumes "owned P (add_mset i L) S" "0 \<le> i" "\<And>p. Some p \<in> set S \<Longrightarrow> snd p \<noteq> i \<Longrightarrow> Some p \<in> set S'"
  shows "owned P L S'"
proof -
  have o: "once (image_mset snd P + L)" "i \<notin># image_mset snd P" "i \<notin># L"
    using assms(1,2) by (simp_all add: owned_def once_add)
  have P: "p = refused \<or> Some p \<in> set S'" if "p \<in># P" for p
    using assms(1,3) that o(2) by (fastforce simp: owned_def)
  have L: "\<exists>fd. Some (fd, j) \<in> set S'" if "j \<in># L" for j
    using assms(1) assms(3) [of "(_, j)"] that o(3) by (fastforce simp: owned_def)
  from o(1) P L show ?thesis by (simp add: owned_def)
qed

lemma owned_grow:
  assumes "owned P L S" "\<And>p. Some p \<in> set S \<Longrightarrow> Some p \<in> set S'"
  shows "owned P L S'"
  using assms by (fastforce simp: owned_def)

lemma owned_enter:
  assumes "owned P L S" "\<And>p. Some p \<in> set S \<Longrightarrow> snd p \<noteq> i \<and> Some p \<in> set S'"
    "Some (fd, i) \<in> set S'" "0 \<le> i"
  shows "owned (add_mset (fd, i) P) L S'"
proof -
  have "i \<notin># image_mset snd P" "i \<notin># L"
    using assms(1,4) assms(2) [of "(_, i)"] by (fastforce simp: owned_def refused_def)+
  with assms(3,4) owned_grow [OF assms(1), of S'] assms(2) show ?thesis
    by (simp add: owned_def once_add)
qed

lemma owned_refused: "owned P L S \<Longrightarrow> owned (add_mset refused P) L S"
  by (simp add: owned_def refused_def once_def)

lemma owned_in_table:
  assumes "owned P L S" "p \<in># P" "0 \<le> fst p"
  shows "Some p \<in> set S"
  using assms by (auto simp: owned_def refused_def)

subsection \<open>The invariant on the state\<close>

definition launched :: "nat \<Rightarrow> history \<Rightarrow> (int \<times> int) multiset" where
  "launched n h = mset (map (\<lambda>(sock, cid, _). (sock, cid)) (drop n (spawns h)))"

text \<open>\<open>H\<close> is what the running workers hold, \<open>n\<close> the number of workers that have started.\<close>

definition held ::
  "('q \<Rightarrow> bool) \<Rightarrow> ('q \<Rightarrow> string list) \<Rightarrow> (int \<times> int) multiset \<Rightarrow> nat \<Rightarrow> ('q, 'z) manager_state_scheme \<Rightarrow> bool" where
  "held ok items H n s \<longleftrightarrow> ok (q_listener_to_worker s) \<and> ok (q_worker_to_listener s) \<and>
     owned (H + launched n (hist s) + assignments (items (q_listener_to_worker s)))
       (leaving (items (q_worker_to_listener s))) (slots s)"

lemma held_less: "held ok items H n s \<Longrightarrow> H' \<subseteq># H \<Longrightarrow> held ok items H' n s"
  unfolding held_def by (auto elim!: owned_less simp: subset_mset.add_mono)

lemma held_in_table: "held ok items H n s \<Longrightarrow> p \<in># H \<Longrightarrow> 0 \<le> fst p \<Longrightarrow> Some p \<in> set (slots s)"
  unfolding held_def by (auto elim: owned_in_table)

lemma spawns_other: "(\<And>a b c d f. e \<noteq> Ev_spawn_worker a b c d f) \<Longrightarrow> spawns [e] = []"
  by (cases e) fastforce+

lemma slots_put:
  "i < length (clients s) \<Longrightarrow> clients s ! i = Some c \<Longrightarrow> cd_personal_id d = cd_personal_id c \<Longrightarrow>
   cd_fd d = cd_fd c \<Longrightarrow> slots (put_client i d s) = slots s"
  by (simp add: slots_def map_update list_update_same_conv)

lemma slots_fields [simp]:
  "slots (emit e s) = slots s" "slots (emit_print x s) = slots s" "slots (s\<lparr>hist := h\<rparr>) = slots s"
  "slots (s\<lparr>server_done := b\<rparr>) = slots s"
  "slots (t\<lparr>q_worker_to_listener := q\<rparr>) = slots t" "slots (t\<lparr>q_listener_to_worker := q\<rparr>) = slots t"
  "slots (t\<lparr>worker_threads := ws\<rparr>) = slots t" "slots (t\<lparr>nr_of_launched_threads := m\<rparr>) = slots t"
  "slots (t\<lparr>max_clients_per_thread := m\<rparr>) = slots t"
  by (simp_all add: slots_def)

lemma in_slots_ref:
  assumes "Some (fd, cid) \<in> set (slots s)"
  obtains i where "get_client_ref cid s = Some i"
proof -
  from assms obtain c where "Some c \<in> set (clients s)" "cd_personal_id c = cid"
    by (auto simp: slots_def map_option_case split: option.splits)
  then have "get_client_ref cid s \<noteq> None" by (auto simp: get_client_ref_None_iff)
  then show thesis using that by auto
qed

context server_queue
begin

lemma held_push:
  assumes "held inv items H n s" "queue_push Q x (q_worker_to_listener s) = Inr (b, q)" "departing x = None"
  shows "held inv items H n (s\<lparr>q_worker_to_listener := q\<rparr>)"
proof -
  have i: "inv (q_worker_to_listener s)" using assms(1) by (simp add: held_def)
  show ?thesis by (rule push_cases [OF i, of x]) (use assms in \<open>auto simp: held_def\<close>)
qed

end

sublocale server_queue \<subseteq> own: steady "held inv items H n" Q for H n
proof
  show "held inv items H n s \<Longrightarrow> sm_action m \<noteq> get_action CL_DISCONNECTED \<Longrightarrow>
    queue_push Q (get_concatenated_msg m) (q_worker_to_listener s) = Inr (b, q) \<Longrightarrow>
    held inv items H n (s\<lparr>q_worker_to_listener := q\<rparr>)" for H n s m b q
    by (rule held_push) (auto simp: departing_other)
  show "held inv items H n s \<Longrightarrow> (\<And>a b c d f. e \<noteq> Ev_spawn_worker a b c d f) \<Longrightarrow> held inv items H n (emit e s)" for H n s e
    by (simp add: held_def launched_def spawns_other)
qed (auto simp: held_def slots_put)

subsection \<open>A worker's turn\<close>

lemma clients_list_kept:
  fixes s :: "('q, 'z) manager_state_scheme"
  shows "yields (\<lambda>v. wk_clients v = wk_clients w) (client_output os Q ret fd r w s)"
    and "yields (\<lambda>v. wk_clients v = wk_clients w) (client_events os Q ret c w s)"
    and "yields (\<lambda>v. wk_clients v = wk_clients w) (all_client_events os Q ret cs w s)"
proof -
  show out: "yields (\<lambda>v. wk_clients v = wk_clients w) (client_output os Q ret fd r w s)" for fd r w and s :: "('q, 'z) manager_state_scheme"
    unfolding client_output_def by (auto intro!: yields_bind_any)
  have out': "yields (\<lambda>v. wk_clients v = cs) (client_output os Q ret fd r w s)" if "wk_clients w = cs" for fd r w cs and s :: "('q, 'z) manager_state_scheme"
    using out [of w fd r s] that by simp
  show ev: "yields (\<lambda>v. wk_clients v = wk_clients w) (client_events os Q ret c w s)" for w c and s :: "('q, 'z) manager_state_scheme"
    unfolding client_events_def Let_def
    by (auto intro!: yields_bind_any out' split: option.splits)
  show "yields (\<lambda>v. wk_clients v = wk_clients w) (all_client_events os Q ret cs w s)" for s :: "('q, 'z) manager_state_scheme"
  proof (induction cs arbitrary: w s)
    case (Cons c cs)
    show ?case
      by (simp, rule yields_bind [OF ev]) (metis Cons.IH)
  qed simp
qed

text \<open>The course of a turn that ends without an exception.\<close>

lemma worker_turnE:
  assumes "worker_iteration os Q w s = (Inr v, t)"
  obtains ret em where "wait_events os (wk_em w) s = (Inr (ret, em), t)" "v = w\<lparr>wk_em := em\<rparr>"
  | ret em s1 woken a sock cid s2 w1 s3 kept w2 s4 where
    "wait_events os (wk_em w) s = (Inr (ret, em), s1)"
    "(if woken then worker_process_listener_to_worker_q os Q em (wk_index w) (wk_evfd w) s1
      else (Inr (- 1, - 1, - 1), s1)) = (Inr (a, sock, cid), s2)"
    "all_client_events os Q ret (wk_clients w) (w\<lparr>wk_em := em\<rparr>) s2 = (Inr w1, s3)"
    "erase_disconnected os Q (wk_clients w1) w1 s3 = (Inr (kept, w2), s4)"
    "take_new_client (a, sock, cid) (w2\<lparr>wk_clients := kept\<rparr>) s4 = (Inr v, t)"
proof -
  from assms obtain ret em s1 where w: "wait_events os (wk_em w) s = (Inr (ret, em), s1)"
    by (auto simp: worker_iteration_def elim!: bindE_InrE)
  show thesis
  proof (cases "ret \<le> 0")
    case True
    with assms w that(1) show thesis by (simp add: worker_iteration_def)
  next
    case False
    with assms w obtain woken a sock cid s2 w1 s3 kept w2 s4 where
      "(if woken then worker_process_listener_to_worker_q os Q em (wk_index w) (wk_evfd w) s1
        else (Inr (- 1, - 1, - 1), s1)) = (Inr (a, sock, cid), s2)"
      "all_client_events os Q ret (wk_clients w) (w\<lparr>wk_em := em\<rparr>) s2 = (Inr w1, s3)"
      "erase_disconnected os Q (wk_clients w1) w1 s3 = (Inr (kept, w2), s4)"
      "take_new_client (a, sock, cid) (w2\<lparr>wk_clients := kept\<rparr>) s4 = (Inr v, t)"
      by (auto simp: worker_iteration_def Let_def liftE_eq_Inr simp del: if_split cong: if_cong elim!: bindE_InrE)
    with w that(2) show thesis by blast
  qed
qed

context server_queue
begin

lemma held_pop:
  assumes "held inv items H n s" "queue_pop Q (q_listener_to_worker s) = Inr (x, q)"
  shows "held inv items (case Option.bind x assigned of None \<Rightarrow> H | Some p \<Rightarrow> add_mset p H) n
    (s\<lparr>q_listener_to_worker := q\<rparr>)"
proof -
  have i: "inv (q_listener_to_worker s)" using assms(1) by (simp add: held_def)
  show ?thesis
  proof (cases rule: pop_cases [OF i])
    case (1 y xs q')
    then show ?thesis
      using assms by (cases "assigned y") (auto simp: held_def ac_simps)
  qed (use assms in \<open>auto simp: held_def\<close>)
qed

lemma held_put_back:
  assumes "held inv items H n s" "queue_push Q x (q_listener_to_worker s) = Inr (b, q)"
    "assigned x = None \<or> (\<exists>p. assigned x = Some p \<and> p \<in># H)"
  shows "held inv items (case assigned x of None \<Rightarrow> H | Some p \<Rightarrow> H - {#p#}) n (s\<lparr>q_listener_to_worker := q\<rparr>)"
proof -
  have i: "inv (q_listener_to_worker s)" using assms(1) by (simp add: held_def)
  have less: "held inv items (case assigned x of None \<Rightarrow> H | Some p \<Rightarrow> H - {#p#}) n s"
    using assms(1) by (rule held_less) (auto split: option.splits)
  show ?thesis
  proof (cases rule: push_cases [OF i, of x])
    case (1 q')
    then show ?thesis
      using assms by (auto simp: held_def ac_simps)
  next
    case 2
    with assms(2) less show ?thesis by (auto simp: held_def)
  qed
qed

lemma held_monitored:
  "add_monitored_fd os em ep s = (r, t) \<Longrightarrow> held inv items H n s \<Longrightarrow> held inv items H n t"
  using own.keep_calls(6) [of H n s os em ep] by simp

lemma held_rest: "held inv items (add_mset p H) n s \<Longrightarrow> held inv items H n s"
  by (erule held_less) simp

lemma held_take:
  assumes "held inv items H n s"
    "worker_process_listener_to_worker_q os Q em i fd s = (Inr (a, sock, cid), t)"
  shows "held inv items (if a = int (action_index ACCEPT) then add_mset (sock, cid) H else H) n t"
  using assms(2)
  unfolding worker_process_listener_to_worker_q_def
  apply (elim bindE_InrE)
  subgoal premises prems for woken u
  proof -
    have u: "held inv items H n u" using own.keep_calls(4) [OF assms(1)] prems(1) by (metis snd_conv)
    note pop = held_pop [OF u]
    show ?thesis
      using prems(2) u
      apply (auto simp: Let_def liftE_eq_Inr split: if_splits sum.splits option.splits dest!: pop elim!: bindE_InrE)
          apply (auto simp: assigned_def intro: held_rest held_monitored split: if_splits sum.splits dest: held_put_back)
      done
  qed
  done

lemma held_farewell:
  assumes "held inv items (add_mset p H) n s" "0 \<le> fst p" "sm_id m = to_string (snd p)"
    "worker_push os Q m fd s = (Inr (), t)"
  shows "held inv items H n t"
proof -
  have i: "inv (q_worker_to_listener s)" using assms(1) by (simp add: held_def)
  have p: "Some p \<in> set (slots s)" by (rule held_in_table [OF assms(1)]) (simp_all add: assms(2))
  have gone: "departing (get_concatenated_msg m) = None \<or> departing (get_concatenated_msg m) = Some (snd p)"
    using assms(3) by (auto simp: departing_def construct_of_concatenated dest: stoi_to_string_InrD split: sum.splits)
  show ?thesis
  proof (cases rule: push_cases [OF i, of "get_concatenated_msg m"])
    case (1 q)
    have "held inv items H n (s\<lparr>q_worker_to_listener := q\<rparr>)"
      using gone
    proof
      assume "departing (get_concatenated_msg m) = None"
      from held_push [OF held_rest [OF assms(1)] 1(1) this] show ?thesis .
    next
      assume "departing (get_concatenated_msg m) = Some (snd p)"
      with 1 owned_leave [of "fst p" "snd p"] p assms(1) show ?thesis by (simp add: held_def)
    qed
    from own.keep_calls(3) [OF this] 1(1) assms(4) show ?thesis
      by (auto simp: worker_push_def Let_def split: if_splits) (metis snd_conv)
  qed (use assms(4) in \<open>simp add: worker_push_def Let_def split: if_splits\<close>)
qed

lemma held_erase:
  assumes "\<forall>c \<in> set cs. 0 \<le> fst c" "held inv items (mset cs + H) n s"
    "erase_disconnected os Q cs w s = (Inr (kept, v), t)"
  shows "held inv items (mset kept + H) n t \<and> set kept \<subseteq> set cs"
  using assms
proof (induction cs arbitrary: H w s kept)
  case (Cons c cs)
  obtain i cl where c: "get_client_ref (snd c) s = Some i" "deref i s = Inr cl"
    using Cons.prems(3) by (auto simp: liftE_eq_Inr split: option.splits elim!: bindE_InrE)
  show ?case
  proof (cases "get_state cl = DISCONNECT_STATE")
    case True
    let ?m = "leave_message cl (wk_index w) (snd c) (wk_msg w)"
    let ?note = "emit_print (Cout (ln (''Client ID:'' @ to_string (snd c) @ '' Signaled for disconnect!'')))"
    obtain u where u: "worker_push os Q ?m (wk_listener_evfd w) s = (Inr (), u)"
      "erase_disconnected os Q cs (w\<lparr>wk_msg := ?m\<rparr>) (?note u) = (Inr (kept, v), t)"
      using Cons.prems(3) c True by (auto simp: Let_def elim!: bindE_InrE)
    have "held inv items (mset cs + H) n u"
      by (rule held_farewell [OF _ _ _ u(1), of c]) (use Cons.prems in \<open>auto simp: leave_message_def\<close>)
    then have "held inv items (mset cs + H) n (?note u)" by (rule own.keep_prints)
    from Cons.IH [OF _ this u(2)] Cons.prems(1) show ?thesis by auto
  next
    case False
    then obtain k where k: "erase_disconnected os Q cs w s = (Inr (k, v), t)" "kept = c # k"
      using Cons.prems(3) c by (auto elim!: bindE_InrE)
    from Cons.IH [OF _ _ k(1), of "add_mset c H"] Cons.prems(1,2) k(2) show ?thesis by auto
  qed
qed simp

text \<open>What a turn does after the queue was read, with the client that was handed over, if any.\<close>

lemma held_turn_end:
  assumes "\<forall>c \<in> set (wk_clients w). 0 \<le> fst c"
    "held inv items (mset (wk_clients w) + (if a = int (action_index ACCEPT) then add_mset (sock, cid) H else H)) n s"
    "all_client_events os Q ret cs w s = (Inr w1, s1)"
    "erase_disconnected os Q (wk_clients w1) w1 s1 = (Inr (kept, w2), s2)"
    "take_new_client (a, sock, cid) (w2\<lparr>wk_clients := kept\<rparr>) s2 = (Inr v, t)"
  shows "held inv items (mset (wk_clients v) + H) n t \<and> (\<forall>c \<in> set (wk_clients v). 0 \<le> fst c)"
proof -
  have w1: "wk_clients w1 = wk_clients w"
    using clients_list_kept(3) [of w os Q ret cs s] assms(3) by simp
  have "held inv items (mset (wk_clients w1) + (if a = int (action_index ACCEPT) then add_mset (sock, cid) H else H)) n s1"
    using own.keep_all_client_events [OF assms(2), of os ret cs w] assms(3) w1 by simp
  from held_erase [OF _ this assms(4)] assms(1) w1
  have "held inv items (mset kept + (if a = int (action_index ACCEPT) then add_mset (sock, cid) H else H)) n s2"
    "set kept \<subseteq> set (wk_clients w)" by auto
  moreover from this(2) assms(1) have "\<forall>c \<in> set kept. 0 \<le> fst c" by blast
  ultimately show ?thesis using assms(5) by (auto simp: take_new_client_def split: if_splits)
qed

lemma held_worker_iteration:
  assumes "\<forall>c \<in> set (wk_clients w). 0 \<le> fst c" "held inv items (mset (wk_clients w) + H) n s"
    "worker_iteration os Q w s = (Inr v, t)"
  shows "held inv items (mset (wk_clients v) + H) n t \<and> (\<forall>c \<in> set (wk_clients v). 0 \<le> fst c)"
  using assms(3)
proof (cases rule: worker_turnE)
  case (1 ret em)
  with own.keep_calls(7) [OF assms(2), of os "wk_em w"] assms(1) show ?thesis by simp
next
  case (2 ret em s1 woken a sock cid s2 w1 s3 kept w2 s4)
  let ?new = "if a = int (action_index ACCEPT) then add_mset (sock, cid) H else H"
  have s1: "held inv items (mset (wk_clients w) + H) n s1"
    using own.keep_calls(7) [OF assms(2), of os "wk_em w"] 2(1) by simp
  have "held inv items (mset (wk_clients w) + ?new) n s2"
    using held_take [OF s1, of os em "wk_index w" "wk_evfd w" a sock cid s2] 2(2) s1
    by (auto split: if_splits)
  with assms(1) show ?thesis by (intro held_turn_end [OF _ _ 2(3-5)]) auto
qed

end

subsection \<open>The listener's turn\<close>

lemma slots_removed:
  assumes "clients t = (clients s)[i := None]" "i < length (clients s)" "clients s ! i = Some c"
    "Some p \<in> set (slots s)" "snd p \<noteq> cd_personal_id c"
  shows "Some p \<in> set (slots t)"
proof -
  from assms(4) obtain k where k: "k < length (clients s)" "slots s ! k = Some p"
    unfolding in_set_conv_nth by (auto simp: slots_def)
  with assms(2,3,5) have "k \<noteq> i" by (auto simp: slots_def)
  with k assms(1) have "k < length (slots t)" "slots t ! k = Some p" by (simp_all add: slots_def)
  then show ?thesis by (metis nth_mem)
qed

context server_queue
begin

lemma held_disconnect:
  assumes "server_wf s" "inv (q_listener_to_worker s)" "inv (q_worker_to_listener s)"
    "owned (H + launched n (hist s) + assignments (items (q_listener_to_worker s)))
       (add_mset cid (leaving (items (q_worker_to_listener s)))) (slots s)"
  shows "held inv items H n (snd (disconnect_client cid s))"
proof -
  obtain fd where "Some (fd, cid) \<in> set (slots s)" using assms(4) by (auto simp: owned_def)
  then obtain i where i: "get_client_ref cid s = Some i" by (rule in_slots_ref)
  then obtain c where c: "i < length (clients s)" "clients s ! i = Some c" "cd_personal_id c = cid"
    using get_client_ref_SomeD by blast
  then have "0 \<le> cid" using assms(1) by (metis nth_mem server_wf_def)
  note t = disconnect_client_eq(1) [OF assms(1) i c(2)]
  have "owned (H + launched n (hist s) + assignments (items (q_listener_to_worker s)))
       (leaving (items (q_worker_to_listener s))) (slots (s\<lparr>clients := (clients s)[i := None]\<rparr>))"
    by (rule owned_remove [OF assms(4) \<open>0 \<le> cid\<close>]) (rule slots_removed [OF _ c(1,2)], auto simp: c(3))
  with assms(2,3) t show ?thesis
    by (simp add: held_def launched_def slots_def close_fd_def)
qed

lemma held_popped:
  assumes "held inv items H n s" "queue_pop Q (q_worker_to_listener s) = Inr (x, q)"
  shows "held inv items H n (s\<lparr>q_worker_to_listener := q\<rparr>)"
proof -
  have i: "inv (q_worker_to_listener s)" using assms(1) by (simp add: held_def)
  show ?thesis
  proof (cases rule: pop_cases [OF i])
    case (1 y xs q')
    then show ?thesis
      using assms by (cases "departing y") (auto simp: held_def elim: owned_less)
  qed (use assms in \<open>auto simp: held_def\<close>)
qed

lemma held_dispatch:
  assumes "server_wf s" "held inv items H n s" "queue_pop Q (q_worker_to_listener s) = Inr (Some text, q)"
    "construct_from_string text empty_message = Inr msg"
  shows "held inv items H n (snd (dispatch_message Q msg text ids (s\<lparr>q_worker_to_listener := q\<rparr>)))"
proof -
  let ?s = "s\<lparr>q_worker_to_listener := q\<rparr>"
  have i: "inv (q_worker_to_listener s)" using assms(2) by (simp add: held_def)
  obtain xs where q: "items (q_worker_to_listener s) = text # xs" "inv q" "items q = xs"
    using assms(3) by (cases rule: pop_cases [OF i]) auto
  note s = held_popped [OF assms(2,3)]
  show ?thesis
  proof (cases "sm_action msg = get_action CL_DISCONNECTED")
    case True
    show ?thesis
    proof (cases "stoi (sm_id msg)")
      case (Inr cid)
      then have "departing text = Some cid" using True assms(4) by (simp add: departing_def)
      with assms(1,2) q have "held inv items H n (snd (disconnect_client cid (emit_print (Cout (ln ''Client disconnected'')) ?s)))"
        by (intro held_disconnect) (auto simp: held_def launched_def server_wf_def emit_print_def emit_def)
      from own.keep_dispatch_disconnect [OF Inr this, of ids] True show ?thesis
        by (simp add: dispatch_message_def)
    qed (use True s in \<open>simp add: dispatch_message_def dispatch_disconnect_def own.keep_prints\<close>)
  qed (use s in \<open>simp add: own.keep_dispatch_other\<close>)
qed

lemma held_listener_queue:
  assumes "server_wf s" "held inv items H n s"
  shows "held inv items H n (snd (listener_process_worker_to_listener_q os Q fd s))"
  unfolding listener_process_worker_to_listener_q_def
  apply (rule bindE_preserves)
   apply (rule own.keep_calls(4) [OF assms(2)])
  subgoal premises prems for woken u
  proof -
    have "server_wf u"
      using tabw.keep_calls(4) [of 0 UNIV "client_data_id s" s os fd] prems(1) assms(1) by (metis tab_ok_def order_refl snd_conv)
    then show ?thesis
      using prems(2) held_popped [OF prems(2)] held_dispatch [OF _ prems(2)]
      by (auto simp: Let_def liftE_def bindE_def split: sum.splits option.splits)
  qed
  done

text \<open>Handing over a client: the pair the listener holds goes to a worker, or is dropped.\<close>

lemma held_bind_rest:
  assumes "held inv items (add_mset p H) n (snd r)"
    "\<And>a s. held inv items (add_mset p H) n s \<Longrightarrow> held inv items H n (snd (f a s))"
  shows "held inv items H n (snd (bindE r f))"
  using assms by (auto simp: bindE_def intro: held_rest split: prod.splits sum.splits)

lemma held_spawn:
  assumes "held inv items (add_mset (sock, cid) H) n s"
  shows "held inv items H n (emit (Ev_spawn_worker sock cid i e l) s)"
proof -
  have "launched n (hist s @ [Ev_spawn_worker sock cid i e l]) \<subseteq># add_mset (sock, cid) (launched n (hist s))"
    by (cases "n - length (spawns (hist s))") (simp_all add: launched_def)
  then have "H + launched n (hist s @ [Ev_spawn_worker sock cid i e l]) + assignments (items (q_listener_to_worker s))
      \<subseteq># add_mset (sock, cid) H + launched n (hist s) + assignments (items (q_listener_to_worker s))"
    by simp
  with assms show ?thesis
    by (auto simp: held_def w2l_calls elim!: owned_less)
qed

lemma held_emplace:
  assumes "held inv items (add_mset (sock, cid) H) n s"
  shows "held inv items H n (snd (emplace_new_worker os sock cid i l s))"
  unfolding emplace_new_worker_def Let_def
  by (rule held_bind_rest, rule own.keep_calls [OF assms], rule held_bind_rest, simp)
    (auto intro!: own.keep_bind own.keep_prints own.pool_keep own.emit_keep held_spawn)

lemma held_assign:
  assumes "held inv items (add_mset (sock, cid) H) n s"
  shows "held inv items H n (snd (assign_client_to_worker os Q i sock cid fd s))"
proof -
  let ?x = "get_concatenated_msg (accept_message i sock cid)"
  have x: "assigned ?x = None \<or> assigned ?x = Some (sock, cid)" using assigned_accept [of i sock cid] by auto
  have "held inv items H n (s\<lparr>q_listener_to_worker := q\<rparr>)"
    if "queue_push Q ?x (q_listener_to_worker s) = Inr (b, q)" for b q
    using held_put_back [OF assms that] x held_rest by auto
  then show ?thesis
    by (auto simp: assign_client_to_worker_def Let_def intro!: own.keep_calls held_rest [OF assms] split: sum.splits)
qed

lemma held_add_to_worker:
  assumes "held inv items (add_mset (sock, cid) H) n s"
  shows "held inv items H n (snd (add_to_worker os Q i sock cid s))"
  unfolding add_to_worker_def
  by (rule held_bind_rest [of "(sock, cid)"], simp add: assms) (auto intro!: held_assign own.keep_prints)

lemma held_process_new_client:
  assumes "held inv items (add_mset (sock, cid) H) n s"
  shows "held inv items H n (snd (process_new_client os Q sock cid fd s))"
  using assms held_rest [OF assms]
  by (auto simp: process_new_client_def Let_def intro!: held_emplace held_add_to_worker own.pool_keep
      split: prod.splits)

lemma held_place:
  assumes "server_wf s" "client_data_id s < INT_MAX" "held inv items H n s" "0 \<le> sock"
  shows "\<exists>a b t. place_client os Q sock s = (Inr (a, b), t) \<and> held inv items (add_mset (a, b) H) n t"
proof (cases "find_index (\<lambda>c. c = None) (clients s)")
  case None
  have "held inv items (add_mset refused H) n (close_fd sock s)"
    using own.keep_prints(2) [OF assms(3), of sock] owned_refused by (simp add: held_def)
  with None show ?thesis by (simp add: place_client_def refused_def)
next
  case (Some i)
  then have i: "i < length (clients s)" "clients s ! i = None" by (auto dest: find_index_SomeD)
  define t where "t = snd (place_client os Q sock s)"
  have t: "place_client os Q sock s = (Inr (sock, client_data_id s), t)"
    using Some by (simp add: t_def place_client_def Client_Data_new_def getRandomColorID_def Let_def)
  have sl: "slots t = (slots s)[i := Some (sock, client_data_id s)]"
    using Some by (simp add: t_def place_client_def Client_Data_new_def getRandomColorID_def Let_def slots_def map_update)
  have q: "q_listener_to_worker t = q_listener_to_worker s" "q_worker_to_listener t = q_worker_to_listener s"
    "launched n (hist t) = launched n (hist s)"
    using Some by (simp_all add: t_def place_client_def Client_Data_new_def getRandomColorID_def Let_def launched_def w2l_calls)
  have old: "snd p \<noteq> client_data_id s \<and> Some p \<in> set (slots t)" if "Some p \<in> set (slots s)" for p
  proof -
    from that obtain k where k: "k < length (clients s)" "slots s ! k = Some p"
      unfolding in_set_conv_nth by (auto simp: slots_def)
    then obtain c where c: "clients s ! k = Some c" "snd p = cd_personal_id c" by (auto simp: slots_def)
    then have "cd_personal_id c < client_data_id s" using assms(1) k(1) by (metis nth_mem server_wf_def)
    moreover have "k \<noteq> i" using i(2) c(1) by auto
    then have "slots t ! k = Some p" "k < length (slots t)" using k sl by (simp_all add: slots_def)
    ultimately show ?thesis using c(2) by (metis nth_mem order_less_irrefl)
  qed
  have new: "Some (sock, client_data_id s) \<in> set (slots t)"
    unfolding sl by (rule set_update_memI) (simp add: slots_def i(1))
  have "0 \<le> client_data_id s" using assms(1) by (simp add: server_wf_def)
  with assms(3) q have "held inv items (add_mset (sock, client_data_id s) H) n t"
    unfolding held_def by (auto intro!: owned_enter [OF _ old new])
  with t show ?thesis by blast
qed

lemma held_accept:
  fixes s :: "('q, 'z) manager_state_scheme"
  assumes "server_wf s" "client_data_id s < INT_MAX" "held inv items H n s"
  shows "held inv items H n (snd (accept_client os Q nb s)) \<and>
    (\<forall>a b t. accept_client os Q nb s = (Inr (a, b), t) \<longrightarrow> held inv items (add_mset (a, b) H) n t)"
proof -
  define G where "G r \<longleftrightarrow> held inv items H n (snd r) \<and>
    (\<forall>a b t. r = (Inr (a, b), t) \<longrightarrow> held inv items (add_mset (a, b) H) n t)"
    for r :: "(failure, int \<times> int, ('q, 'z) manager_state_scheme) outcome"
  have place: "G (place_client os Q sock t)"
    if t: "server_wf t" "client_data_id t < INT_MAX" "held inv items H n t" "\<not> sock < 0" for t sock
    using held_place [OF t(1-3), of sock os] t(4) by (auto simp: G_def intro: held_rest)
  have fail: "G (Inl e, t)" and none: "G (Inr (- 1, - 1), t)" if "held inv items H n t" for e t
    using that owned_refused by (auto simp: G_def held_def refused_def)
  have em: "held inv items H n (emit (Ev_accept4 k) s)" "held inv items H n (emit (Ev_fcntl l) (emit (Ev_accept4 k) s))"
    "held inv items H n (emit (Ev_setfl l j) (emit (Ev_fcntl m) (emit (Ev_accept4 k) s)))" for k l m j
    by (auto intro!: own.emit_keep assms(3))
  obtain sock err where acc: "sys_accept4 os (hist s) (sv_socket s) = (sock, err)" by fastforce
  have "G (accept_client os Q nb s)"
    using assms by (simp add: accept_client_def acc Let_def) (auto intro!: place fail none em own.keep_prints)
  then show ?thesis by (simp add: G_def)
qed

lemma held_listener_accept:
  fixes s :: "('q, 'z) manager_state_scheme"
  assumes "server_wf s" "client_data_id s < INT_MAX" "held inv items H n s"
  shows "held inv items H n (snd (listener_accept os Q fd s))"
  unfolding listener_accept_def
proof (rule own.keep_handle)
  show "held inv items H n (snd (bindE (accept_client os Q True s)
      (\<lambda>(socket, cl_id) s. process_new_client os Q socket cl_id fd s)))"
  proof (cases "accept_client os Q True s")
    case (Pair r t)
    with held_accept [OF assms, of os True] show ?thesis
      by (cases r) (auto intro: held_process_new_client)
  qed
qed (rule own.keep_accept_handlers)

text \<open>The three parts of a listener turn, with what they need of the client table.\<close>

lemma held_listener_iteration:
  fixes s :: "('q, 'z) manager_state_scheme"
  assumes "tab_ok k s" "k < INT_MAX" "held inv items H n s"
  shows "held inv items H n (snd (listener_iteration os Q l s))"
proof -
  define G where "G s \<longleftrightarrow> tab_ok k s \<and> held inv items H n s" for s :: "('q, 'z) manager_state_scheme"
  have wf: "server_wf t" "client_data_id t < INT_MAX" if "G t" for t
    using that assms(2) by (auto simp: G_def tab_ok_def)
  have event: "R (snd (when_event em fd ret act t))"
    if "R t" "R (snd (act t))" for R em fd ret act and t :: "('q, 'z) manager_state_scheme"
    using that by (auto simp: when_event_def liftE_def bindE_def split: sum.splits)
  have queue: "G (snd (when_event em fd ret (listener_process_worker_to_listener_q os Q e) t))"
    if "G t" for em fd ret e t
    by (rule event) (use that wf [OF that] in \<open>auto simp: G_def intro!: tab held_listener_queue\<close>)
  have stdin: "G (snd (when_event em fd ret (listener_stdin os Q) t))" if "G t" for em fd ret t
    by (rule event) (use that in \<open>auto simp: G_def intro!: tab own.keep_listener_stdin\<close>)
  have accept: "held inv items H n (snd (when_event em fd ret (listener_accept os Q e) t))" if "G t" for em fd ret e t
    by (rule event) (use that wf [OF that] in \<open>auto simp: G_def intro!: held_listener_accept\<close>)
  have seq: "held inv items H n (snd (bindE r f))"
    if "G (snd r)" "\<And>a t. G t \<Longrightarrow> held inv items H n (snd (f a t))" for r f
    using that by (auto simp: G_def bindE_def split: prod.splits sum.splits)
  have ev: "held inv items H n (snd (listener_events os Q ret l t))" if "G t" for ret l t
    unfolding listener_events_def
    by (rule seq [OF queue [OF that]], rule seq [OF stdin], assumption, rule own.keep_bind, erule accept, simp)
  have "G s" using assms by (simp add: G_def)
  have "G (snd (wait_events os (ls_em l) s))"
    using assms own.keep_calls tab_steady by (auto simp: G_def)
  then show ?thesis
    unfolding listener_iteration_def
    by (rule seq) (auto simp: Let_def G_def intro!: ev split: prod.splits)
qed

end

end
