(* ===== verification/Client_Safety.thy ===== *)
theory Client_Safety
  imports Ownership
begin

text \<open>
  What the ownership of clients gives for whole runs: no client is served by two workers, each
  worker's descriptors are those of the table, and no worker reads a client that is gone.
\<close>

subsection \<open>No access to a client that is gone\<close>

text \<open>
  The one undefined read of a worker that does not depend on the table: a frame without a
  terminator. It is possible (\<open>p\<close>) when the frame was never cleared, or when the kernel fills it to its
  last byte.
\<close>

definition over_read :: string where
  "over_read = ''read past the end of a character array''"

definition safe :: "bool \<Rightarrow> (failure, 'a, 's) outcome \<Rightarrow> bool" where
  "safe p r \<longleftrightarrow> (\<forall>x. fst r = Inl (Undefined_behaviour x) \<longrightarrow> p \<and> x = over_read)"

definition cleared :: "message_frame \<Rightarrow> bool" where
  "cleared f \<longleftrightarrow> mf_msg f = replicate (length (mf_msg f)) (CHR 0x00)"

definition short_reads :: "os \<Rightarrow> bool" where
  "short_reads os \<longleftrightarrow> (\<forall>h fd n r d e. sys_recv os h fd n = (r, d, e) \<longrightarrow> length d < MAX_LEN)"

lemma cleared_clear [simp]: "cleared (clear_msg f)"
  by (simp add: cleared_def clear_msg_def)

lemma terminated_read:
  assumes "cleared f" "length (mf_msg f) = MAX_LEN" "length d < MAX_LEN"
  shows "CHR 0x00 \<in> set (mf_msg (recv_into d f))"
proof -
  have "mf_msg (recv_into d f) = d @ replicate (512 - length d) (CHR 0x00)"
    using assms(1,2) by (simp add: recv_into_def cleared_def)
  with assms(3) show ?thesis by simp
qed

lemma safe_simps [simp]:
  "safe p (Inr a, s)" "safe p (Inl (Undefined_behaviour x), s) \<longleftrightarrow> p \<and> x = over_read"
  "safe p (Inl (Runtime_error x), s)" "safe p (Inl (Queue_exception x), s)" "safe p (Inl (Blocked x), s)"
  "safe p (Inl (Invalid_argument x), s)" "safe p (Inl (Out_of_range x), s)" "safe p (Inl (Client_connection x), s)"
  by (simp_all add: safe_def)

lemma safe_bind:
  assumes "safe p r" "\<And>a s. r = (Inr a, s) \<Longrightarrow> safe p (f a s)"
  shows "safe p (bindE r f)"
  using assms by (auto simp: bindE_def safe_def split: prod.splits sum.splits)

lemma safe_lift [simp]:
  "safe p (liftE (stoi x) s)" "safe p (liftE (construct_from_string x m) s)"
  "safe p (liftE (string_of_array b) s) \<longleftrightarrow> p \<or> CHR 0x00 \<in> set b"
  by (auto simp: stoi_def construct_from_string_def string_of_array_def over_read_def Let_def split: prod.splits)

lemma safe_calls [simp]:
  "safe p (server_send_msg os text cid s)" "safe p (server_receive_msg os f cid s)"
  "safe p (read_wakeup os fd (Runtime_error e) s)" "safe p (add_monitored_fd os em ep s)"
  "safe p (wait_events os em s)" "safe p (worker_push os Q m fd (t :: ('q, 'z) manager_state_scheme))"
  using get_client_ref_SomeD [of cid s]
  by (auto simp: server_send_msg_def server_receive_msg_def get_selected_client_fd_def call_send_def call_recv_def
      read_wakeup_def call_read_evfd_def add_monitored_fd_def wait_events_def worker_push_def queue_push_def
      write_one_def call_write_evfd_def Let_def deref_def split: prod.splits sum.splits option.splits)

lemma safe_check_event: "em_wf em \<Longrightarrow> ret \<le> int MAX_EVENTS \<Longrightarrow> safe p (liftE (check_event em fd ev ret) s)"
  by (auto simp: check_event_def em_wf_def)

text \<open>
  Slots stay as they are, so a reference taken at the start of a client's turn stays good:
  \<open>steers p S r\<close> says that a part of the turn is safe and leaves the slots \<open>S\<close>.
\<close>

interpretation slw: steady "\<lambda>s. slots s = S" Q for S Q
  by unfold_locales (auto simp: slots_put)

definition steers ::
  "bool \<Rightarrow> (int \<times> int) option list \<Rightarrow> (failure, 'a, ('q, 'z) server_state_scheme) outcome \<Rightarrow> bool" where
  "steers p S r \<longleftrightarrow> safe p r \<and> slots (snd r) = S"

named_theorems steer \<open>parts of a turn that are safe and leave the slots alone\<close>

lemma steers_bind [steer]:
  assumes "steers p S r" "\<And>a s. slots s = S \<Longrightarrow> steers p S (f a s)"
  shows "steers p S (bindE r f)"
  using assms by (auto simp: steers_def bindE_def safe_def split: prod.splits sum.splits)

lemma steers_deref:
  assumes "slots s = S" "i < length S" "S ! i \<noteq> None"
    "\<And>c. (\<And>d. cd_personal_id d = cd_personal_id c \<Longrightarrow> cd_fd d = cd_fd c \<Longrightarrow> slots (put_client i d s) = S) \<Longrightarrow>
      steers p S (f c s)"
  shows "steers p S (bindE (liftE (deref i s) s) f)"
proof -
  obtain c where c: "i < length (clients s)" "clients s ! i = Some c"
    using assms(1-3) by (auto simp: slots_def)
  with assms(1,4) slots_put [OF c] show ?thesis by simp
qed

lemma steers_calls [steer]:
  fixes s :: "('q, 'z) manager_state_scheme"
  shows "slots s = S \<Longrightarrow> steers p S (server_send_msg os text cid s)"
    "slots s = S \<Longrightarrow> steers p S (server_receive_msg os f cid s)"
    "slots s = S \<Longrightarrow> sm_action m \<noteq> get_action CL_DISCONNECTED \<Longrightarrow> steers p S (worker_push os Q m fd s)"
    "slots s = S \<Longrightarrow> steers p S (liftE (construct_from_string x m) s)"
    "slots s = S \<Longrightarrow> p \<or> CHR 0x00 \<in> set b \<Longrightarrow> steers p S (liftE (string_of_array b) s)"
    "slots s = S \<Longrightarrow> em_wf em \<Longrightarrow> ret \<le> int MAX_EVENTS \<Longrightarrow> steers p S (liftE (check_event em fd ev ret) s)"
  by (simp_all add: steers_def slw.keep_calls slw.keep_worker_push safe_check_event)

lemma steers_end [simp]: "steers p S (Inr a, s) \<longleftrightarrow> slots s = S" "steers p S (Inl (Blocked x), s) \<longleftrightarrow> slots s = S"
  by (simp_all add: steers_def)

lemma queue_pop_Inl: "queue_pop Q q = Inl e \<Longrightarrow> e = Blocked ''try_pop''"
  by (simp add: queue_pop_def split: option.splits)

lemma steers_drain [steer]:
  fixes s :: "('q, 'z) manager_state_scheme"
  shows "slots s = S \<Longrightarrow> i < length S \<Longrightarrow> S ! i \<noteq> None \<Longrightarrow> steers p S (drain_send_queue n os Q i s)"
proof (induction n arbitrary: s S)
  case (Suc n)
  show ?case
    unfolding drain_send_queue.simps
    apply (rule steers_deref [OF Suc.prems])
    using Suc.prems by (auto intro!: steer Suc.IH dest: queue_pop_Inl split: sum.splits option.splits)
qed simp

lemma steers_process_client_state [steer]:
  fixes s :: "('q, 'z) manager_state_scheme"
  assumes "slots s = S" "i < length S" "S ! i \<noteq> None"
  shows "steers p S (process_client_state os Q is_input m (Some i) fd s)"
proof -
  have "steers p S (process_input os Q m i fd s)"
    unfolding process_input_def
    by (rule steers_deref [OF assms]) (auto simp: Let_def joined_message_def intro!: steer)
  moreover have "steers p S (process_output os Q m i s)"
    unfolding process_output_def
    by (rule steers_deref [OF assms]) (use assms in \<open>auto simp: Let_def intro!: steer\<close>)
  ultimately show ?thesis by (simp add: process_client_state_def)
qed

lemma steers_client_output [steer]:
  fixes s :: "('q, 'z) manager_state_scheme"
  assumes "slots s = S" "i < length S" "S ! i \<noteq> None" "em_wf (wk_em w)" "ret \<le> int MAX_EVENTS"
  shows "steers p S (client_output os Q ret fd (Some i) w s)"
  using assms by (auto simp: client_output_def intro!: steer)

lemma ref_of_slot:
  assumes "get_client_ref cid s = Some i"
  shows "i < length (slots s) \<and> slots s ! i \<noteq> None"
  using get_client_ref_SomeD [OF assms] by (auto simp: slots_def)

lemma slot_ref:
  assumes "slots s = S" "Some c \<in> set S"
  obtains i where "get_client_ref (snd c) s = Some i" "i < length S" "S ! i \<noteq> None"
proof -
  have "Some (fst c, snd c) \<in> set (slots s)" using assms by simp
  then obtain i where "get_client_ref (snd c) s = Some i" by (rule in_slots_ref)
  with ref_of_slot [OF this] assms that show thesis by auto
qed

lemma steers_eof:
  fixes s :: "('q, 'z) manager_state_scheme"
  assumes "slots s = S" "Some c \<in> set S"
  shows "steers p S (case get_client_ref (snd c) s of
        None \<Rightarrow> (Inl (Undefined_behaviour x), s)
      | Some i \<Rightarrow> bindE (liftE (deref i s) s) (\<lambda>cl s. (Inr v, put_client i (set_state DISCONNECT_STATE cl) s)))"
proof -
  obtain i where i: "get_client_ref (snd c) s = Some i" "i < length S" "S ! i \<noteq> None"
    using assms by (rule slot_ref)
  have "steers p S (bindE (liftE (deref i s) s) (\<lambda>cl s. (Inr v, put_client i (set_state DISCONNECT_STATE cl) s)))"
    by (rule steers_deref [OF assms(1) i(2,3)]) auto
  with i(1) show ?thesis by simp
qed

text \<open>A read, and what it leaves in the frame.\<close>

lemma received:
  assumes "recv_spec os" "frame_wf f" "server_receive_msg os f cid s = (Inr (len, g), t)"
  shows "\<exists>d h fd e. sys_recv os h fd (int MAX_LEN) = (len, d, e) \<and> g = recv_into d f \<and> length d = nat len \<and> 0 \<le> len"
proof -
  have len: "mf_msg_len f = 512" using assms(2) by (simp add: frame_wf_def)
  show ?thesis
    using assms(1,3) by (auto simp: server_receive_msg_def call_recv_def Let_def len recv_spec_def split: sum.splits prod.splits if_splits)
      (metis zero_le_numeral)
qed

text \<open>When a frame can be without a terminator after a read.\<close>

definition unterminated :: "os \<Rightarrow> message_frame \<Rightarrow> bool" where
  "unterminated os f \<longleftrightarrow> \<not> (cleared f \<and> short_reads os)"

lemma received_terminated:
  assumes "recv_spec os" "frame_wf f" "server_receive_msg os f cid s = (Inr (len, g), t)" "\<not> unterminated os f"
  shows "CHR 0x00 \<in> set (mf_msg g)"
  using received [OF assms(1-3)] terminated_read [of f] assms(2,4)
  by (fastforce simp: unterminated_def short_reads_def frame_wf_def)

lemma steers_bind_with:
  assumes "steers p S r" "\<And>a s. r = (Inr a, s) \<Longrightarrow> slots s = S \<Longrightarrow> steers p S (f a s)"
  shows "steers p S (bindE r f)"
  using assms by (auto simp: steers_def bindE_def safe_def split: prod.splits sum.splits)

lemma steers_client_events:
  fixes s :: "('q, 'z) manager_state_scheme"
  assumes "slots s = S" "Some c \<in> set S" "worker_ok w" "ret \<le> int MAX_EVENTS" "recv_spec os" "unterminated os (wk_frame w) \<longrightarrow> p"
  shows "steers p S (client_events os Q ret c w s)"
proof -
  have w: "frame_wf (wk_frame w)" "em_wf (wk_em w)" using assms(3) by (simp_all add: worker_ok_def)
  obtain i where i: "get_client_ref (snd c) s = Some i" "i < length S" "S ! i \<noteq> None"
    using assms(1,2) by (rule slot_ref)
  define K where "K = (\<lambda>(len :: int, frame) (u :: ('q, 'z) manager_state_scheme).
      let w = w\<lparr>wk_frame := frame\<rparr> in
      if len = 0 then
        (case get_client_ref (snd c) u of
           None \<Rightarrow> (Inl (Undefined_behaviour ''access to an empty client reference''), u)
         | Some i \<Rightarrow> bindE (liftE (deref i u) u) (\<lambda>cl u. (Inr w, put_client i (set_state DISCONNECT_STATE cl) u)))
      else if get_client_ref (snd c) s = None then (Inr w, u)
      else
        bindE (liftE (string_of_array (mf_msg frame)) u) (\<lambda>text u.
        bindE (liftE (construct_from_string text (wk_msg w)) u) (\<lambda>msg u.
          let w = w\<lparr>wk_frame := clear_msg frame\<rparr> in
          bindE (process_client_state os Q True msg (get_client_ref (snd c) s) (wk_listener_evfd w) u)
            (\<lambda>msg u. client_output os Q ret (fst c) (get_client_ref (snd c) s) (w\<lparr>wk_msg := msg\<rparr>) u))))"
  have reads: "steers p S (bindE (server_receive_msg os (wk_frame w) (snd c) s) K)"
  proof (rule steers_bind_with [OF steers_calls(2) [OF assms(1)]], clarify)
    fix len g t
    assume r: "server_receive_msg os (wk_frame w) (snd c) s = (Inr (len, g), t)" "S = slots t"
    have "p \<or> CHR 0x00 \<in> set (mf_msg g)" using received_terminated [OF assms(5) w(1) r(1)] assms(6) by blast
    then show "steers p (slots t) (K (len, g) t)"
      using i w assms(2,4) r(2) by (auto simp: K_def Let_def intro!: steer steers_eof)
  qed
  have split: "client_events os Q ret c w s = bindE (liftE (check_event (wk_em w) (fst c) EPOLLIN ret) s) (\<lambda>inp u.
      if inp then bindE (server_receive_msg os (wk_frame w) (snd c) u) K
      else client_output os Q ret (fst c) (get_client_ref (snd c) s) w u)"
    unfolding client_events_def K_def Let_def ..
  have out: "steers p S (client_output os Q ret (fst c) (Some i) w s)" using i w assms(1,4) by (auto intro!: steer)
  show ?thesis
  proof (cases "check_event (wk_em w) (fst c) EPOLLIN ret")
    case (Inl e)
    then have "e = Undefined_behaviour x \<Longrightarrow> p \<and> x = over_read" for x
      using safe_check_event [OF w(2) assms(4), of p "fst c" EPOLLIN s] by (simp add: safe_def)
    with Inl assms(1) show ?thesis by (auto simp: split steers_def safe_def)
  next
    case (Inr inp)
    with i(1) reads out show ?thesis by (cases inp) (simp_all add: split)
  qed
qed

text \<open>After a client's turn the frame is cleared, unless nothing was read into it.\<close>

lemma frame_after:
  fixes s :: "('q, 'z) manager_state_scheme"
  assumes "get_client_ref (snd c) s \<noteq> None" "recv_spec os" "frame_wf (wk_frame w)"
  shows "yields (\<lambda>v. wk_frame v = wk_frame w \<or> cleared (wk_frame v)) (client_events os Q ret c w s)"
proof -
  have out: "yields (\<lambda>v. wk_frame v = f \<or> cleared (wk_frame v)) (client_output os Q ret fd r w s)"
    if "wk_frame w = f \<or> cleared (wk_frame w)" for fd r w f and s :: "('q, 'z) manager_state_scheme"
    using that unfolding client_output_def by (auto intro!: yields_bind_any)
  have read: "yields (\<lambda>(len, g). len = 0 \<longrightarrow> g = wk_frame w) (server_receive_msg os (wk_frame w) (snd c) t)"
    for t :: "('q, 'z) manager_state_scheme"
    using received [OF assms(2,3)] by (fastforce simp: yields_def recv_into_def)
  show ?thesis
    unfolding client_events_def Let_def
    apply (rule yields_bind_any)
    apply (split if_split, intro conjI impI)
     apply (rule yields_bind [OF read])
     apply (use assms(1) in \<open>auto intro!: yields_bind_any out split: option.splits\<close>) [1]
    apply (rule out, simp)
    done
qed

lemma em_kept:
  fixes s :: "('q, 'z) manager_state_scheme"
  shows "yields (\<lambda>v. wk_em v = wk_em w) (client_events os Q ret c w s)"
proof -
  have out: "yields (\<lambda>v. wk_em v = em) (client_output os Q ret fd r w s)" if "wk_em w = em"
    for fd r w em and s :: "('q, 'z) manager_state_scheme"
    using that unfolding client_output_def by (auto intro!: yields_bind_any)
  show ?thesis
    unfolding client_events_def Let_def by (auto intro!: yields_bind_any out split: option.splits)
qed

lemma steers_all_client_events:
  fixes s :: "('q, 'z) manager_state_scheme"
  assumes os: "recv_spec os" "ret \<le> int MAX_EVENTS"
  shows "slots s = S \<Longrightarrow> (\<And>c. c \<in> set cs \<Longrightarrow> Some c \<in> set S) \<Longrightarrow> worker_ok w \<Longrightarrow> unterminated os (wk_frame w) \<longrightarrow> p \<Longrightarrow>
    safe p (all_client_events os Q ret cs w s) \<and>
    yields (\<lambda>v. wk_frame v = wk_frame w \<or> cleared (wk_frame v)) (all_client_events os Q ret cs w s)"
proof (induction cs arbitrary: w s)
  case (Cons c cs)
  have c: "Some c \<in> set S" using Cons.prems(2) by simp
  have first: "steers p S (client_events os Q ret c w s)"
    by (rule steers_client_events) (use Cons.prems os c in auto)
  have ref: "get_client_ref (snd c) s \<noteq> None" by (rule slot_ref [OF Cons.prems(1) c]) simp
  have "frame_wf (wk_frame w)" using Cons.prems(3) by (simp add: worker_ok_def)
  note frame = frame_after [OF ref os(1) this, of Q ret]
  have rest: "safe p (all_client_events os Q ret cs v t) \<and>
      yields (\<lambda>u. wk_frame u = wk_frame v \<or> cleared (wk_frame u)) (all_client_events os Q ret cs v t) \<and>
      (wk_frame v = wk_frame w \<or> cleared (wk_frame v))"
    if "client_events os Q ret c w s = (Inr v, t)" for v t
  proof -
    have v: "wk_frame v = wk_frame w \<or> cleared (wk_frame v)" "worker_ok v" "slots t = S"
      using that frame client_events_ok [OF os(1) Cons.prems(3), of Q ret c s] first by (auto simp: steers_def)
    then have "unterminated os (wk_frame v) \<longrightarrow> p" using Cons.prems(4) by (auto simp: unterminated_def)
    with Cons.IH [OF v(3) _ v(2)] Cons.prems(2) v(1) show ?thesis by simp
  qed
  have "safe p (all_client_events os Q ret (c # cs) w s)"
    using first rest by (auto simp: steers_def intro!: safe_bind)
  moreover have "yields (\<lambda>v. wk_frame v = wk_frame w \<or> cleared (wk_frame v)) (all_client_events os Q ret (c # cs) w s)"
    unfolding yields_def all_client_events.simps bindE_eq_Inr using rest by (fastforce simp: yields_def)
  ultimately show ?case ..
qed simp

lemma safe_erase:
  fixes s :: "('q, 'z) manager_state_scheme"
  shows "slots s = S \<Longrightarrow> (\<And>c. c \<in> set cs \<Longrightarrow> Some c \<in> set S) \<Longrightarrow> safe p (erase_disconnected os Q cs w s)"
proof (induction cs arbitrary: w s)
  case (Cons c cs)
  obtain i where i: "get_client_ref (snd c) s = Some i"
    by (rule slot_ref [OF Cons.prems(1), of c]) (use Cons.prems(2) in auto)
  then obtain cl where cl: "deref i s = Inr cl" using get_client_ref_SomeD by (metis deref_Some)
  have IH: "safe p (erase_disconnected os Q cs v t)" if "slots t = S" for v and t :: "('q, 'z) manager_state_scheme"
    using that Cons.prems(2) by (intro Cons.IH) auto
  have push: "slots t = S" if "worker_push os Q m fd s = (r, t)" for m fd r t
    using Cons.prems(1) worker_push_clients [of os Q m fd s] that by (simp add: slots_def)
  show ?case
  proof (cases "get_state cl = DISCONNECT_STATE")
    case True
    with i cl show ?thesis by (auto simp: Let_def push intro!: safe_bind IH)
  next
    case False
    with i cl IH [OF Cons.prems(1)] show ?thesis by (auto intro!: safe_bind)
  qed
qed simp

lemma erase_frame:
  fixes s :: "('q, 'z) manager_state_scheme"
  shows "yields (\<lambda>(kept, v). wk_frame v = wk_frame w) (erase_disconnected os Q cs w s)"
proof (induction cs arbitrary: w s)
  case (Cons c cs)
  have keep: "yields (\<lambda>(kept, v). wk_frame v = wk_frame w) (bindE (erase_disconnected os Q cs w t)
      (\<lambda>(kept, w) s. (Inr (c # kept, w), s)))" for t :: "('q, 'z) manager_state_scheme"
    by (rule yields_bind [OF Cons.IH]) auto
  have leave: "yields (\<lambda>(kept, v). wk_frame v = wk_frame w) (erase_disconnected os Q cs (w\<lparr>wk_msg := m\<rparr>) t)"
    for m and t :: "('q, 'z) manager_state_scheme"
    using Cons.IH [of "w\<lparr>wk_msg := m\<rparr>" t] by simp
  show ?case
    by (auto simp: Let_def intro!: keep leave yields_bind_any [where r = "liftE _ _"]
        yields_bind_any [where r = "worker_push _ _ _ _ _"] split: option.splits)
qed simp

text \<open>A turn that is safe and leaves the frame cleared, or as it was.\<close>

definition turn_ok :: "bool \<Rightarrow> message_frame \<Rightarrow> (failure, worker, 's) outcome \<Rightarrow> bool" where
  "turn_ok p f r \<longleftrightarrow> safe p r \<and> yields (\<lambda>v. wk_frame v = f \<or> cleared (wk_frame v)) r"

lemma turn_ok_bind:
  assumes "safe p r" "\<And>a s. r = (Inr a, s) \<Longrightarrow> turn_ok p f (g a s)"
  shows "turn_ok p f (bindE r g)"
proof -
  have "safe p (bindE r g)" using assms by (auto simp: turn_ok_def intro: safe_bind)
  moreover have "yields (\<lambda>v. wk_frame v = f \<or> cleared (wk_frame v)) (bindE r g)"
    using assms(2) by (auto simp: yields_def bindE_eq_Inr turn_ok_def)
  ultimately show ?thesis by (simp add: turn_ok_def)
qed

lemma safe_worker_queue [simp]: "safe p (worker_process_listener_to_worker_q os Q em i fd s)"
  by (auto simp: worker_process_listener_to_worker_q_def Let_def queue_push_def
      dest!: queue_pop_Inl intro!: safe_bind split: sum.splits option.splits)

context server_queue
begin

lemma turn_end_safe:
  assumes "recv_spec os" "worker_ok w" "ret \<le> int MAX_EVENTS" "\<forall>c \<in> set (wk_clients w). 0 \<le> fst c"
    "held inv items (mset (wk_clients w) + H) n s" "unterminated os (wk_frame w) \<longrightarrow> p"
  shows "turn_ok p (wk_frame w) (bindE (all_client_events os Q ret (wk_clients w) w s) (\<lambda>w s.
      bindE (erase_disconnected os Q (wk_clients w) w s) (\<lambda>(kept, w) s.
        take_new_client q (w\<lparr>wk_clients := kept\<rparr>) s)))"
proof -
  have there: "Some c \<in> set (slots s)" if "c \<in> set (wk_clients w)" for c
    using held_in_table [OF assms(5), of c] assms(4) that by simp
  have erase: "safe p (erase_disconnected os Q (wk_clients v) v t)" if "all_client_events os Q ret (wk_clients w) w s = (Inr v, t)" for v t
    using safe_erase [of t "slots s"] there slw.keep_all_client_events [of s "slots s" os Q ret "wk_clients w" w]
      clients_list_kept(3) [of w os Q ret "wk_clients w" s] that by simp
  have all: "safe p (all_client_events os Q ret (wk_clients w) w s)"
    "yields (\<lambda>v. wk_frame v = wk_frame w \<or> cleared (wk_frame v)) (all_client_events os Q ret (wk_clients w) w s)"
    using steers_all_client_events [OF assms(1,3) refl there assms(2,6)] by simp_all
  have "yields (\<lambda>v. wk_frame v = wk_frame w \<or> cleared (wk_frame v)) (bindE (erase_disconnected os Q (wk_clients v) v t) (\<lambda>(kept, w) s.
        take_new_client q (w\<lparr>wk_clients := kept\<rparr>) s))"
    if "wk_frame v = wk_frame w \<or> cleared (wk_frame v)" for v t
    by (rule yields_bind [OF erase_frame]) (use that in \<open>auto simp: take_new_client_def split: prod.splits\<close>)
  from yields_bind [OF all(2) this] show ?thesis
    using all(1) erase by (auto simp: turn_ok_def take_new_client_def intro!: safe_bind split: prod.splits)
qed

lemma worker_turn_safe:
  assumes "recv_spec os" "epoll_spec os" "worker_ok w" "\<forall>c \<in> set (wk_clients w). 0 \<le> fst c"
    "held inv items (mset (wk_clients w) + H) n s" "unterminated os (wk_frame w) \<longrightarrow> p"
  shows "turn_ok p (wk_frame w) (worker_iteration os Q w s)"
  unfolding worker_iteration_def Let_def
  apply (rule turn_ok_bind, simp, clarify)
  subgoal premises prems for ret em t
  proof -
    have w: "frame_wf (wk_frame w)" "em_wf (wk_em w)" using assms(3) by (simp_all add: worker_ok_def)
    have em: "em_wf em" "ret \<le> int MAX_EVENTS" using wait_events_wf [OF assms(2) w(2)] prems by blast+
    have t: "held inv items (mset (wk_clients w) + H) n t"
      using own.keep_calls(7) [OF assms(5), of os "wk_em w"] prems by simp
    have taken: "held inv items (mset (wk_clients w) + H) n u"
      if "worker_process_listener_to_worker_q os Q em i fd t = (Inr q, u)" for i fd q u
    proof -
      obtain a sock cid where "q = (a, sock, cid)" by (cases q)
      with held_take [OF t, of os em i fd a sock cid u] that show ?thesis
        by (auto intro: held_rest split: if_splits)
    qed
    have last: "turn_ok p (wk_frame w) (bindE (all_client_events os Q ret (wk_clients w) (w\<lparr>wk_em := em\<rparr>) u) (\<lambda>w s.
        bindE (erase_disconnected os Q (wk_clients w) w s) (\<lambda>(kept, w) s.
          take_new_client q (w\<lparr>wk_clients := kept\<rparr>) s)))" if "held inv items (mset (wk_clients w) + H) n u" for u q
      using turn_end_safe [of os "w\<lparr>wk_em := em\<rparr>" ret H n u p q] assms(1,4,6) w em that by simp
    show ?thesis
      apply (split if_split, intro conjI impI, simp add: turn_ok_def)
      apply (rule turn_ok_bind [OF safe_check_event [OF em]])
      apply (rule turn_ok_bind, simp)
      using t taken by (auto simp: liftE_eq_Inr intro!: last split: if_splits)
  qed
  done

end

subsection \<open>Runs\<close>

text \<open>The kernel does not watch a negative descriptor.\<close>

definition ctl_spec :: "os \<Rightarrow> bool" where
  "ctl_spec os \<longleftrightarrow> (\<forall>h ep fd ev. fd < 0 \<longrightarrow> sys_epoll_ctl_add os h ep fd ev < 0)"

text \<open>The clients of all running workers, as descriptor and id.\<close>

definition served :: "'q system \<Rightarrow> (int \<times> int) list" where
  "served y = concat (map wk_clients (sy_workers y))"

lemma served_update:
  assumes "k < length ws"
  obtains R where "mset (concat (map f ws)) = mset (f (ws ! k)) + R"
    "\<And>v. mset (concat (map f (ws[k := v]))) = mset (f v) + R"
proof
  let ?R = "mset (concat (map f (take k ws))) + mset (concat (map f (drop (Suc k) ws)))"
  show "mset (concat (map f ws)) = mset (f (ws ! k)) + ?R"
    by (subst id_take_nth_drop [OF assms]) simp
  show "mset (concat (map f (ws[k := v]))) = mset (f v) + ?R" for v
    using assms by (simp add: upd_conv_take_nth_drop)
qed

lemma monitored_nonneg:
  "ctl_spec os \<Longrightarrow> add_monitored_fd os em ep s = (Inr (), t) \<Longrightarrow> 0 \<le> ep_fd ep"
  by (auto simp: ctl_spec_def add_monitored_fd_def Let_def split: if_splits) (meson linorder_not_less)

lemma worker_init_clients:
  assumes "ctl_spec os" "worker_init os je jm sock cid i e l s = (Inr w, t)"
  shows "wk_clients w = [(sock, cid)] \<and> 0 \<le> sock"
  using assms by (auto simp: worker_init_def dest: monitored_nonneg elim!: bindE_InrE)

context server_queue
begin

lemma held_boot:
  assumes "Server_local os addr (manager_start Q []) = (Inr (), s1)" "listen_connections os s1 = (Inr (), s2)"
    "listener_init os je s2 = (Inr l, s)"
  shows "held inv items {#} 0 s"
proof -
  have "held inv items {#} 0 (manager_start Q [])"
    by (simp add: held_def manager_start_def server_start_def slots_def server_state.defs manager_state.defs launched_def owned_def once_def new_inv new_items)
  then have "held inv items {#} 0 s1"
    using assms(1) by (auto simp: Server_local_def open_sv_socket_def Let_def held_def launched_def w2l_calls slots_def split: if_splits)
  then have "held inv items {#} 0 s2"
    using assms(2) by (auto simp: listen_connections_def Let_def held_def launched_def w2l_calls split: if_splits)
  from own.keep_listener_init [OF this, of os je] assms(3) show ?thesis by simp
qed

lemma held_start:
  assumes "held inv items H n s" "n < length (spawns (hist s))" "spawns (hist s) ! n = (sock, cid, i, e, l)"
  shows "held inv items (add_mset (sock, cid) H) (Suc n) s"
proof -
  have "drop n (spawns (hist s)) = (sock, cid, i, e, l) # drop (Suc n) (spawns (hist s))"
    using assms(2,3) by (metis Cons_nth_drop_Suc)
  with assms(1) show ?thesis by (simp add: held_def launched_def)
qed

lemma sys_held:
  assumes "ctl_spec os"
  shows "sys_reach os Q m y \<Longrightarrow> int m \<le> INT_MAX \<Longrightarrow>
    held inv items (mset (served y)) (sy_started y) (sy_state y) \<and> (\<forall>c \<in> set (served y). 0 \<le> fst c)"
proof (induction rule: sys_reach_induct)
  case (boot y)
  then show ?case by (auto simp: served_def elim!: sys_boot.cases dest: held_boot)
next
  case (step n j y z)
  have y: "held inv items (mset (served y)) (sy_started y) (sy_state y)" "\<forall>c \<in> set (served y). 0 \<le> fst c"
    using step(3,4) by simp_all
  have tab: "tab_ok (int n) (sy_state y)" using sys_reach_table [OF step(1)] step(4) by simp
  from step(2) show ?case
  proof (cases rule: sys_step.cases)
    case (listener_turn l s)
    with y tab step(4) held_listener_iteration [of "int n" "sy_state y" "mset (served y)" "sy_started y" os "sy_listener y"]
    show ?thesis by (simp add: served_def)
  next
    case (listener_end e s t)
    then have "held inv items (mset (served y)) (sy_started y) s"
      using y tab step(4) held_listener_iteration [of "int n" "sy_state y" "mset (served y)" "sy_started y" os "sy_listener y"] by simp
    then have "held inv items (mset (served y)) (sy_started y) t"
      using listener_handlers_prints [OF listener_end(6)] by (auto intro!: own.keep_prints)
    with listener_end y show ?thesis by (simp add: served_def)
  next
    case (worker_start sock cid i e lev je jm w s)
    have w: "wk_clients w = [(sock, cid)]" "0 \<le> sock" using worker_init_clients [OF assms worker_start(7)] by simp_all
    from held_start [OF y(1) worker_start(3,4)]
    have "held inv items (add_mset (sock, cid) (mset (served y))) (Suc (sy_started y)) s"
      using own.keep_worker_init worker_start(7) by (metis snd_conv)
    with w worker_start y show ?thesis by (simp add: served_def)
  next
    case (worker_turn k w s)
    obtain R where R: "mset (served y) = mset (wk_clients (sy_workers y ! k)) + R"
      "\<And>v. mset (concat (map wk_clients ((sy_workers y)[k := v]))) = mset (wk_clients v) + R"
      using served_update [OF worker_turn(3), of wk_clients] by (metis served_def)
    have own: "\<forall>c \<in> set (wk_clients (sy_workers y ! k)). 0 \<le> fst c"
      "held inv items (mset (wk_clients (sy_workers y ! k)) + R) (sy_started y) (sy_state y)"
      using worker_turn y R(1) by (auto simp: served_def)
    have rest: "\<forall>c \<in># R. 0 \<le> fst c"
      using y R(1) by (metis set_mset_mset union_iff)
    from held_worker_iteration [OF own worker_turn(5)] R(2) [of w] rest worker_turn(2) show ?thesis
      by (auto simp: served_def simp flip: set_mset_mset)
  qed
qed

end

text \<open>The list of the served clients, read off the invariant.\<close>

lemma once_distinct: "once (mset xs + M) \<Longrightarrow> (\<And>x. x \<in> set xs \<Longrightarrow> 0 \<le> x) \<Longrightarrow> distinct xs \<and> set xs \<inter> set_mset M = {}"
  by (induction xs) (auto simp: once_add)

lemma slot_client:
  assumes "server_wf s" "Some (fd, cid) \<in> set (slots s)"
  shows "\<exists>c. client_of cid s = Some c \<and> cd_fd c = fd" and "0 \<le> cid"
proof -
  from assms(2) obtain c where c: "Some c \<in> set (clients s)" "cd_personal_id c = cid" "cd_fd c = fd"
    by (auto simp: slots_def map_option_case split: option.splits)
  with assms(1) show "\<exists>c. client_of cid s = Some c \<and> cd_fd c = fd" "0 \<le> cid"
    by (auto simp: client_of_Some_iff server_wf_def)
qed

context server_queue
begin

lemma served_once:
  assumes "server_wf (sy_state y)" "held inv items (mset (served y)) n (sy_state y)" "\<forall>c \<in> set (served y). 0 \<le> fst c"
  shows "distinct (map snd (served y)) \<and>
    (\<forall>(fd, cid) \<in> set (served y). \<exists>c. client_of cid (sy_state y) = Some c \<and> cd_fd c = fd) \<and>
    (\<forall>cid \<in># leaving (items (q_worker_to_listener (sy_state y))).
       cid \<in> set (get_connected_IDs (sy_state y)) \<and> cid \<notin> snd ` set (served y))"
proof -
  let ?L = "leaving (items (q_worker_to_listener (sy_state y)))"
  let ?M = "image_mset snd (launched n (hist (sy_state y)) + assignments (items (q_listener_to_worker (sy_state y)))) + ?L"
  have there: "Some c \<in> set (slots (sy_state y))" if "c \<in> set (served y)" for c
    using held_in_table [OF assms(2), of c] assms(3) that by simp
  then have nn: "0 \<le> i" if "i \<in> set (map snd (served y))" for i
    using that slot_client(2) [OF assms(1)] by (metis imageE list.set_map prod.collapse)
  have "once (mset (map snd (served y)) + ?M)"
    using assms(2) by (simp add: held_def owned_def ac_simps)
  from once_distinct [OF this nn]
  have d: "distinct (map snd (served y))" "set (map snd (served y)) \<inter> set_mset ?M = {}" by blast+
  have "cid \<in> set (get_connected_IDs (sy_state y))" if "cid \<in># ?L" for cid
  proof -
    obtain fd where "Some (fd, cid) \<in> set (slots (sy_state y))"
      using assms(2) \<open>cid \<in># ?L\<close> by (auto simp: held_def owned_def)
    then obtain i where "get_client_ref cid (sy_state y) = Some i" by (rule in_slots_ref)
    then show ?thesis by (simp add: connected_IDs_iff)
  qed
  with d there slot_client(1) [OF assms(1)] show ?thesis by fastforce
qed

end

subsection \<open>Properties\<close>

text \<open>C13: in every run of the server, however the turns are interleaved, no client is served by two
  workers or twice by one: the ids in the workers' lists are distinct. Each pair of a worker is
  in the table with that descriptor, and every farewell waiting for the listener is that of a
  client that is still in the table and that no worker serves any more, so that each
  departure is carried out, and once only. The kernel is assumed to refuse to watch a
  negative descriptor.\<close>

theorem one_worker_per_client:
  assumes "sys_reach os (string_queue_ops mv) n y" and "int n \<le> INT_MAX" and "ctl_spec os"
  shows "distinct (map snd (served y)) \<and>
    (\<forall>(fd, cid) \<in> set (served y). \<exists>c. client_of cid (sy_state y) = Some c \<and> cd_fd c = fd) \<and>
    (\<forall>cid \<in># leaving (string_queue_items (q_worker_to_listener (sy_state y))).
       cid \<in> set (get_connected_IDs (sy_state y)) \<and> cid \<notin> snd ` set (served y))"
  using sys_reach_table [OF assms(1,2)] srv.sys_held [OF assms(3,1,2)]
  by (intro srv.served_once [where n = "sy_started y"]) (simp_all add: tab_ok_def)

lemma arriving_os_ctl: "ctl_spec arriving_os"
  by (simp add: ctl_spec_def arriving_os_def quiet_os_def)

theorem one_worker_per_client_witness:
  "\<exists>y fd cid c. sys_reach arriving_os (string_queue_ops (\<lambda>s. s)) 1 y \<and> served y = [(fd, cid)] \<and>
     client_of cid (sy_state y) = Some c \<and> cd_fd c = fd"
proof -
  obtain y w where y: "sys_reach arriving_os (string_queue_ops (\<lambda>s. s)) 1 y" "sy_workers y = [w]" "wk_clients w = [(21, 0)]"
    using first_worker_runs by fastforce
  with one_worker_per_client [OF y(1) _ arriving_os_ctl] show ?thesis
    by (auto simp: INT_MAX_def served_def)
qed

text \<open>C14: in every run, no turn of a worker uses a client that is not there: no reference to an empty
  slot or to a removed client is followed and the event array is not overrun. The only undefined
  behaviour a worker's turn can have is the conversion of a frame without a terminator, and that
  only while its frame has not been cleared yet, which is so before its first message, or when the
  kernel delivers as many bytes as the frame has. A turn that ends normally leaves the frame cleared,
  or as it was when nothing was read.\<close>

theorem no_reference_to_gone_client:
  assumes "sys_reach os (string_queue_ops mv) n y" and "int n \<le> INT_MAX" and "ctl_spec os"
    and "recv_spec os" and "epoll_spec os" and "k < length (sy_workers y)"
    and "worker_iteration os (string_queue_ops mv) (sy_workers y ! k) (sy_state y) = (r, t)"
  shows "(\<forall>x. r = Inl (Undefined_behaviour x) \<longrightarrow> x = over_read \<and> (cleared (wk_frame (sy_workers y ! k)) \<longrightarrow> \<not> short_reads os)) \<and>
    (\<forall>w. r = Inr w \<longrightarrow> wk_frame w = wk_frame (sy_workers y ! k) \<or> cleared (wk_frame w))"
proof -
  let ?w = "sy_workers y ! k"
  have "worker_ok ?w" using sys_reach_workers [OF assms(4,5,1)] assms(6) by simp
  moreover obtain R where "mset (served y) = mset (wk_clients ?w) + R"
    using served_update [OF assms(6), of wk_clients] by (metis served_def)
  moreover have "set (wk_clients ?w) \<subseteq> set (served y)" using nth_mem [OF assms(6)] by (auto simp: served_def)
  ultimately have "turn_ok (unterminated os (wk_frame ?w)) (wk_frame ?w) (worker_iteration os (string_queue_ops mv) ?w (sy_state y))"
    using srv.sys_held [OF assms(3,1,2)] assms(4,5)
    by (intro srv.worker_turn_safe) auto
  with assms(7) show ?thesis by (auto simp: turn_ok_def safe_def yields_def unterminated_def)
qed

theorem no_reference_to_gone_client_witness:
  "\<exists>y r t. sys_reach arriving_os (string_queue_ops (\<lambda>s. s)) 1 y \<and> sy_workers y \<noteq> [] \<and>
     worker_iteration arriving_os (string_queue_ops (\<lambda>s. s)) (sy_workers y ! 0) (sy_state y) = (r, t) \<and>
     (\<forall>x. r \<noteq> Inl (Undefined_behaviour x))"
proof -
  obtain y w where y: "sys_reach arriving_os (string_queue_ops (\<lambda>s. s)) 1 y" "sy_workers y = [w]"
    "wk_frame w = \<lparr>mf_msg = replicate 512 (CHR 0x00), mf_msg_len = 512\<rparr>"
    using first_worker_runs by fastforce
  obtain r t where r: "worker_iteration arriving_os (string_queue_ops (\<lambda>s. s)) (sy_workers y ! 0) (sy_state y) = (r, t)" by fastforce
  have "cleared (wk_frame (sy_workers y ! 0))" using y(2,3) by (simp add: cleared_def)
  moreover have "short_reads arriving_os"
    by (auto simp: short_reads_def arriving_os_def Let_def get_concatenated_msg_def empty_message_def)
  ultimately have "\<forall>x. r \<noteq> Inl (Undefined_behaviour x)"
    using no_reference_to_gone_client [OF y(1) _ arriving_os_ctl arriving_os_specs _ r] y(2) by (auto simp: INT_MAX_def)
  with y(1,2) r show ?thesis by (intro exI [of _ y]) auto
qed

end
