(* ===== verification/Wire_Integrity.thy ===== *)
theory Wire_Integrity
  imports Chat_System Server_Queue
begin

text \<open>
  What the server puts on the wire. Whatever the clients send, every text the server sends to a
  client and every text in its queues is a message that the parser of the other side accepts, and
  of a kind that side knows. The invariant goes through all handlers: names taken from a parsed
  message hold no separator, so that messages built from them do not either.
\<close>

definition wire_ok :: "actions list \<Rightarrow> string \<Rightarrow> bool" where
  "wire_ok kinds text \<longleftrightarrow> (\<exists>m. sendable m \<and> text = get_concatenated_msg m \<and> sm_action m \<in> get_action ` set kinds)"

definition to_client :: "actions list" where
  "to_client = [UNICAST_REPEATED, SV_DISCONNECTED]"

definition to_listener :: "actions list" where
  "to_listener = [UNICAST_REPEATED, SV_DISCONNECTED, INIT_DONE, CL_DISCONNECTED]"

definition on_the_wire :: "actions list" where
  "on_the_wire = [UNICAST_REPEATED, SV_DISCONNECTED, INIT_REQ]"

definition sent_ok :: "history \<Rightarrow> bool" where
  "sent_ok h \<longleftrightarrow> (\<forall>fd text r. Ev_send fd text r \<in> set h \<longrightarrow> wire_ok on_the_wire text)"

definition client_clean :: "('q \<Rightarrow> bool) \<Rightarrow> ('q \<Rightarrow> string list) \<Rightarrow> 'q client_data \<Rightarrow> bool" where
  "client_clean ok items c \<longleftrightarrow> split_token \<notin> set (cd_name c) \<and> ok (cd_send_queue c) \<and>
     list_all (wire_ok to_client) (items (cd_send_queue c))"

definition clean :: "('q \<Rightarrow> bool) \<Rightarrow> ('q \<Rightarrow> string list) \<Rightarrow> ('q, 'z) manager_state_scheme \<Rightarrow> bool" where
  "clean ok items s \<longleftrightarrow> sent_ok (hist s) \<and> ok (q_worker_to_listener s) \<and>
     list_all (wire_ok to_listener) (items (q_worker_to_listener s)) \<and>
     (\<forall>c. Some c \<in> set (clients s) \<longrightarrow> client_clean ok items c)"

text \<open>A part of a turn that keeps the state clean and, if it returns, returns such a value.\<close>

definition leaves_clean ::
  "('q \<Rightarrow> bool) \<Rightarrow> ('q \<Rightarrow> string list) \<Rightarrow> ('a \<Rightarrow> bool) \<Rightarrow> (failure, 'a, ('q, 'z) manager_state_scheme) outcome \<Rightarrow> bool" where
  "leaves_clean ok items R r \<longleftrightarrow> clean ok items (snd r) \<and> (\<forall>a. fst r = Inr a \<longrightarrow> R a)"

named_theorems wire \<open>parts of a turn that keep the state clean\<close>

lemma leaves_clean_bind_with:
  assumes "leaves_clean ok items R r" "\<And>a s. R a \<Longrightarrow> clean ok items s \<Longrightarrow> leaves_clean ok items P (f a s)"
  shows "leaves_clean ok items P (bindE r f)"
  using assms by (auto simp: leaves_clean_def bindE_def split: prod.splits sum.splits)

lemma leaves_clean_bind [wire]:
  assumes "leaves_clean ok items (\<lambda>_. True) r" "\<And>a s. clean ok items s \<Longrightarrow> leaves_clean ok items P (f a s)"
  shows "leaves_clean ok items P (bindE r f)"
  using assms by (rule leaves_clean_bind_with)

lemma leaves_clean_ends [simp]:
  "leaves_clean ok items R (Inr a, s) \<longleftrightarrow> clean ok items s \<and> R a"
  "leaves_clean ok items R (Inl e, s) \<longleftrightarrow> clean ok items s"
  "leaves_clean ok items R (liftE x s) \<longleftrightarrow> clean ok items s \<and> (\<forall>a. x = Inr a \<longrightarrow> R a)"
  by (auto simp: leaves_clean_def liftE_def)

lemma sent_ok_snoc: "sent_ok (h @ [e]) \<longleftrightarrow> sent_ok h \<and> (\<forall>fd text r. e = Ev_send fd text r \<longrightarrow> wire_ok on_the_wire text)"
  by (auto simp: sent_ok_def)

lemma clean_fields [simp]:
  "clean ok items (s\<lparr>server_done := b\<rparr>) \<longleftrightarrow> clean ok items s" "clean ok items (s\<lparr>q_listener_to_worker := q\<rparr>) \<longleftrightarrow> clean ok items s"
  "clean ok items (s\<lparr>worker_threads := ws\<rparr>) \<longleftrightarrow> clean ok items s" "clean ok items (s\<lparr>nr_of_launched_threads := n\<rparr>) \<longleftrightarrow> clean ok items s"
  "clean ok items (s\<lparr>max_clients_per_thread := n\<rparr>) \<longleftrightarrow> clean ok items s" "clean ok items (set_worker i w s) \<longleftrightarrow> clean ok items s"
  by (simp_all add: clean_def set_worker_def)

lemma clean_emit:
  "clean ok items (emit e s) \<longleftrightarrow> clean ok items s \<and> (\<forall>fd text r. e = Ev_send fd text r \<longrightarrow> wire_ok on_the_wire text)"
  by (auto simp: clean_def sent_ok_snoc)

lemma clean_prints [simp]:
  "clean ok items (emit_print x s) \<longleftrightarrow> clean ok items s" "clean ok items (close_fd fd s) \<longleftrightarrow> clean ok items s"
  by (simp_all add: emit_print_def close_fd_def clean_emit)

lemma clean_closing [wire]:
  fixes r :: "(failure, 'a, ('q, 'z) manager_state_scheme) outcome"
  shows "leaves_clean ok items R r \<Longrightarrow> leaves_clean ok items R (closing_em em r)"
  by (auto simp: leaves_clean_def closing_em_def handleE_def EpollManager_destroy_def split: prod.splits sum.splits)

lemma clean_put:
  "clean ok items s \<Longrightarrow> client_clean ok items d \<Longrightarrow> clean ok items (put_client i d s)"
  by (auto simp: clean_def dest!: in_set_update)

lemma clean_deref:
  assumes "clean ok items s" "\<And>c. client_clean ok items c \<Longrightarrow> leaves_clean ok items P (f c s)"
  shows "leaves_clean ok items P (bindE (liftE (deref i s) s) f)"
proof (cases "deref i s")
  case (Inr c)
  then have "Some c \<in> set (clients s)" using deref_InrD [OF Inr] by (metis nth_mem)
  with assms Inr show ?thesis by (simp add: clean_def)
qed (use assms(1) in simp)

lemma clean_client_fields [simp]:
  "client_clean ok items (inc_state c) \<longleftrightarrow> client_clean ok items c"
  "client_clean ok items (set_state n c) \<longleftrightarrow> client_clean ok items c"
  "client_clean ok items (c\<lparr>cd_name := name\<rparr>) \<longleftrightarrow> split_token \<notin> set name \<and> ok (cd_send_queue c) \<and>
     list_all (wire_ok to_client) (items (cd_send_queue c))"
  "client_clean ok items (c\<lparr>cd_send_queue := q\<rparr>) \<longleftrightarrow> split_token \<notin> set (cd_name c) \<and> ok q \<and>
     list_all (wire_ok to_client) (items q)"
  by (simp_all add: client_clean_def)

text \<open>System calls that do not send.\<close>

lemma clean_calls [wire]:
  "clean ok items s \<Longrightarrow> leaves_clean ok items (\<lambda>_. True) (server_receive_msg os f cid s)"
  "clean ok items s \<Longrightarrow> leaves_clean ok items (\<lambda>_. True) (write_one os fd err s)"
  "clean ok items s \<Longrightarrow> leaves_clean ok items (\<lambda>_. True) (read_wakeup os fd err s)"
  "clean ok items s \<Longrightarrow> leaves_clean ok items (\<lambda>_. True) (get_evfd os s)"
  "clean ok items s \<Longrightarrow> leaves_clean ok items (\<lambda>_. True) (add_monitored_fd os em ep s)"
  "clean ok items s \<Longrightarrow> leaves_clean ok items (\<lambda>_. True) (wait_events os em s)"
  "clean ok items s \<Longrightarrow> leaves_clean ok items (\<lambda>_. True) (EpollManager_new os junk s)"
  "clean ok items s \<Longrightarrow> leaves_clean ok items (\<lambda>_. True) (set_is_done s)"
  by (auto simp: server_receive_msg_def call_recv_def write_one_def call_write_evfd_def read_wakeup_def call_read_evfd_def
      get_evfd_def add_monitored_fd_def wait_events_def EpollManager_new_def set_is_done_def Let_def clean_emit
      split: sum.splits prod.splits)

lemma clean_send [wire]:
  "clean ok items s \<Longrightarrow> wire_ok on_the_wire text \<Longrightarrow> leaves_clean ok items (\<lambda>_. True) (server_send_msg os text cid s)"
  by (auto simp: server_send_msg_def call_send_def Let_def clean_emit split: sum.splits)

lemma wire_ok_mono: "wire_ok ks x \<Longrightarrow> set ks \<subseteq> set ls \<Longrightarrow> wire_ok ls x"
  by (auto simp: wire_ok_def)

lemma wire_okI: "sendable m \<Longrightarrow> sm_action m = get_action k \<Longrightarrow> k \<in> set ks \<Longrightarrow> wire_ok ks (get_concatenated_msg m)"
  by (auto simp: wire_ok_def)

text \<open>The messages the server builds.\<close>

lemma no_token_literals:
  "split_token \<notin> set SERVER_NAME" "split_token \<notin> set '' Has Just Connected!''"
  "split_token \<notin> set ''Hello ''" "split_token \<notin> set '', now you can chat!''"
  by (simp_all add: split_token_def SERVER_NAME_def)

lemma built_messages:
  assumes "sendable m" "split_token \<notin> set (cd_name c)"
  shows "sendable (welcome_message c m)" "sendable (joined_message c m)" "sendable (confirm_message c m)"
    "sendable (leave_message c i cid m)" "sendable (reset_msg m)"
  using assms no_token_literals
  by (simp_all add: sendable_iff split_token_simps welcome_message_def joined_message_def confirm_message_def leave_message_def
      reset_msg_def del: get_action_simps)

context server_queue
begin

lemma clean_worker_push [wire]:
  assumes "clean inv items s" "wire_ok to_listener (get_concatenated_msg m)"
  shows "leaves_clean inv items (\<lambda>_. True) (worker_push os Q m fd s)"
proof -
  have i: "inv (q_worker_to_listener s)" using assms(1) by (simp add: clean_def)
  have "clean inv items (s\<lparr>q_worker_to_listener := q\<rparr>)"
    if "queue_push Q (get_concatenated_msg m) (q_worker_to_listener s) = Inr (b, q)" for b q
    by (rule push_cases [OF i, of "get_concatenated_msg m"]) (use assms that in \<open>auto simp: clean_def\<close>)
  then show ?thesis
    using assms(1) by (auto simp: worker_push_def Let_def intro!: wire split: sum.splits)
qed

lemma clean_unicast [wire]:
  "clean inv items s \<Longrightarrow> wire_ok to_client msg \<Longrightarrow> leaves_clean inv items (\<lambda>_. True) (unicast_repeated Q ex ids msg s)"
proof (induction ids arbitrary: s)
  case (Cons j ids)
  have step: "leaves_clean inv items (\<lambda>_. True) (case queue_push Q msg (cd_send_queue c) of
        Inl e \<Rightarrow> (Inl e, s)
      | Inr (pushed, q) \<Rightarrow> (let s = put_client i (c\<lparr>cd_send_queue := q\<rparr>) s in
         if pushed then unicast_repeated Q ex ids msg s
         else (Inl (Queue_exception (ln ''Failed to push message to corresponding client'')), s)))"
    if c: "client_clean inv items c" for c i
  proof -
    have i: "inv (cd_send_queue c)" using c by (simp add: client_clean_def)
    have "client_clean inv items (c\<lparr>cd_send_queue := q\<rparr>)" if "queue_push Q msg (cd_send_queue c) = Inr (b, q)" for b q
      by (rule push_cases [OF i, of msg]) (use c that Cons.prems in \<open>auto simp: client_clean_def\<close>)
    then show ?thesis
      using Cons by (auto simp: Let_def clean_put split: sum.splits)
  qed
  show ?case
    using Cons step by (auto intro!: clean_deref split: option.splits)
qed simp

lemma clean_drain [wire]:
  fixes s :: "('q, 'z) manager_state_scheme"
  shows "clean inv items s \<Longrightarrow> leaves_clean inv items (\<lambda>_. True) (drain_send_queue n os Q i s)"
proof (induction n arbitrary: s)
  case (Suc n)
  have step: "leaves_clean inv items (\<lambda>_. True) (case queue_pop Q (cd_send_queue cl) of
         Inl e \<Rightarrow> (Inl e, s)
       | Inr (None, q) \<Rightarrow> (Inr (), put_client i (cl\<lparr>cd_send_queue := q\<rparr>) s)
       | Inr (Some send_msg, q) \<Rightarrow>
           bindE (server_send_msg os send_msg (cd_personal_id cl) (put_client i (cl\<lparr>cd_send_queue := q\<rparr>) s))
             (\<lambda>_ s. drain_send_queue n os Q i s))"
    if c: "client_clean inv items cl" for cl
  proof -
    have i: "inv (cd_send_queue cl)" using c by (simp add: client_clean_def)
    have "client_clean inv items (cl\<lparr>cd_send_queue := q\<rparr>) \<and> (\<forall>y. x = Some y \<longrightarrow> wire_ok on_the_wire y)"
      if "queue_pop Q (cd_send_queue cl) = Inr (x, q)" for x q
      by (rule pop_cases [OF i])
        (use c that in \<open>auto simp: client_clean_def to_client_def on_the_wire_def elim!: wire_ok_mono\<close>)
    then show ?thesis
      using Suc by (auto intro!: wire clean_put split: sum.splits option.splits)
  qed
  show ?case
    unfolding drain_send_queue.simps by (rule clean_deref [OF Suc.prems]) (rule step)
qed simp

lemma clean_process_input [wire]:
  assumes "clean inv items s" "sendable m"
  shows "leaves_clean inv items sendable (process_input os Q m i fd s)"
proof -
  have name: "split_token \<notin> set (sm_name m)" using assms(2) by (simp add: sendable_iff)
  have chat: "wire_ok to_listener (get_concatenated_msg m)" if "sm_action m = get_action UNICAST_REPEATED"
    using wire_okI [OF assms(2) that] by (simp add: to_listener_def)
  have built: "wire_ok on_the_wire (get_concatenated_msg (welcome_message c m))"
    "wire_ok to_listener (get_concatenated_msg (joined_message c (welcome_message c m)))" "sendable (reset_msg (welcome_message c m))"
    if "client_clean inv items c" for c
  proof -
    have n: "split_token \<notin> set (cd_name c)" using that by (simp add: client_clean_def)
    note w = built_messages(1) [OF assms(2) n]
    show "wire_ok on_the_wire (get_concatenated_msg (welcome_message c m))"
      by (rule wire_okI [OF w, of UNICAST_REPEATED]) (simp_all add: welcome_message_def on_the_wire_def)
    show "wire_ok to_listener (get_concatenated_msg (joined_message c (welcome_message c m)))"
      by (rule wire_okI [OF built_messages(2) [OF w n], of INIT_DONE]) (simp_all add: joined_message_def to_listener_def)
    show "sendable (reset_msg (welcome_message c m))" by (rule built_messages(5) [OF w n])
  qed
  have reset: "sendable (reset_msg m)" by (simp add: sendable_iff reset_msg_def)
  show ?thesis
    unfolding process_input_def
    by (rule clean_deref [OF assms(1)])
      (use assms name chat built reset in \<open>auto simp: Let_def client_clean_def intro!: wire clean_put\<close>)
qed

lemma clean_process_output [wire]:
  assumes "clean inv items s" "sendable m"
  shows "leaves_clean inv items sendable (process_output os Q m i s)"
proof -
  have built: "sendable (confirm_message (inc_state c) m)" "wire_ok on_the_wire (get_concatenated_msg (confirm_message (inc_state c) m))"
    if "client_clean inv items c" for c
  proof -
    have "split_token \<notin> set (cd_name (inc_state c))" using that by (simp add: client_clean_def inc_state_def)
    then show s: "sendable (confirm_message (inc_state c) m)" by (rule built_messages(3) [OF assms(2)])
    show "wire_ok on_the_wire (get_concatenated_msg (confirm_message (inc_state c) m))"
      by (rule wire_okI [OF s, of INIT_REQ]) (simp_all add: confirm_message_def on_the_wire_def)
  qed
  show ?thesis
    unfolding process_output_def
    by (rule clean_deref [OF assms(1)]) (use assms built in \<open>auto simp: Let_def intro!: wire clean_put\<close>)
qed

lemma clean_process_client_state [wire]:
  "clean inv items s \<Longrightarrow> sendable m \<Longrightarrow> leaves_clean inv items sendable (process_client_state os Q is_input m r fd s)"
  by (auto simp: process_client_state_def intro!: wire split: option.splits)

lemma clean_client_output [wire]:
  assumes "clean inv items s" "sendable (wk_msg w)"
  shows "leaves_clean inv items (\<lambda>v. sendable (wk_msg v)) (client_output os Q ret fd r w s)"
  using assms unfolding client_output_def
  by (auto intro!: leaves_clean_bind [where r = "liftE _ _"] leaves_clean_bind_with [OF clean_process_client_state])

lemma clean_eof:
  assumes "clean inv items s" "R w"
  shows "leaves_clean inv items R (bindE (liftE (deref i s) s) (\<lambda>cl s. (Inr w, put_client i (set_state DISCONNECT_STATE cl) s)))"
  by (rule clean_deref [OF assms(1)]) (use assms in \<open>simp add: clean_put\<close>)

lemma clean_client_events [wire]:
  assumes "clean inv items s" "sendable (wk_msg w)"
  shows "leaves_clean inv items (\<lambda>v. sendable (wk_msg v)) (client_events os Q ret c w s)"
proof -
  have read: "leaves_clean inv items sendable (liftE (construct_from_string x m0) t)" if "clean inv items t"
    for x m0 and t :: "('q, 'a) manager_state_scheme"
    using that by (auto simp: construct_Inr_iff)
  show ?thesis
    using assms unfolding client_events_def Let_def
    by (auto intro!: leaves_clean_bind [where r = "server_receive_msg _ _ _ _"] leaves_clean_bind [where r = "liftE (check_event _ _ _ _) _"]
        leaves_clean_bind [where r = "liftE (string_of_array _) _"]
        clean_calls clean_eof clean_client_output leaves_clean_bind_with [OF read]
        leaves_clean_bind_with [OF clean_process_client_state] split: option.splits)
qed

lemma clean_all_client_events:
  "clean inv items s \<Longrightarrow> sendable (wk_msg w) \<Longrightarrow>
    leaves_clean inv items (\<lambda>v. sendable (wk_msg v)) (all_client_events os Q ret cs w s)"
  by (induction cs arbitrary: w s) (auto intro!: leaves_clean_bind_with [OF clean_client_events])

lemma clean_erase:
  fixes s :: "('q, 'z) manager_state_scheme"
  shows "clean inv items s \<Longrightarrow> sendable (wk_msg w) \<Longrightarrow>
    leaves_clean inv items (\<lambda>(kept, v). sendable (wk_msg v)) (erase_disconnected os Q cs w s)"
proof (induction cs arbitrary: w s)
  case (Cons c cs)
  have leave: "sendable (leave_message cl i cid (wk_msg w))"
    "wire_ok to_listener (get_concatenated_msg (leave_message cl i cid (wk_msg w)))" if "client_clean inv items cl" for cl i cid
  proof -
    show m: "sendable (leave_message cl i cid (wk_msg w))"
      by (rule built_messages(4) [OF Cons.prems(2)]) (use that in \<open>simp add: client_clean_def\<close>)
    show "wire_ok to_listener (get_concatenated_msg (leave_message cl i cid (wk_msg w)))"
      by (rule wire_okI [OF m, of CL_DISCONNECTED]) (simp_all add: leave_message_def to_listener_def)
  qed
  have keep: "leaves_clean inv items (\<lambda>(kept, v). sendable (wk_msg v)) (bindE (erase_disconnected os Q cs w s)
      (\<lambda>(kept, w) s. (Inr (c # kept, w), s)))"
    by (rule leaves_clean_bind_with [OF Cons.IH [OF Cons.prems]]) auto
  show ?case
    using Cons.prems leave keep
    by (auto simp: Let_def intro!: clean_deref leaves_clean_bind [where r = "worker_push _ _ _ _ _"] clean_worker_push Cons.IH split: option.splits)
qed simp

lemma clean_worker_queue:
  "clean inv items s \<Longrightarrow> leaves_clean inv items (\<lambda>_. True) (worker_process_listener_to_worker_q os Q em i fd s)"
  by (auto simp: worker_process_listener_to_worker_q_def Let_def intro!: leaves_clean_bind clean_calls split: sum.splits option.splits)

lemma clean_worker_iteration:
  assumes "clean inv items s" "sendable (wk_msg w)"
  shows "leaves_clean inv items (\<lambda>v. sendable (wk_msg v)) (worker_iteration os Q w s)"
proof -
  have last: "leaves_clean inv items (\<lambda>v. sendable (wk_msg v)) (bindE (all_client_events os Q ret cs v t) (\<lambda>w s.
      bindE (erase_disconnected os Q (wk_clients w) w s) (\<lambda>(kept, w) s.
        take_new_client q (w\<lparr>wk_clients := kept\<rparr>) s)))"
    if "sendable (wk_msg v)" "clean inv items t" for ret cs v q and t :: "('q, 'a) manager_state_scheme"
    by (rule leaves_clean_bind_with [OF clean_all_client_events [OF that(2,1)]], rule leaves_clean_bind_with [OF clean_erase])
      (auto simp: take_new_client_def split: prod.splits)
  show ?thesis
    unfolding worker_iteration_def Let_def
    by (rule leaves_clean_bind [OF clean_calls(6) [OF assms(1)]])
      (use assms(2) in \<open>auto intro!: leaves_clean_bind [where r = "liftE _ _"] leaves_clean_bind [where r = "if _ then _ else _"]
         clean_worker_queue last\<close>)
qed

lemma clean_worker_init:
  "clean inv items s \<Longrightarrow> leaves_clean inv items (\<lambda>w. sendable (wk_msg w)) (worker_init os je jm fd cid i e l s)"
  by (auto simp: worker_init_def sendable_iff empty_message_def intro!: leaves_clean_bind clean_calls)

subsubsection \<open>The listener\<close>

lemma clean_worker_client_disconnect [wire]:
  "clean inv items s \<Longrightarrow> leaves_clean inv items (\<lambda>_. True) (worker_client_disconnect i s)"
  by (auto simp: worker_client_disconnect_def Let_def clean_emit intro!: wire split: prod.splits option.splits)

lemma clean_disconnect [wire]:
  "clean inv items s \<Longrightarrow> leaves_clean inv items (\<lambda>_. True) (disconnect_client cid s)"
  by (auto simp: disconnect_client_def Let_def clean_def close_fd_def sent_ok_snoc dest!: in_set_update split: option.splits sum.splits)

lemma clean_dispatch [wire]:
  fixes s :: "('q, 'z) manager_state_scheme"
  assumes "clean inv items s" "sendable m"
  shows "leaves_clean inv items (\<lambda>_. True) (dispatch_message Q m (get_concatenated_msg m) ids s)"
proof -
  have chat: "wire_ok to_client (get_concatenated_msg m)"
    if "sm_action m = get_action UNICAST_REPEATED \<or> sm_action m = get_action SV_DISCONNECTED"
    using assms(2) that by (auto simp: wire_ok_def to_client_def)
  have joined: "wire_ok to_client (get_concatenated_msg (m\<lparr>sm_action := get_action UNICAST_REPEATED\<rparr>))"
    by (rule wire_okI [of _ UNICAST_REPEATED]) (use assms(2) in \<open>simp_all add: to_client_def sendable_iff split_token_def\<close>)
  have left: "wire_ok to_client (get_concatenated_msg (m\<lparr>sm_action := get_action UNICAST_REPEATED,
      sm_msg_content := sm_name m @ '' Has just left!'', sm_name := SERVER_NAME\<rparr>))"
    by (rule wire_okI [of _ UNICAST_REPEATED])
      (use assms(2) in \<open>simp_all add: to_client_def sendable_iff split_token_def SERVER_NAME_def\<close>)
  have "leaves_clean inv items (\<lambda>_. True) (dispatch_disconnect Q m ids s)"
    unfolding dispatch_disconnect_def Let_def
    using assms(1) left by (auto intro!: wire split: option.splits)
  with assms(1) chat joined show ?thesis
    unfolding dispatch_message_def Let_def by (auto intro!: wire)
qed

lemma clean_listener_queue [wire]:
  fixes s :: "('q, 'z) manager_state_scheme"
  assumes "clean inv items s"
  shows "leaves_clean inv items (\<lambda>_. True) (listener_process_worker_to_listener_q os Q fd s)"
proof -
  have popped: "clean inv items (t\<lparr>q_worker_to_listener := q\<rparr>) \<and> (\<forall>y. x = Some y \<longrightarrow> wire_ok to_listener y)"
    if t: "clean inv items t" "queue_pop Q (q_worker_to_listener t) = Inr (x, q)" for x q and t :: "('q, 'z) manager_state_scheme"
  proof -
    have i: "inv (q_worker_to_listener t)" using t(1) by (simp add: clean_def)
    show ?thesis by (rule pop_cases [OF i]) (use t in \<open>auto simp: clean_def\<close>)
  qed
  have handle: "leaves_clean inv items (\<lambda>_. True) (bindE (liftE (construct_from_string x empty_message) t) (\<lambda>msg s.
      let populatedIDs = get_connected_IDs s in
      if populatedIDs = [] then (Inr (), s) else dispatch_message Q msg x populatedIDs s))"
    if "wire_ok to_listener x" "clean inv items t" for x and t :: "('q, 'z) manager_state_scheme"
    using that clean_dispatch [of t] by (auto simp: wire_ok_def construct_of_concatenated Let_def)
  show ?thesis
    unfolding listener_process_worker_to_listener_q_def
    by (rule leaves_clean_bind [OF clean_calls(3) [OF assms]])
      (use popped handle in \<open>auto simp: Let_def split: sum.splits option.splits\<close>)
qed

lemma clean_listener_stdin [wire]:
  assumes "clean inv items s"
  shows "leaves_clean inv items (\<lambda>_. True) (listener_stdin os Q s)"
proof -
  have bye: "wire_ok to_listener (get_concatenated_msg quit_message)"
    by (rule wire_okI [of _ SV_DISCONNECTED]) (simp_all add: quit_message_def to_listener_def sendable_iff empty_message_def split_token_def)
  have "clean inv items (t\<lparr>q_worker_to_listener := q\<rparr>)"
    if t: "clean inv items t" "queue_push Q (get_concatenated_msg quit_message) (q_worker_to_listener t) = Inr (b, q)"
    for b q and t :: "('q, 'a) manager_state_scheme"
  proof -
    have i: "inv (q_worker_to_listener t)" using t(1) by (simp add: clean_def)
    show ?thesis by (rule push_cases [OF i, of "get_concatenated_msg quit_message"]) (use t bye in \<open>auto simp: clean_def\<close>)
  qed
  then show ?thesis
    using assms by (auto simp: listener_stdin_def Let_def clean_emit intro!: leaves_clean_bind clean_calls split: sum.splits)
qed

lemma clean_place [wire]:
  assumes "clean inv items s"
  shows "leaves_clean inv items (\<lambda>_. True) (place_client os Q sock s)"
  using assms new_inv new_items
  by (auto simp: place_client_def Client_Data_new_def getRandomColorID_def Let_def clean_def client_clean_def close_fd_def
      sent_ok_snoc dest!: in_set_update split: option.splits)

lemma clean_accept [wire]:
  "clean inv items s \<Longrightarrow> leaves_clean inv items (\<lambda>_. True) (accept_client os Q b s)"
  by (auto simp: accept_client_def Let_def clean_emit intro!: wire split: prod.splits)

lemma clean_new_client [wire]:
  "clean inv items s \<Longrightarrow> leaves_clean inv items (\<lambda>_. True) (process_new_client os Q sock cid fd s)"
  by (auto simp: process_new_client_def emplace_new_worker_def add_to_worker_def assign_client_to_worker_def Let_def clean_emit
      intro!: wire split: prod.splits sum.splits)

lemma clean_listener_accept [wire]:
  assumes "clean inv items s"
  shows "leaves_clean inv items (\<lambda>_. True) (listener_accept os Q fd s)"
proof -
  have "leaves_clean inv items (\<lambda>_. True) (bindE (accept_client os Q True s) (\<lambda>(socket, cl_id) s.
      process_new_client os Q socket cl_id fd s))"
    using assms by (auto intro!: wire)
  moreover have "leaves_clean inv items (\<lambda>_. True) (accept_handlers e t)" if "clean inv items t"
    for e and t :: "('q, 'a) manager_state_scheme"
    using that by (auto simp: accept_handlers_def intro!: clean_calls split: failure.splits)
  ultimately show ?thesis
    by (auto simp: listener_accept_def handleE_def leaves_clean_def split: prod.splits sum.splits)
qed

lemma clean_listener_iteration:
  "clean inv items s \<Longrightarrow> leaves_clean inv items (\<lambda>_. True) (listener_iteration os Q l s)"
  by (auto simp: listener_iteration_def listener_events_def when_event_def Let_def intro!: wire split: prod.splits)

lemma clean_boot:
  assumes "Server_local os addr (manager_start Q []) = (Inr (), s1)" "listen_connections os s1 = (Inr (), s2)"
    "listener_init os je s2 = (Inr l, s)"
  shows "clean inv items s"
proof -
  have "clean inv items (manager_start Q [])"
    by (simp add: clean_def sent_ok_def manager_start_def server_start_def server_state.defs manager_state.defs new_inv new_items)
  then have "clean inv items s1"
    using assms(1) by (auto simp: Server_local_def open_sv_socket_def Let_def clean_def sent_ok_def split: if_splits)
  then have s2: "clean inv items s2"
    using assms(2) by (auto simp: listen_connections_def Let_def clean_emit split: if_splits)
  have "leaves_clean inv items (\<lambda>_. True) (listener_init os je s2)"
    using s2 by (auto simp: listener_init_def Let_def intro!: wire)
  with assms(3) show ?thesis by simp
qed

lemma sys_clean:
  "sys_reach os Q n y \<Longrightarrow> clean inv items (sy_state y) \<and> (\<forall>w \<in> set (sy_workers y). sendable (wk_msg w))"
proof (induction rule: sys_reach_induct)
  case (boot y)
  then show ?case by (auto elim!: sys_boot.cases dest: clean_boot)
next
  case (step n j y z)
  from step(2,3) show ?case
  proof (cases rule: sys_step.cases)
    case (listener_turn l s)
    with step(3) clean_listener_iteration [of "sy_state y" os "sy_listener y"] show ?thesis by (simp add: leaves_clean_def)
  next
    case (listener_end e s t)
    with step(3) clean_listener_iteration [of "sy_state y" os "sy_listener y"] listener_handlers_prints [OF listener_end(6)]
    show ?thesis by (auto simp: leaves_clean_def clean_emit EpollManager_destroy_def emit_print_def)
  next
    case (worker_start sock cid i e lev je jm w s)
    with step(3) clean_worker_init [of "sy_state y" os je jm sock cid i e lev] show ?thesis by (auto simp: leaves_clean_def)
  next
    case (worker_turn k w s)
    with step(3) clean_worker_iteration [of "sy_state y" "sy_workers y ! k" os] show ?thesis
      by (auto simp: leaves_clean_def dest!: in_set_update)
  qed
qed

end

subsection \<open>Properties\<close>

text \<open>C9: in every run of the server, whatever the clients send and however the turns are interleaved, every
  text the server passes to \<^verbatim>\<open>send\<close> is the text of one message, which the parser of
  the client accepts and reads back unchanged, and which is of one of the three kinds a client
  handles: a confirmation, a chat line or the end of the server. What waits in the clients' queues
  is of the latter two.\<close>

theorem everything_sent_parses:
  assumes "sys_reach os (string_queue_ops mv) n y"
  shows "(\<forall>fd x r. Ev_send fd x r \<in> set (hist (sy_state y)) \<longrightarrow> (\<exists>m. construct_from_string x m0 = Inr m \<and>
      get_concatenated_msg m = x \<and> sm_action m \<in> {get_action INIT_REQ, get_action UNICAST_REPEATED, get_action SV_DISCONNECTED})) \<and>
    (\<forall>c x. Some c \<in> set (clients (sy_state y)) \<longrightarrow> x \<in> set (string_queue_items (cd_send_queue c)) \<longrightarrow>
      (\<exists>m. construct_from_string x m0 = Inr m \<and> get_concatenated_msg m = x \<and>
        sm_action m \<in> {get_action UNICAST_REPEATED, get_action SV_DISCONNECTED}))"
proof -
  have parses: "\<exists>m. construct_from_string x m0 = Inr m \<and> get_concatenated_msg m = x \<and> sm_action m \<in> get_action ` set ks"
    if "wire_ok ks x" for ks x
    using that by (auto simp: wire_ok_def construct_of_concatenated)
  have c: "clean string_queue_inv string_queue_items (sy_state y)" using srv.sys_clean [OF assms] by simp
  then have "wire_ok on_the_wire x" if "Ev_send fd x r \<in> set (hist (sy_state y))" for fd x r
    using that by (auto simp: clean_def sent_ok_def)
  moreover have "wire_ok to_client x" if "Some c \<in> set (clients (sy_state y))" "x \<in> set (string_queue_items (cd_send_queue c))" for c x
    using c that by (auto simp: clean_def client_clean_def list_all_iff)
  ultimately show ?thesis
    using parses by (fastforce simp: on_the_wire_def to_client_def)
qed

lemma first_worker_replies:
  fixes Q :: "'q queue_ops"
  shows "\<exists>y. sys_reach arriving_os Q 1 y \<and> (\<exists>r m. Ev_send 21 (get_concatenated_msg m) r \<in> set (hist (sy_state y)) \<and> sm_name m = ''ann'')"
proof -
  obtain y w where y: "sys_reach arriving_os Q 1 y" "sy_workers y = [w]" "newcomer (sy_state y)"
    "w = \<lparr>wk_em = \<lparr>epfd = 5, events = replicate 20 (0, 0)\<rparr>, wk_clients = [(21, 0)],
       wk_frame = \<lparr>mf_msg = replicate 512 (CHR 0x00), mf_msg_len = 512\<rparr>, wk_msg = empty_message,
       wk_index = 0, wk_evfd = 7, wk_listener_evfd = 7\<rparr>"
    using first_worker_runs by blast
  obtain c where c: "sv_socket (sy_state y) = 3" "\<not> check_is_done (sy_state y)" "clients (sy_state y) = Some c # replicate 5 None"
    "cd_personal_id c = 0" "cd_fd c = 21" "cd_init_state c = INITIAL_STATE"
    using y(3) by (auto simp: newcomer_def)
  let ?req = "empty_message\<lparr>sm_action := get_action INIT_REQ, sm_name := ''ann''\<rparr>"
  let ?text = "get_concatenated_msg ?req"
  have req: "sendable ?req" "length ?text = 19" "CHR 0x00 \<notin> set ?text"
    by (simp_all add: sendable_iff empty_message_def split_token_def get_concatenated_msg_def)
  have kernel: "sys_recv arriving_os h fd 512 = (19, ?text, EAGAIN)" "sys_epoll_wait arriving_os h fd 20 = (2, [(3, 1), (21, 5)])"
    "sys_send arriving_os h fd b = int (length b)" for h fd b
    using req(2) by (simp_all add: arriving_os_def quiet_os_def Let_def)
  have read: "string_of_array (?text @ replicate 493 (CHR 0x00)) = Inr ?text"
    using req(3) by (rule string_of_zeros) simp
  have turn: "\<exists>v t r m. worker_iteration arriving_os Q w (sy_state y) = (Inr v, t) \<and>
      Ev_send 21 (get_concatenated_msg m) r \<in> set (hist t) \<and> sm_name m = ''ann''"
    using c(1,3-6) req(1)
    apply (simp add: y(4) worker_iteration_def wait_events_def kernel check_event_def event_matches_def EPOLLIN_def EPOLLOUT_def
        client_events_def Let_def get_client_ref_def server_receive_msg_def get_selected_client_fd_def deref_def call_recv_def
        recv_into_def read req(2) construct_of_concatenated process_client_state_def del: get_action_simps)
    apply (simp add: process_input_def deref_def Let_def reset_msg_empty client_output_def check_event_def event_matches_def EPOLLOUT_def
        process_client_state_def process_output_def server_send_msg_def get_selected_client_fd_def get_client_ref_def call_send_def kernel
        inc_state_def get_state_def confirm_message_def take_new_client_def state_constants)
    apply (rule exI, rule exI [of _ "?req\<lparr>sm_color_id := to_string (cd_color_id c), sm_id := to_string 0\<rparr>"], simp)
    apply (rule disjI1, rule refl)
    done
  then obtain v t r m where t: "worker_iteration arriving_os Q w (sy_state y) = (Inr v, t)"
    "Ev_send 21 (get_concatenated_msg m) r \<in> set (hist t)" "sm_name m = ''ann''" by blast
  have "sys_step arriving_os Q 0 y (y\<lparr>sy_workers := (sy_workers y)[0 := v], sy_state := t\<rparr>)"
    by (rule sys_step.worker_turn) (use y(2,4) c(2) t(1) in \<open>simp_all add: worker_running_def\<close>)
  from sys_reach_step [OF y(1) this] have "sys_reach arriving_os Q 1 (y\<lparr>sy_workers := (sy_workers y)[0 := v], sy_state := t\<rparr>)" by simp
  with t show ?thesis by (intro exI conjI) (assumption, simp, simp)
qed

theorem everything_sent_parses_witness:
  "\<exists>y x r m. sys_reach arriving_os (string_queue_ops (\<lambda>s. s)) 1 y \<and> Ev_send 21 x r \<in> set (hist (sy_state y)) \<and>
     construct_from_string x empty_message = Inr m \<and> sm_name m = ''ann''"
proof -
  obtain y r n where y: "sys_reach arriving_os (string_queue_ops (\<lambda>s. s)) 1 y"
    "Ev_send 21 (get_concatenated_msg n) r \<in> set (hist (sy_state y))" "sm_name n = ''ann''"
    using first_worker_replies by blast
  obtain m where "construct_from_string (get_concatenated_msg n) empty_message = Inr m"
    using everything_sent_parses [OF y(1), of empty_message] y(2) by blast
  moreover from this have "m = n" by (simp add: construct_of_concatenated split: if_splits)
  ultimately show ?thesis using y by blast
qed

end
