(* ===== verification/Launch.thy ===== *)
theory Launch
  imports Chat_System Chat_Client
begin

text \<open>
  The two programs: \<^verbatim>\<open>src/Server/Server_main.cpp\<close> and \<^verbatim>\<open>src/Client/Client_main.cpp\<close>, from the command
  line to the loops. The argument list includes the name of the program. Starting other programs and
  listing the network interfaces are calls of the kernel record.
\<close>

definition EXIT_FAILURE :: int where
  "EXIT_FAILURE = 1"

subsection \<open>The server program\<close>

record process = os_state +
  gl_lan_dns_pid :: int

definition correct_launch_instructions :: out_item where
  "correct_launch_instructions = Cerr (get_color BRIGHT_RED @ ln ''Please launch the server like this:''
     @ ln ''./Server LOCALHOST'' @ ln ''or'' @ ln ''./Server LAN'' @ [CHR 0x0A])"

text \<open>The answer, and the flag the function writes.\<close>

definition check_argv_1 :: "string \<Rightarrow> bool \<times> bool" where
  "check_argv_1 str = (let local = (str = ''LOCALHOST''); lan = (str = ''LAN'') in (local \<or> lan, local))"

text \<open>The loop over the interfaces stops at the first address other than the loopback.\<close>

fun first_ipv4 :: "iface list \<Rightarrow> string" where
  "first_ipv4 [] = []"
| "first_ipv4 (No_address # ifas) = first_ipv4 ifas"
| "first_ipv4 (Other_family # ifas) = first_ipv4 ifas"
| "first_ipv4 (Ipv4 None # ifas) = first_ipv4 ifas"
| "first_ipv4 (Ipv4 (Some addr) # ifas) = (if addr \<noteq> LOCALHOST then addr else first_ipv4 ifas)"

definition get_local_ipv4 :: "os \<Rightarrow> 'z os_state_scheme \<Rightarrow> string \<times> 'z os_state_scheme" where
  "get_local_ipv4 os s =
     (let (r, ifas) = sys_getifaddrs os (hist s); s = emit (Ev_getifaddrs r) s in
      if r < 0 then ([], emit_print (cerr_out_err (ln ''Failed getifaddr'')) s) else (first_ipv4 ifas, s))"

text \<open>What follows the return inside the error branch is never reached.\<close>

definition kill_DNS_service :: "os \<Rightarrow> 'z process_scheme \<Rightarrow> bool \<times> 'z process_scheme" where
  "kill_DNS_service os s =
     (if 0 < gl_lan_dns_pid s then
        (let r = sys_kill os (hist s) (gl_lan_dns_pid s); s = emit (Ev_kill (gl_lan_dns_pid s)) s in
         if r < 0 then (False, emit_print (cerr_out_err (ln ''Failed to terminate the DNS avahi process'')) s)
         else (True, s))
      else (True, s))"

text \<open>The exit code of the process and the state it leaves.\<close>

definition handle_sigint :: "os \<Rightarrow> 'z process_scheme \<Rightarrow> int \<times> 'z process_scheme" where
  "handle_sigint os s = (1, if 0 < gl_lan_dns_pid s then snd (kill_DNS_service os s) else s)"

text \<open>
  The part for the mode \<open>LAN\<close>. The address and the port are kept as pointers into strings that
  are destroyed at the end of the statement: the child reads the port, and the constructor of
  the server reads the address, after that. What the storage of a destroyed text reads as is the
  parameter \<open>stale\<close>; \<open>None\<close> is a read whose effect the language does not define at all.

  The start ends with an exit code, with an address to serve at, or, in the child, with another
  program in place of this one.
\<close>

datatype lan_start = Leave int | Serve_at string | Becomes "string list"

definition avahi_command :: "string \<Rightarrow> string list" where
  "avahi_command port_str =
     [''avahi-publish'', ''avahi-publish'', ''-s'', ''ChatAppServer'', ''_ChatAppServer._tcp'', port_str]"

definition start_dns ::
  "os \<Rightarrow> (string \<Rightarrow> string option) \<Rightarrow> 'z process_scheme \<Rightarrow> (failure, lan_start, 'z process_scheme) outcome" where
  "start_dns os stale s =
     (let (sv_addr, s) = get_local_ipv4 os s;
          lan_dns_pid = sys_fork os (hist s); s = emit (Ev_fork lan_dns_pid) s in
      if lan_dns_pid < 0
      then (Inr (Leave EXIT_FAILURE), emit_print (cerr_out_err (ln ''Failed to launch the DNS process'')) s)
      else if lan_dns_pid = 0 then
        (case stale (to_string PORT) of
           None \<Rightarrow> (Inl (Undefined_behaviour ''read of the destroyed port text''), s)
         | Some port_str \<Rightarrow>
             (let ok = sys_execlp os (hist s) (avahi_command port_str); s = emit (Ev_exec (avahi_command port_str)) s
              in (Inr (if ok then Becomes (avahi_command port_str) else Leave 1), s)))
      else let s = (emit_print (Cout (ln (''Started avahi DNS with pid: '' @ to_string lan_dns_pid))) s)
                     \<lparr>gl_lan_dns_pid := lan_dns_pid\<rparr> in
        (case stale sv_addr of
           None \<Rightarrow> (Inl (Undefined_behaviour ''read of the destroyed address text''), s)
         | Some addr \<Rightarrow> (Inr (Serve_at addr), s)))"

text \<open>
  Both launchers hand back the thread that runs the listener. The result is dropped at once, and
  the destructor of the thread object waits for it, so that the call ends when the loop ends.
\<close>

definition launch_listener_loop ::
  "nat \<Rightarrow> os \<Rightarrow> 'q queue_ops \<Rightarrow> epoll_event list \<Rightarrow> 'q manager_state \<Rightarrow>
   (failure, unit, 'q manager_state) outcome option" where
  "launch_listener_loop n os Q junk_events s = listener_loop n os Q junk_events s"

definition launch_server_loop ::
  "nat \<Rightarrow> os \<Rightarrow> 'q queue_ops \<Rightarrow> epoll_event list \<Rightarrow> 'q manager_state \<Rightarrow>
   (failure, unit, 'q manager_state) outcome option" where
  "launch_server_loop n os Q junk_events s = launch_listener_loop n os Q junk_events s"

text \<open>
  The server object lives from its constructor to the end of \<open>main\<close>; an exception of the
  constructor or of \<open>listen_connections\<close> leaves \<open>main\<close>.
\<close>

definition run_server ::
  "nat \<Rightarrow> os \<Rightarrow> 'q queue_ops \<Rightarrow> epoll_event list \<Rightarrow> string \<Rightarrow> history \<Rightarrow>
   (failure, unit, 'q manager_state) outcome option" where
  "run_server n os Q junk_events sv_addr h =
     (case bindE (Server_local os sv_addr (manager_start Q h)) (\<lambda>_ s. listen_connections os s) of
        (Inl e, s) \<Rightarrow> Some (Inl e, s)
      | (Inr _, s) \<Rightarrow> launch_server_loop n os Q junk_events s)"

text \<open>From the constructor to the end of \<open>main\<close>.\<close>

datatype server_end = Exited int | Replaced "string list"

definition serve ::
  "nat \<Rightarrow> os \<Rightarrow> 'q queue_ops \<Rightarrow> epoll_event list \<Rightarrow> string \<Rightarrow> process \<Rightarrow> (failure, server_end, process) outcome option" where
  "serve n os Q junk_events sv_addr s =
     (case run_server n os Q junk_events sv_addr (hist s) of
        None \<Rightarrow> None
      | Some (Inl e, m) \<Rightarrow> Some (Inl e, s\<lparr>hist := hist m\<rparr>)
      | Some (Inr _, m) \<Rightarrow>
          (let (stopped, p) = kill_DNS_service os (s\<lparr>hist := hist m\<rparr>);
               p = p\<lparr>hist := hist (Server_destroy (m\<lparr>hist := hist p\<rparr>))\<rparr>
           in Some (Inr (Exited (if stopped then 0 else EXIT_FAILURE)), p)))"

definition server_main ::
  "nat \<Rightarrow> os \<Rightarrow> (string \<Rightarrow> string option) \<Rightarrow> 'q queue_ops \<Rightarrow> epoll_event list \<Rightarrow> string list \<Rightarrow> process \<Rightarrow>
   (failure, server_end, process) outcome option" where
  "server_main n os stale Q junk_events args s =
     (let ok = sys_signal os (hist s); s = emit Ev_signal s in
      if \<not> ok then Some (Inr (Exited EXIT_FAILURE), emit_print (cerr_out_err (ln ''Failed to redirect sigint!'')) s)
      else if length args \<noteq> 2 \<or> \<not> fst (check_argv_1 (args ! 1))
        then Some (Inr (Exited EXIT_FAILURE), emit_print correct_launch_instructions s)
      else if count_list LOCALHOST (CHR ''.'') < 3
        then Some (Inr (Exited EXIT_FAILURE), emit_print (Cerr (ln ''Invalid IPv4 format'')) s)
      else if snd (check_argv_1 (args ! 1)) then serve n os Q junk_events LOCALHOST s
      else (case start_dns os stale s of
              (Inl e, s) \<Rightarrow> Some (Inl e, s)
            | (Inr (Leave code), s) \<Rightarrow> Some (Inr (Exited code), s)
            | (Inr (Becomes cmd), s) \<Rightarrow> Some (Inr (Replaced cmd), s)
            | (Inr (Serve_at sv_addr), s) \<Rightarrow> serve n os Q junk_events sv_addr s))"

subsection \<open>The client program\<close>

definition client_correct_launch_instructions :: out_item where
  "client_correct_launch_instructions = Cerr (get_color BRIGHT_RED @ ln ''Please launch the client like this:''
     @ ln ''./Client LOCALHOST'' @ ln ''or'' @ ln ''./Client LAN'' @ [CHR 0x0A])"

definition client_check_argv_1 :: "string \<Rightarrow> bool \<times> bool" where
  "client_check_argv_1 str = (let local = (str = ''LOCALHOST''); lan = (str = ''LAN'') in (local \<or> lan, local))"

definition browse_command :: string where
  "browse_command = ''avahi-browse -r -t _ChatAppServer._tcp | awk -F'[][]' '/address/ && $2 ~ /^192'' @ [CHR 0x5C]
     @ ''.168'' @ [CHR 0x5C] @ ''./ {print $2}'' @ [CHR 0x27]"

text \<open>What the command prints arrives in pieces, as \<^verbatim>\<open>fgets\<close> hands them out.\<close>

definition get_sv_addr :: "os \<Rightarrow> 'z os_state_scheme \<Rightarrow> string \<times> 'z os_state_scheme" where
  "get_sv_addr os s =
     (let pipe = sys_popen os (hist s) browse_command; s = emit (Ev_popen browse_command) s in
      case pipe of
        None \<Rightarrow> ([], s)
      | Some pieces \<Rightarrow>
          (let result = concat (map (takeWhile (\<lambda>c. c \<noteq> CHR 0x00)) pieces) in
           (if result \<noteq> [] \<and> last result = CHR 0x0A then butlast result else result, s)))"

text \<open>
  The start ends with an exit code or with a client whose two threads are running.
\<close>

datatype launch = Exit int | Running

definition connect_client :: "os \<Rightarrow> string \<Rightarrow> int \<Rightarrow> history \<Rightarrow> (failure, launch, client) outcome" where
  "connect_client os addr junk h =
     (case Client_new os addr junk h of
        (Inl e, s) \<Rightarrow> print_exception (Exit EXIT_FAILURE) e s
      | (Inr _, s) \<Rightarrow> (Inr Running, make_cl_socket_nonblocking os s))"

definition client_main ::
  "os \<Rightarrow> string list \<Rightarrow> int \<Rightarrow> os_state \<Rightarrow> (failure, launch, client) outcome" where
  "client_main os args junk s =
     (let stop = (\<lambda>s. (Inr (Exit EXIT_FAILURE), client_members junk (hist s))) in
      if length args \<noteq> 2 \<or> \<not> fst (client_check_argv_1 (args ! 1))
      then stop (emit_print client_correct_launch_instructions s)
      else
        let (addr, s) = (if snd (client_check_argv_1 (args ! 1)) then (LOCALHOST, s)
              else let (addr, s) = get_sv_addr os s in
                (addr, if addr = []
                       then emit_print (cerr_out_err (ln ''Server isn't correcty initialized! Failed connect'')) s
                       else s))
        in if count_list addr (CHR ''.'') < 3
           then stop (emit_print (cerr_out_err (ln ''Invalid IPv4 format'')) s)
           else connect_client os addr junk (hist s))"

subsection \<open>Properties\<close>

lemma ln_nonempty [simp]: "ln s \<noteq> []"
  by (simp add: ln_def)

lemma get_sv_addr_lines:
  assumes "sys_popen os (hist s) browse_command = Some pieces" "CHR 0x00 \<notin> set (concat pieces)"
    "concat pieces = concat (map ln addrs)"
  shows "get_sv_addr os s = (butlast (concat (map ln addrs)), emit (Ev_popen browse_command) s)"
proof -
  have "map (takeWhile (\<lambda>c. c \<noteq> CHR 0x00)) pieces = pieces"
    using assms(2) by (induction pieces) (auto simp: takeWhile_eq_all_conv)
  moreover have "last (concat (map ln addrs)) = CHR 0x0A" if "addrs \<noteq> []"
    using that by (cases addrs rule: rev_cases) (simp_all add: ln_def)
  ultimately show ?thesis using assms(1,3) by (cases "addrs = []") (auto simp: get_sv_addr_def Let_def)
qed

lemma bad_address_exits:
  assumes "\<And>h. sys_inet_pton os h addr \<le> 0"
  shows "\<exists>t. connect_client os addr junk h = (Inr (Exit EXIT_FAILURE), t)"
proof -
  have "\<exists>e t. Client_new os addr junk h = (Inl e, t) \<and> is_std_exception e"
    using assms by (auto simp: Client_new_def get_evfd_def get_color_int_def client_members_def Let_def not_le
        dest: leD)
  then show ?thesis by (auto simp: connect_client_def print_exception_def)
qed

text \<open>C40: in LAN mode the client connects to the address the browse command prints, however the
  output is cut into pieces, when there is exactly one line of it with three dots; when the
  command prints more than one line (a second server, or a second interface) the address
  holds a line break, no conversion accepts it, and the program ends with an error.\<close>

theorem lan_start_needs_one_address:
  assumes "sys_popen os (hist s) browse_command = Some pieces" and "CHR 0x00 \<notin> set (concat pieces)"
    and "concat pieces = concat (map ln addrs)" and "\<forall>h a. CHR 0x0A \<in> set a \<longrightarrow> sys_inet_pton os h a \<le> 0"
  shows "(addrs = [a] \<and> 3 \<le> count_list a (CHR ''.'') \<longrightarrow>
      client_main os [prog, ''LAN''] junk s = connect_client os a junk (hist s @ [Ev_popen browse_command])) \<and>
    (2 \<le> length addrs \<longrightarrow> (\<exists>t. client_main os [prog, ''LAN''] junk s = (Inr (Exit EXIT_FAILURE), t)))"
proof (intro conjI impI)
  note addr = get_sv_addr_lines [OF assms(1-3)]
  {
    assume "addrs = [a] \<and> 3 \<le> count_list a (CHR ''.'')"
    then show "client_main os [prog, ''LAN''] junk s = connect_client os a junk (hist s @ [Ev_popen browse_command])"
      using addr by (auto simp: client_main_def client_check_argv_1_def ln_def Let_def)
  }
  assume "2 \<le> length addrs"
  then obtain b c cs where bcs: "addrs = b # c # cs" by (cases addrs; cases "tl addrs") auto
  let ?a = "butlast (concat (map ln addrs))"
  have "concat (map ln (c # cs)) \<noteq> []" by (simp add: ln_def)
  then have "?a = ln b @ butlast (concat (map ln (c # cs)))" by (simp add: bcs butlast_append)
  then have "CHR 0x0A \<in> set ?a" by (simp add: ln_def)
  then show "\<exists>t. client_main os [prog, ''LAN''] junk s = (Inr (Exit EXIT_FAILURE), t)"
    using addr bad_address_exits [of os ?a] assms(4)
    by (auto simp: client_main_def client_check_argv_1_def Let_def)
qed

definition lan_os :: "string list \<Rightarrow> os" where
  "lan_os addrs = quiet_os\<lparr>sys_popen := (\<lambda>h cmd. Some (map ln addrs)),
     sys_inet_pton := (\<lambda>h a. if CHR 0x0A \<in> set a then 0 else 1)\<rparr>"

theorem lan_start_needs_one_address_witness:
  "client_main (lan_os [''192.168.1.5'']) [''Client'', ''LAN''] 0 \<lparr>hist = []\<rparr> =
     connect_client (lan_os [''192.168.1.5'']) ''192.168.1.5'' 0 [Ev_popen browse_command] \<and>
   (\<exists>t. client_main (lan_os [''192.168.1.5'', ''192.168.1.9'']) [''Client'', ''LAN''] 0 \<lparr>hist = []\<rparr> =
     (Inr (Exit EXIT_FAILURE), t))"
  using lan_start_needs_one_address [where os = "lan_os [''192.168.1.5'']" and s = "\<lparr>hist = []\<rparr>" and prog = "''Client''"
        and a = "''192.168.1.5''" and junk = 0 and pieces = "map ln [''192.168.1.5'']" and addrs = "[''192.168.1.5'']"]
    lan_start_needs_one_address [where os = "lan_os [''192.168.1.5'', ''192.168.1.9'']" and s = "\<lparr>hist = []\<rparr>"
        and prog = "''Client''" and junk = 0 and pieces = "map ln [''192.168.1.5'', ''192.168.1.9'']"
        and addrs = "[''192.168.1.5'', ''192.168.1.9'']"]
  by (simp add: lan_os_def ln_def)

text \<open>With anything but the one argument \<open>LOCALHOST\<close> or \<open>LAN\<close> neither program opens, asks or
  starts anything: each prints its instructions and ends with the failure code.\<close>

theorem wrong_arguments_rejected:
  assumes "length args \<noteq> 2 \<or> args ! 1 \<notin> {''LOCALHOST'', ''LAN''}" and "sys_signal os (hist p)"
  shows "server_main n os stale Q je args p =
      Some (Inr (Exited EXIT_FAILURE), p\<lparr>hist := hist p @ [Ev_signal, Ev_print correct_launch_instructions]\<rparr>) \<and>
    (\<exists>t. client_main os args junk s = (Inr (Exit EXIT_FAILURE), t) \<and>
       hist t = hist s @ [Ev_print client_correct_launch_instructions])"
  using assms by (auto simp: server_main_def client_main_def check_argv_1_def client_check_argv_1_def Let_def
      emit_def emit_print_def client_members_def)

theorem wrong_arguments_rejected_witness:
  "\<exists>p. server_main 1 quiet_os Some list_queue [] [''Server'', ''lan''] \<lparr>hist = [], gl_lan_dns_pid = - 1\<rparr> =
     Some (Inr (Exited 1), p)"
  using wrong_arguments_rejected [of "[''Server'', ''lan'']" quiet_os "\<lparr>hist = [], gl_lan_dns_pid = - 1\<rparr>" 1 Some list_queue "[]"]
  by (auto simp: quiet_os_def EXIT_FAILURE_def)

lemma destroy_hist: "set (hist s) \<subseteq> set (hist (Server_destroy s))"
proof -
  have "set (hist s) \<subseteq> set (hist (fold (\<lambda>cl t. case cl of None \<Rightarrow> t | Some d \<Rightarrow> close_fd (cd_fd d) t) cs s))"
    for cs and s :: "('a, 'b) server_state_scheme"
  proof (induction cs arbitrary: s)
    case (Cons c cs)
    show ?case using Cons.IH [of s] Cons.IH [of "close_fd (cd_fd (the c)) s"] by (cases c) auto
  qed simp
  then show ?thesis by (auto simp: Server_destroy_def)
qed

text \<open>Whatever the address, a server that runs beside a helper tells it to stop when its loop has
  ended, and the exit code says whether that signal could be sent.\<close>

lemma serve_ends:
  assumes "run_server n os Q je addr (hist s) = Some (Inr (), m)" "0 < gl_lan_dns_pid s"
  shows "\<exists>q. serve n os Q je addr s =
      Some (Inr (Exited (if sys_kill os (hist m) (gl_lan_dns_pid s) < 0 then EXIT_FAILURE else 0)), q) \<and>
    Ev_kill (gl_lan_dns_pid s) \<in> set (hist q)"
proof -
  obtain b p where p: "kill_DNS_service os (s\<lparr>hist := hist m\<rparr>) = (b, p)" by fastforce
  then have "Ev_kill (gl_lan_dns_pid s) \<in> set (hist p)" "b \<longleftrightarrow> \<not> sys_kill os (hist m) (gl_lan_dns_pid s) < 0"
    using assms(2) by (auto simp: kill_DNS_service_def Let_def split: if_splits)
  then show ?thesis
    using assms p destroy_hist [of "m\<lparr>hist := hist p\<rparr>"] by (auto simp: serve_def)
qed

definition started_note :: "int \<Rightarrow> os_event" where
  "started_note pid = Ev_print (Cout (ln (''Started avahi DNS with pid: '' @ to_string pid)))"

text \<open>The language promises nothing about reading a destroyed text.\<close>

definition destroyed :: "string \<Rightarrow> string option" where
  "destroyed = (\<lambda>_. None)"

text \<open>The server's two modes. In \<open>LOCALHOST\<close> mode the program serves at the loopback address, starts
  and stops no helper, and ends with code 0 when its loop has ended; an exception of the start
  leaves it. In \<open>LAN\<close> mode it ends with the failure code when the helper cannot be forked;
  otherwise both processes read a destroyed text before they do anything else: the child the
  port it is to publish, the parent the address it is to serve at.\<close>

theorem only_local_mode_defined:
  fixes p :: process
  assumes "sys_signal os (hist p)" and "gl_lan_dns_pid p = - 1"
    and "sys_getifaddrs os (hist p @ [Ev_signal]) = (r, ifas)" and "0 \<le> r"
    and "h = hist p @ [Ev_signal, Ev_getifaddrs r]" and "sys_fork os h = pid"
  shows "(case run_server n os Q je LOCALHOST (hist p @ [Ev_signal]) of
       None \<Rightarrow> server_main n os destroyed Q je [prog, ''LOCALHOST''] p = None
     | Some (Inl e, m) \<Rightarrow> \<exists>q. server_main n os destroyed Q je [prog, ''LOCALHOST''] p = Some (Inl e, q) \<and> hist q = hist m
     | Some (Inr _, m) \<Rightarrow> \<exists>q. server_main n os destroyed Q je [prog, ''LOCALHOST''] p = Some (Inr (Exited 0), q) \<and>
         hist q = hist (Server_destroy m)) \<and>
    (\<exists>q. server_main n os destroyed Q je [prog, ''LAN''] p =
       Some (if pid < 0 then Inr (Exited EXIT_FAILURE)
             else Inl (Undefined_behaviour (if pid = 0 then ''read of the destroyed port text''
               else ''read of the destroyed address text'')), q) \<and>
       hist q = h @ [Ev_fork pid] @ (if pid < 0 then [Ev_print (cerr_out_err (ln ''Failed to launch the DNS process''))]
         else if pid = 0 then [] else [started_note pid]))"
proof
  let ?p = "emit Ev_signal p"
  have mode: "server_main n os destroyed Q je [prog, ''LAN''] p = (case start_dns os destroyed ?p of
        (Inl e, s) \<Rightarrow> Some (Inl e, s)
      | (Inr (Leave code), s) \<Rightarrow> Some (Inr (Exited code), s)
      | (Inr (Becomes cmd), s) \<Rightarrow> Some (Inr (Replaced cmd), s)
      | (Inr (Serve_at sv_addr), s) \<Rightarrow> serve n os Q je sv_addr s)"
    using assms(1) by (simp add: server_main_def check_argv_1_def LOCALHOST_def Let_def)
  have local: "get_local_ipv4 os ?p = (first_ipv4 ifas, emit (Ev_getifaddrs r) ?p)"
    using assms(3,4) by (simp add: get_local_ipv4_def)
  show "\<exists>q. server_main n os destroyed Q je [prog, ''LAN''] p =
       Some (if pid < 0 then Inr (Exited EXIT_FAILURE)
             else Inl (Undefined_behaviour (if pid = 0 then ''read of the destroyed port text''
               else ''read of the destroyed address text'')), q) \<and>
       hist q = h @ [Ev_fork pid] @ (if pid < 0 then [Ev_print (cerr_out_err (ln ''Failed to launch the DNS process''))]
         else if pid = 0 then [] else [started_note pid])"
    unfolding mode start_dns_def local using assms(5,6)
    by (simp add: Let_def destroyed_def started_note_def)
  have "server_main n os destroyed Q je [prog, ''LOCALHOST''] p = serve n os Q je LOCALHOST ?p"
    using assms(1) by (simp add: server_main_def check_argv_1_def LOCALHOST_def Let_def)
  then show "case run_server n os Q je LOCALHOST (hist p @ [Ev_signal]) of
       None \<Rightarrow> server_main n os destroyed Q je [prog, ''LOCALHOST''] p = None
     | Some (Inl e, m) \<Rightarrow> \<exists>q. server_main n os destroyed Q je [prog, ''LOCALHOST''] p = Some (Inl e, q) \<and> hist q = hist m
     | Some (Inr _, m) \<Rightarrow> \<exists>q. server_main n os destroyed Q je [prog, ''LOCALHOST''] p = Some (Inr (Exited 0), q) \<and>
         hist q = hist (Server_destroy m)"
    using assms(2) by (auto simp: serve_def kill_DNS_service_def emit_def split: option.splits prod.splits sum.splits)
qed

definition helper_os :: "int \<Rightarrow> os" where
  "helper_os pid = quiet_os\<lparr>sys_fork := (\<lambda>h. pid), sys_epoll_create1 := (\<lambda>h. - 1), sys_kill := (\<lambda>h p. 0),
     sys_getifaddrs := (\<lambda>h. (0, [Ipv4 (Some LOCALHOST), Ipv4 (Some ''192.168.1.5'')])), sys_execlp := (\<lambda>h c. False)\<rparr>"

theorem only_local_mode_defined_witness:
  "(\<exists>q. server_main 1 (helper_os 42) destroyed list_queue [] [''Server'', ''LOCALHOST''] \<lparr>hist = [], gl_lan_dns_pid = - 1\<rparr> =
     Some (Inr (Exited 0), q)) \<and>
   (\<exists>q. server_main 1 (helper_os 42) destroyed list_queue [] [''Server'', ''LAN''] \<lparr>hist = [], gl_lan_dns_pid = - 1\<rparr> =
     Some (Inl (Undefined_behaviour ''read of the destroyed address text''), q))"
proof -
  obtain m where m: "run_server 1 (helper_os 42) list_queue [] LOCALHOST [Ev_signal] = Some (Inr (), m)"
    by (simp add: run_server_def launch_server_loop_def launch_listener_loop_def start_defs helper_os_def quiet_os_def listener_loop_def listener_handlers_def)
  then show ?thesis
    using only_local_mode_defined [where os = "helper_os 42" and p = "\<lparr>hist = [], gl_lan_dns_pid = - 1\<rparr>" and pid = 42 and r = 0
        and ifas = "[Ipv4 (Some LOCALHOST), Ipv4 (Some ''192.168.1.5'')]" and h = "[Ev_signal, Ev_getifaddrs 0]"
        and n = 1 and Q = list_queue and je = "[]" and prog = "''Server''"]
    by (auto simp: helper_os_def quiet_os_def)
qed

end
