(* ===== verification/Listener_Faults.thy ===== *)
theory Listener_Faults
  imports Server_Faults
begin

text \<open>
  How a message of one client ends the listener, and with it the server: the loop of the
  listener is inside the handlers, so that the first exception leaves it for good.
\<close>

text \<open>A turn in which the queue of the workers has a message and nothing else happened.\<close>

lemma woken_turn_fails:
  assumes "sys_epoll_wait os (hist s) (epfd (ls_em l)) (int (length (events (ls_em l)))) = (1, [(ls_evfd l, EPOLLIN)])" "0 \<le> epfd (ls_em l)"
    "0 \<le> ls_evfd l" "\<not> check_is_done s"
    "listener_process_worker_to_listener_q os Q (ls_evfd l) (emit (Ev_epoll_wait 1) s) = (Inl e, t)"
  shows "listener_turns (Suc n) os Q l s =
     Some (Inl e, EpollManager_destroy (ls_em l) t)"
proof -
  let ?em = "(ls_em l)\<lparr>events := (ls_evfd l, EPOLLIN) # drop 1 (events (ls_em l))\<rparr>"
  have "wait_events os (ls_em l) s = (Inr (1, ?em), emit (Ev_epoll_wait 1) s)"
    using assms(1,2) by (simp add: wait_events_def)
  moreover have "check_event ?em (ls_evfd l) EPOLLIN 1 = Inr True"
    using assms(2,3) by (simp add: check_event_def event_matches_def EPOLLIN_def)
  ultimately have "listener_iteration os Q l s = (Inl e, t)"
    using assms(5) by (simp add: listener_iteration_def listener_events_def when_event_def Let_def)
  then show ?thesis using assms(4) by (simp add: listener_turns.simps [of "Suc n"])
qed

context server_queue
begin

lemma chat_dispatch_fails:
  assumes s: "server_wf s" "queues_ok inv s" and os: "evfd_spec os" "0 \<le> evfd" "0 < evfd_count (hist s) evfd"
    and q: "inv (q_worker_to_listener s)" "items (q_worker_to_listener s) = get_concatenated_msg m # rest"
    and m: "sendable m" "sm_action m = get_action UNICAST_REPEATED" and ids: "get_connected_IDs s \<noteq> []"
    and bad: "case stoi (sm_id m) of Inl e \<Rightarrow> True | Inr k \<Rightarrow> full_queue items k (get_connected_IDs s) s"
  shows "\<exists>t. listener_process_worker_to_listener_q os Q evfd s =
    (Inl (case stoi (sm_id m) of Inl e \<Rightarrow> e
          | Inr k \<Rightarrow> Queue_exception (ln ''Failed to push message to corresponding client'')), t) \<and>
    server_done t = server_done s"
proof -
  have parse: "construct_from_string (get_concatenated_msg m) empty_message = Inr m"
    using m(1) by (simp add: construct_of_concatenated)
  obtain q' t where t: "listener_process_worker_to_listener_q os Q evfd s =
      dispatch_message Q m (get_concatenated_msg m) (get_connected_IDs s) t"
    "t = (emit (Ev_read_evfd evfd event_size) s)\<lparr>q_worker_to_listener := q'\<rparr>" "same_table s t"
    using listener_takes_one [OF os q parse ids] by metis
  show ?thesis
  proof (cases "stoi (sm_id m)")
    case (Inl e)
    with t m(2) show ?thesis by (simp add: dispatch_message_def)
  next
    case (Inr k)
    then have "full_queue items k (get_connected_IDs s) t" using bad same_table_views(3) [OF t(3)] by simp
    moreover have "server_wf t" "queues_ok inv t" using s same_table_wf [OF t(3)] queues_ok_same [OF t(3)] by simp_all
    ultimately obtain u where u: "unicast_repeated Q k (get_connected_IDs s) (get_concatenated_msg m) t =
        (Inl (Queue_exception (ln ''Failed to push message to corresponding client'')), u)" "u = t\<lparr>clients := clients u\<rparr>"
      using unicast_outcome [of t "get_connected_IDs s" k "get_concatenated_msg m"] reg.ids_distinct [OF s(1)] by auto
    have "server_done u = server_done s" by (subst u(2), simp add: t(2))
    with u(1) t(1) Inr dispatch_chat [OF m(2) Inr, of "get_concatenated_msg m" "get_connected_IDs s" t] show ?thesis by simp
  qed
qed

end

text \<open>C35: one chat line can end the listener: when the id in it is not a number, or when
  one of the other clients does not read and its queue of 128 messages is full. The
  exception leaves the loop although nobody asked the server to stop, and the handlers around
  the loop only print it.\<close>

theorem chat_can_end_listener:
  assumes "server_wf s" and "queues_ok string_queue_inv s" and "evfd_spec os"
    and "sys_epoll_wait os (hist s) (epfd (ls_em l)) (int (length (events (ls_em l)))) = (1, [(ls_evfd l, EPOLLIN)])" and "0 \<le> epfd (ls_em l)"
    and "0 \<le> ls_evfd l" and "0 < evfd_count (hist s) (ls_evfd l)" and "\<not> check_is_done s"
    and "string_queue_inv (q_worker_to_listener s)"
    and "string_queue_items (q_worker_to_listener s) = get_concatenated_msg m # rest"
    and "sendable m" and "sm_action m = get_action UNICAST_REPEATED" and "get_connected_IDs s \<noteq> []"
    and "case stoi (sm_id m) of Inl e \<Rightarrow> True | Inr k \<Rightarrow> full_queue string_queue_items k (get_connected_IDs s) s"
  shows "\<exists>e t u. listener_turns (Suc n) os (string_queue_ops mv) l s = Some (Inl e, t) \<and> \<not> check_is_done t \<and>
    listener_handlers e t = (Inr (), u)"
proof -
  let ?s = "emit (Ev_epoll_wait 1) s"
  have same: "same_table s ?s" by (simp add: same_table_def)
  have full: "case stoi (sm_id m) of Inl e \<Rightarrow> True | Inr k \<Rightarrow> full_queue string_queue_items k (get_connected_IDs ?s) ?s"
    using assms(14) srv.same_table_views(3) [OF same] same_table_ids [OF same] by (simp split: sum.splits)
  have ok: "server_wf ?s" "queues_ok string_queue_inv ?s" "0 < evfd_count (hist ?s) (ls_evfd l)"
    "string_queue_inv (q_worker_to_listener ?s)"
    "string_queue_items (q_worker_to_listener ?s) = get_concatenated_msg m # rest" "get_connected_IDs ?s \<noteq> []"
    using assms(1,2,7,9,10,13) srv.queues_ok_same [OF same] same_table_ids [OF same] by simp_all
  let ?e = "case stoi (sm_id m) of Inl e \<Rightarrow> e
      | Inr k \<Rightarrow> Queue_exception (ln ''Failed to push message to corresponding client'')"
  obtain t where t: "listener_process_worker_to_listener_q os (string_queue_ops mv) (ls_evfd l) ?s = (Inl ?e, t)"
    "server_done t = server_done ?s"
    using srv.chat_dispatch_fails [OF ok(1,2) assms(3,6) ok(3-5) assms(11,12) ok(6) full] by blast
  have "is_std_exception ?e" by (auto simp: stoi_def Let_def split: sum.splits prod.splits if_splits)
  then have "\<exists>u. listener_handlers ?e (EpollManager_destroy (ls_em l) t) = (Inr (), u)"
    by (auto simp: listener_handlers_def split: failure.splits)
  moreover have "\<not> check_is_done (EpollManager_destroy (ls_em l) t)"
    using t(2) assms(8) by (simp add: check_is_done_def EpollManager_destroy_def)
  ultimately show ?thesis using woken_turn_fails [OF assms(4-6,8) t(1)] by blast
qed

definition nameless_chat :: server_message where
  "nameless_chat = empty_message\<lparr>sm_action := ''UNICAST_REPEATED'', sm_id := ''x'', sm_msg_content := ''hi''\<rparr>"

theorem chat_can_end_listener_witness:
  "\<exists>e t u. listener_turns 1 quiet_os (string_queue_ops (\<lambda>s. s)) \<lparr>ls_em = \<lparr>epfd = 5, events = replicate 20 (0, 0)\<rparr>, ls_socket = 3, ls_evfd = 4\<rparr>
      (busy_server [4, 7] [get_concatenated_msg nameless_chat] [Ev_write_evfd 4 8]) = Some (Inl e, t) \<and>
    \<not> check_is_done t \<and> listener_handlers e t = (Inr (), u)"
proof -
  let ?m = nameless_chat and ?h = "[Ev_write_evfd 4 8]"
  let ?s = "busy_server [4, 7] [get_concatenated_msg ?m] ?h"
  have q: "string_queue_inv (q_worker_to_listener ?s)" "string_queue_items (q_worker_to_listener ?s) = [get_concatenated_msg ?m]"
    using busy_server_queue [of "[get_concatenated_msg ?m]"] by simp_all
  have m: "sendable ?m" "sm_action ?m = get_action UNICAST_REPEATED" "stoi (sm_id ?m) = Inl (Invalid_argument ''stoi'')"
    by (simp_all add: nameless_chat_def empty_message_def sendable_iff split_token_def stoi_def stoi_sign_def is_space_def is_digit_def)
  have k: "sys_epoll_wait quiet_os ?h 5 20 = (1, [(4, EPOLLIN)])" "0 < evfd_count ?h 4" "\<not> check_is_done ?s"
    by (simp_all add: quiet_os_def EPOLLIN_def evfd_count_def event_size_def check_is_done_def busy_server_def)
  show ?thesis
    using chat_can_end_listener [where s = ?s and os = quiet_os and m = ?m and rest = "[]" and n = 0 and mv = "\<lambda>s. s"
        and l = "\<lparr>ls_em = \<lparr>epfd = 5, events = replicate 20 (0, 0)\<rparr>, ls_socket = 3, ls_evfd = 4\<rparr>",
        OF busy_server_wf busy_server_queues quiet_os_specs(2) _ _ _ _ k(3) q m(1,2)] m(3) k(1,2)
    by (simp add: busy_server_ids)
qed

end
