(* ===== verification/Connection_Faults.thy ===== *)
theory Connection_Faults
  imports Server_Faults
begin

text \<open>
  What a worker does when the connection of one of its clients fails, and what its first read can
  run into.
\<close>

context server_queue
begin

lemma failing_drain:
  assumes c: "get_client_ref cid s = Some i" "clients s ! i = Some c" "0 \<le> sv_socket s" "0 \<le> cd_fd c"
    and q: "inv (cd_send_queue c)" "items (cd_send_queue c) = m # ms" and send: "sys_send os (hist s) (cd_fd c) m < 0"
  shows "\<exists>t. drain_send_queue (Suc n) os Q i s = (Inl (Runtime_error (ln ''Failed to send msg'')), t)"
proof -
  have i: "i < length (clients s)" "cd_personal_id c = cid" using get_client_ref_SomeD [OF c(1)] c(2) by auto
  obtain q' where q': "queue_pop Q (cd_send_queue c) = Inr (Some m, q')"
    using q(2) by (cases rule: pop_cases [OF q(1)]) auto
  let ?d = "c\<lparr>cd_send_queue := q'\<rparr>"
  have "get_client_ref cid (put_client i ?d s) = Some i"
    using get_client_ref_put [of i s c ?d cid] i c by simp
  then have "\<exists>t. server_send_msg os m cid (put_client i ?d s) = (Inl (Runtime_error (ln ''Failed to send msg'')), t)"
    using send c(3,4) i by (simp add: server_send_msg_def get_selected_client_fd_def call_send_def Let_def)
  then show ?thesis using q' c(2) i by (auto simp: deref_def)
qed

end

text \<open>C34: one broken connection ends the server. When the read from a client that epoll reported
  fails, or the send of the first message that waits for a chatting client does (a connection that
  was reset, a socket whose buffer is full), the exception leaves the worker's loop, and with it the
  thread function.\<close>

theorem broken_connection_ends_worker:
  fixes s :: "(string state_cells queue_common, 'z) manager_state_scheme"
  assumes turn: "sys_epoll_wait os (hist s) (epfd (wk_em w)) (int (length (events (wk_em w)))) = (1, [(fd, ev)])" "0 \<le> epfd (wk_em w)" "0 \<le> fd"
      "0 \<le> wk_evfd w" "wk_evfd w \<noteq> fd" "wk_clients w = (fd, cid) # rest" "\<not> check_is_done s"
    and client: "get_client_ref cid s = Some i" "clients s ! i = Some c" "cd_fd c = fd" "0 \<le> sv_socket s"
    and fault: "ev = EPOLLIN \<and> fst (sys_recv os (hist s @ [Ev_epoll_wait 1]) fd (mf_msg_len (wk_frame w))) < 0 \<and> complaint = ''Failed to receive msg'' \<or>
      ev = EPOLLOUT \<and> cd_init_state c = INIT_DONE_STATE \<and> string_queue_inv (cd_send_queue c) \<and>
      string_queue_items (cd_send_queue c) = m # ms \<and> sys_send os (hist s @ [Ev_epoll_wait 1]) fd m < 0 \<and> complaint = ''Failed to send msg''"
  shows "\<exists>t. worker_loop (Suc n) os (string_queue_ops mv) w s = Some (Inl (Runtime_error (ln complaint)), t)"
proof -
  let ?em = "(wk_em w)\<lparr>events := (fd, ev) # drop 1 (events (wk_em w))\<rparr>" and ?Q = "string_queue_ops mv"
  let ?s = "emit (Ev_epoll_wait 1) s" and ?w = "w\<lparr>wk_em := ?em\<rparr>"
  have i: "i < length (clients s)" using get_client_ref_SomeD [OF client(1)] by simp
  have c: "get_client_ref cid ?s = Some i" "deref i ?s = Inr c" "clients ?s ! i = Some c" "0 \<le> sv_socket ?s" "0 \<le> cd_fd c"
    using client turn(3) i by (simp_all add: get_client_ref_def deref_def)
  have "\<exists>t. client_events os ?Q 1 (fd, cid) ?w ?s = (Inl (Runtime_error (ln complaint)), t)"
  using fault
  proof (elim disjE conjE)
    assume "ev = EPOLLIN" "fst (sys_recv os (hist s @ [Ev_epoll_wait 1]) fd (mf_msg_len (wk_frame w))) < 0"
      "complaint = ''Failed to receive msg''"
    moreover from this(1) have "check_event ?em fd EPOLLIN 1 = Inr True"
      using turn(2,3) by (simp add: check_event_def event_matches_def EPOLLIN_def)
    ultimately show ?thesis using c client(3)
      by (cases "sys_recv os (hist s @ [Ev_epoll_wait 1]) fd (mf_msg_len (wk_frame w))")
        (simp add: client_events_def server_receive_msg_def get_selected_client_fd_def call_recv_def Let_def)
  next
    assume out: "ev = EPOLLOUT" "cd_init_state c = INIT_DONE_STATE" "string_queue_inv (cd_send_queue c)"
      "string_queue_items (cd_send_queue c) = m # ms" "sys_send os (hist s @ [Ev_epoll_wait 1]) fd m < 0" "complaint = ''Failed to send msg''"
    then have "sys_send os (hist ?s) (cd_fd c) m < 0" using client(3) by simp
    from srv.failing_drain [OF c(1,3-5) out(3,4) this, of "drain_fuel - 1" mv] obtain t where
      "drain_send_queue drain_fuel os ?Q i ?s = (Inl (Runtime_error (ln complaint)), t)"
      using out(6) by (auto simp: drain_fuel_def)
    moreover have "check_event ?em fd EPOLLIN 1 = Inr False" "check_event ?em fd EPOLLOUT 1 = Inr True"
      using turn(2,3) out(1) by (simp_all add: check_event_def event_matches_def EPOLLIN_def EPOLLOUT_def)
    ultimately show ?thesis using c out(2)
      by (simp add: client_events_def client_output_def process_client_state_def process_output_def get_state_def state_constants Let_def)
  qed
  then obtain t where "client_events os ?Q 1 (fd, cid) ?w ?s = (Inl (Runtime_error (ln complaint)), t)" by blast
  from client_failure_ends_worker [OF turn(1,2,4-7) this] show ?thesis .
qed

definition reset_os :: os where
  "reset_os = quiet_os\<lparr>sys_epoll_wait := (\<lambda>h fd n. (1, [(14, EPOLLIN)])), sys_recv := (\<lambda>h fd len. (- 1, [], OTHER_ERRNO))\<rparr>"

theorem broken_connection_ends_worker_witness:
  "\<exists>t. worker_loop 1 reset_os (string_queue_ops (\<lambda>s. s)) (sample_worker 0 [(14, 4)]) (busy_server [4, 7] [] []) =
     Some (Inl (Runtime_error (ln ''Failed to receive msg'')), t)"
proof -
  let ?w = "sample_worker 0 [(14, 4)]" and ?s = "busy_server [4, 7] [] []"
  have c: "get_client_ref 4 ?s = Some 0" "clients ?s ! 0 = Some (table_client (string_queue_ops (\<lambda>s. s)) 4)"
    "cd_fd (table_client (string_queue_ops (\<lambda>s. s)) 4) = 14" "0 \<le> sv_socket ?s"
    by (simp_all add: get_client_ref_def busy_server_def table_with_def table_client_def has_id_def)
  have w: "sys_epoll_wait reset_os (hist ?s) (epfd (wk_em ?w)) (int (length (events (wk_em ?w)))) = (1, [(14, EPOLLIN)])" "0 \<le> epfd (wk_em ?w)" "0 \<le> (14::int)"
    "0 \<le> wk_evfd ?w" "wk_evfd ?w \<noteq> 14" "wk_clients ?w = (14, 4) # []" "\<not> check_is_done ?s"
    "fst (sys_recv reset_os (hist ?s @ [Ev_epoll_wait 1]) 14 (mf_msg_len (wk_frame ?w))) < 0"
    by (simp_all add: reset_os_def sample_worker_def busy_server_def check_is_done_def)
  show ?thesis
    using broken_connection_ends_worker [OF w(1-7) c, of "''Failed to receive msg''" _ _ 0 "\<lambda>s. s"] w(8) by simp
qed

text \<open>C29: a worker reads its first message into a frame that nobody has initialised. When the bytes
  behind a complete, well-formed message from its first client are not a text without separators
  that a zero byte ends, this first read ends the server: with the parser's exception, which leaves
  the thread function, when a separator comes first, and with a read past the end of the frame when
  there is no zero byte at all.\<close>

theorem uninitialised_frame_spoils_first_read:
  fixes s :: "('q, 'z) manager_state_scheme"
  assumes start: "worker_init os je jm fd cid idx evfd levfd s0 = (Inr w, s)" "length jm = MAX_LEN" "length je = MAX_EVENTS"
    and turn: "sys_epoll_wait os (hist s) (epfd (wk_em w)) (int MAX_EVENTS) = (1, [(fd, EPOLLIN)])" "0 \<le> epfd (wk_em w)"
      "0 \<le> fd" "0 \<le> evfd" "evfd \<noteq> fd" "\<not> check_is_done s"
    and client: "get_client_ref cid s = Some i" "clients s ! i = Some c" "cd_fd c = fd" "0 \<le> sv_socket s"
    and msg: "sendable m" "b = get_concatenated_msg m" "CHR 0x00 \<notin> set b" "length b < MAX_LEN"
      "sys_recv os (hist s @ [Ev_epoll_wait 1]) fd (int MAX_LEN) = (int (length b), b, e)"
    and frame: "\<not> clean_behind (length b) (wk_frame w)"
  shows "\<exists>t. worker_loop (Suc n) os Q w s = Some (Inl (if CHR 0x00 \<in> set (drop (length b) jm)
      then Runtime_error (ln ''Error in message construction. Invalid Msg format'')
      else Undefined_behaviour ''read past the end of a character array''), t)"
proof -
  let ?em = "(wk_em w)\<lparr>events := (fd, EPOLLIN) # drop 1 (events (wk_em w))\<rparr>"
  let ?s = "emit (Ev_epoll_wait 1) s" and ?w = "w\<lparr>wk_em := ?em\<rparr>"
  let ?x = "if CHR 0x00 \<in> set (drop (length b) jm) then Runtime_error (ln ''Error in message construction. Invalid Msg format'')
      else Undefined_behaviour ''read past the end of a character array''"
  have w: "wk_clients w = (fd, cid) # []" "wk_evfd w = evfd" "wk_frame w = \<lparr>mf_msg = jm, mf_msg_len = int MAX_LEN\<rparr>"
    "wk_msg w = empty_message" "length (events (wk_em w)) = MAX_EVENTS"
    using start by (auto simp: worker_init_def bindE_eq_Inr EpollManager_new_def Let_def split: if_splits)
  have events: "check_event ?em fd EPOLLIN 1 = Inr True"
    using turn(2,3) by (simp add: check_event_def event_matches_def EPOLLIN_def)
  have i: "i < length (clients s)" using get_client_ref_SomeD [OF client(1)] by simp
  have recv: "server_receive_msg os (wk_frame ?w) cid ?s =
      (Inr (int (length b), recv_into b (wk_frame w)), emit (Ev_recv fd (int (length b))) ?s)"
    using turn(3) client msg(5) i w(3)
    by (simp add: server_receive_msg_def get_selected_client_fd_def call_recv_def Let_def)
  have "b \<noteq> []" using msg(2) by (simp add: get_concatenated_msg_def)
  moreover have "frame_message b (wk_frame w) = Inl ?x"
    using frame_message_outcome [OF msg(1), of "wk_frame w"] msg(2,3) frame w(3) by simp
  ultimately obtain t where "client_events os Q 1 (fd, cid) ?w ?s = (Inl ?x, t)"
    using events recv client(1) w(4)
    by (auto simp: client_events_def frame_message_def Let_def split: sum.splits)
  moreover have "sys_epoll_wait os (hist s) (epfd (wk_em w)) (int (length (events (wk_em w)))) = (1, [(fd, EPOLLIN)])"
    using turn(1) w(5) by simp
  ultimately show ?thesis
    using client_failure_ends_worker [OF _ turn(2) _ _ w(1) turn(6)] turn(4,5) w(2) by auto
qed

definition greeting_os :: "string \<Rightarrow> os" where
  "greeting_os b = quiet_os\<lparr>sys_epoll_wait := (\<lambda>h fd n. (1, [(14, EPOLLIN)])),
     sys_recv := (\<lambda>h fd len. (int (length b), b, EAGAIN))\<rparr>"

theorem uninitialised_frame_spoils_first_read_witness:
  "\<exists>w s t. worker_init (greeting_os ''`INIT_REQ```ann`7```'') (replicate 20 (0, 0)) (replicate 512 (CHR ''x'')) 14 4 0 7 5
      (busy_server [4, 7] [] []) = (Inr w, s) \<and>
    worker_loop 1 (greeting_os ''`INIT_REQ```ann`7```'') (string_queue_ops (\<lambda>s. s)) w s =
      Some (Inl (Undefined_behaviour ''read past the end of a character array''), t)"
proof -
  let ?s = "busy_server [4, 7] [] []" and ?b = "''`INIT_REQ```ann`7```''"
  let ?m = "empty_message\<lparr>sm_action := get_action INIT_REQ, sm_name := ''ann'', sm_color_id := ''7''\<rparr>"
  have b: "?b = get_concatenated_msg ?m" "sendable ?m"
    by (simp_all add: get_concatenated_msg_def empty_message_def split_token_def sendable_iff)
  obtain w s where w: "worker_init (greeting_os ?b) (replicate 20 (0, 0)) (replicate 512 (CHR ''x'')) 14 4 0 7 5 ?s = (Inr w, s)"
    "wk_frame w = \<lparr>mf_msg = replicate 512 (CHR ''x''), mf_msg_len = 512\<rparr>" "0 \<le> epfd (wk_em w)"
    "get_client_ref 4 s = Some 0" "clients s ! 0 = Some (table_client (string_queue_ops (\<lambda>s. s)) 4)" "0 \<le> sv_socket s"
    "\<not> check_is_done s"
    by (simp add: worker_init_def EpollManager_new_def add_monitored_fd_def greeting_os_def quiet_os_def get_client_ref_def
        busy_server_def table_with_def table_client_def has_id_def check_is_done_def Let_def)
  have "cd_fd (table_client (string_queue_ops (\<lambda>s. s)) 4) = 14" by (simp add: table_client_def)
  from uninitialised_frame_spoils_first_read [OF w(1) _ _ _ w(3) _ _ _ w(7,4,5) this w(6) b(2,1), of EAGAIN 0 "string_queue_ops (\<lambda>s. s)"]
  have "\<exists>t. worker_loop (Suc 0) (greeting_os ?b) (string_queue_ops (\<lambda>s. s)) w s =
      Some (Inl (Undefined_behaviour ''read past the end of a character array''), t)"
    by (simp add: greeting_os_def clean_behind_def w(2))
  then show ?thesis using w(1) by auto
qed

end
