(* ===== verification/Spec2Isabelle.thy ===== *)
theory Spec2Isabelle
  imports End_To_End Leaving Queue_Order Locked_Queue Queue_Classes Queue_Objects Client_Safety Wire_Integrity Client_Session Launch
    Listener_Faults Connection_Faults
begin

text \<open>
  A verification library of the chat application: a server that accepts up to six clients and
  relays their lines, a client with one thread for the keyboard and one for the socket, and the
  queue library under \<^verbatim>\<open>src/include/Atomic_queue\<close> that the server's threads talk through.

  \<^bold>\<open>The program.\<close> The listener thread of the server (\<^verbatim>\<open>ServerThreadManager::listener_loop\<close>) accepts
  connections into the table of \<^verbatim>\<open>Server\<close>, hands each to the least loaded of at most two workers
  over the queue \<^verbatim>\<open>q_listener_to_worker\<close>, and distributes what the workers report over
  \<^verbatim>\<open>q_worker_to_listener\<close> to the send queue of each client. A worker (\<^verbatim>\<open>worker_loop\<close>) polls its
  clients, walks each of them through the handshake \<open>INIT_REQ\<close>, confirmation, \<open>INIT_DONE\<close>, passes
  their lines on and sends what waits in their send queues. Wake-ups go over eventfds. A client
  joins, sends every typed line as one message and prints every message it receives. Messages are
  eight fields between back-quotes in frames of 512 bytes.

  \<^bold>\<open>How it is modelled.\<close> Every member function is one definition that takes and returns the state
  explicitly. A call that may throw returns \<open>Inl\<close> of a \<open>failure\<close> together with the state at the
  throw (\<^verbatim>\<open>outcome\<close>, \<^verbatim>\<open>bindE\<close>, \<^verbatim>\<open>handleE\<close> in Prelude). System calls are fields of a record \<open>os\<close>:
  functions of the history of calls so far, which the state records in \<open>hist\<close>; what the code relies
  on is a named hypothesis (\<^verbatim>\<open>evfd_spec\<close> and the like) and every property that uses one has a witness
  with a concrete system. Loops that may go on forever take a number of turns and return \<open>None\<close> when
  they are still going; the loop that empties a send queue is bounded by the queue's capacity, which
  \<^verbatim>\<open>send_queue_drained_in_order\<close> shows to be enough. Machine integers keep their width
  where they can reach its end: queue tickets, lock tickets and event masks are 32-bit words, the
  counters of connections and of client ids go through \<^verbatim>\<open>wrap_int\<close>. The client counts of the workers
  and their cap are plain integers; \<^verbatim>\<open>small_counts\<close> says in the theorem on them that they are below
  \<^verbatim>\<open>INT_MAX\<close>. Storage that the program reads without having written it, the event arrays and the
  message frames of the threads, starts with arbitrary contents.

  \<^bold>\<open>The theories\<close>, with the sources they model.
  \<^item> Prelude, Cxx\_Strings: outcomes, find and update on tables; \<^verbatim>\<open>std::to_string\<close>, \<^verbatim>\<open>std::stoi\<close>.
  \<^item> Resources (\<^verbatim>\<open>resources.h\<close>), Messages (\<^verbatim>\<open>Server_Message.h\<close>, \<^verbatim>\<open>MessageFrame.h\<close>): constants, actions,
    colours, output helpers; the wire format, its round trip, what the parser accepts, over-reads,
    and what the parser makes of a message in a frame that was never cleared (\<open>clean_behind\<close>).
  \<^item> Queue\_Index, Atomic\_Queue, Queue\_Instances (\<^verbatim>\<open>atomic_queue.h\<close>, \<^verbatim>\<open>defs.h\<close>): index arithmetic, the queue
    base over the locale \<open>slot_store\<close>, the four queue classes, refinement of a bounded FIFO list by
    the locale \<open>thread_safe_queue\<close>; Queue\_Classes: the four classes from their constructors on.
    Queue\_Objects: constructors, moves, \<open>swap\<close> and destructors over a heap whose
    allocations may fail (locale \<open>owning_class\<close>), with the blocks a failed construction leaves behind;
    \<open>RetryDecorator\<close>. Word\_Queue: the operations of the server's queue one
    atomic access at a time, for any number of threads, with 32-bit tickets and the index shuffle;
    its specification Concurrent\_Queue has natural numbers as tickets. Nothing is lost and no
    slot is waited for in vain in any interleaving. Queue\_Order: with one thread that pushes and one
    that pops, as the listener and a worker do at the queue of a client, every interleaving answers
    like a bounded FIFO list; with two producers, as at the queue of the listener, it need not.
  \<^item> Locks (\<^verbatim>\<open>spinlock.h\<close>, \<^verbatim>\<open>barrier.h\<close>): the contract \<open>mutex\<close>, the ticket lock as a first-come-first-served
    queue, the unfair lock, the barrier. Mutex\_Queue, Locked\_Queue (\<^verbatim>\<open>atomic_queue_mutex.h\<close>): the queue
    with a mutex, its equivalence with the lock-free one and its linearizability under any \<open>mutex\<close>.
  \<^item> Os\_Model, Epoll (\<^verbatim>\<open>Epoll.h\<close>, \<^verbatim>\<open>Epoll.cpp\<close>): system calls and the epoll wrapper, which passes the size
    of its event array to the kernel.
  \<^item> Chat\_Server (\<^verbatim>\<open>Server.h\<close>, \<^verbatim>\<open>Client_Data.h\<close>), Server\_Table: the client table with accept, disconnect,
    send and receive, and what each does on every branch.
  \<^item> Thread\_Manager, Thread\_Loops (\<^verbatim>\<open>ServerThreadManager.h\<close>): workers, queues, dispatch of messages, the
    handshake, both loops. Server\_Queue states what the server needs of its queue (locale
    \<open>server_queue\<close>, interpreted by the lock-free queue of 128 strings); Worker\_Pool, Delivery and
    Handshake prove where clients are placed, gaps and the raised cap included, delivery and the
    protocol of one client. Turn\_Rules proves once,
    for every predicate that survives the small steps all handlers are made of (locale \<open>steady\<close>),
    that the turns keep it. On it rest the invariants of every interleaving of listener and worker
    turns (the step relation of Chat\_System, in which the workers go on when the listener's loop has
    ended with an exception): Table\_Invariant, the consistency of the client table;
    Ownership and Client\_Safety, that each client is with one worker, in one assignment or in one
    farewell, so that no reference to a removed client is followed, and when a frame is read past its
    end. Wire\_Integrity shows that
    whatever the clients send, the server sends only messages a client can parse. Server\_Faults,
    Listener\_Faults and Connection\_Faults are the runs in which the server does not do what it means to:
    bad texts, refused connections, full queues, system calls that fail, frames never initialised.
  \<^item> Chat\_Client (\<^verbatim>\<open>Client.h\<close>, \<^verbatim>\<open>Client.cpp\<close>), Client\_Session: class \<open>Client\<close>, and every interleaving of its
    two threads up to and including a turn that fails. Launch (\<^verbatim>\<open>Server_main.cpp\<close>, \<^verbatim>\<open>Client_main.cpp\<close>): both programs from the command line on, in
    both modes. The LAN mode of the server reads two texts after their destruction; what
    their storage then reads as is the parameter \<open>stale\<close>. The language promises nothing about it
    (\<open>destroyed\<close>), and \<^verbatim>\<open>only_local_mode_defined\<close> shows that the LAN mode is then undefined.
  \<^item> End\_To\_End and this theory: a line from one keyboard to another screen, and a client joining.
    Leaving: from \<open>#quit\<close>, or the end of a connection, to the notice on the other screens.

  \<^bold>\<open>Bounds.\<close> \<open>2 ^ 32\<close> threads in the ticket lock and the barrier, which is what their counters can
  tell apart; slot numbers up to \<open>2 ^ 30\<close> in the queue classes, beyond which the signed comparison
  of the source no longer orders tickets. In Word\_Queue no thread sleeps between reading a counter
  and its compare-and-swap while \<open>2 ^ 31\<close> tickets less the size of the queue are drawn (\<open>timely\<close>);
  after that the signed comparison of the source would take an old counter for a new one. A run of
  the server has at most \<open>2 ^ 31 - 1\<close> listener turns, so that the counter of client ids does not wrap.

  \<^bold>\<open>Not modelled.\<close> What a thread does after a failure that ends the process, and what a turn has sent
  before such a failure, in the invariants of the server's runs. A thread object that is replaced
  or reset waits for its thread; that is an event of the history and not a wait. Memory orders (all accesses are sequentially consistent) and the pause
  instruction. The interleaving of listener and workers inside one turn: the queues between them are
  verified access by access, but the client table is shared without a lock, and turns that overlap
  on it are data races, which the language leaves undefined.
  Also \<^verbatim>\<open>src/Server/Server.cpp\<close>, which is not part of the build and not valid C++; the lock classes that are
  commented out. The kernel, Avahi and the shell pipeline are parameters.
\<close>

subsection \<open>From one keyboard to another screen\<close>

definition line_bytes :: "'z client_scheme \<Rightarrow> string \<Rightarrow> string" where
  "line_bytes a line = get_concatenated_msg (client_chat_message a line empty_message)"

text \<open>C1: a chat line, end to end. A line typed in one client is sent as one message; the worker of that
  client that reads these bytes hands them to the listener, which appends them to the send queue
  of every other client; the next turn of another client's worker sends them; and the client
  that reads them prints the name of the author and the line, in the author's colour.\<close>

theorem typed_line_appears_on_other_screens:
  fixes s :: "(string state_cells queue_common, 'z) manager_state_scheme"
    and a :: "'y client_scheme" and b :: "'x client_scheme"
  assumes user: "sys_stdin_line osA (hist a) = Some line" "line \<noteq> []" "line \<noteq> QUIT_MSG" "0 \<le> cl_socket a"
      "\<forall>h x. 0 \<le> sys_send osA h (cl_socket a) x" "cl_id a = to_string cid" "INT_MIN \<le> cid \<and> cid \<le> INT_MAX"
      "0 \<le> cl_color_id a \<and> cl_color_id a \<le> 14"
    and plain: "split_token \<notin> set (cl_name a)" "split_token \<notin> set line" "CHR 0x00 \<notin> set (line_bytes a line)"
      "length (line_bytes a line) < MAX_LEN"
    and server: "server_wf s" "queues_ok string_queue_inv s" "0 \<le> sv_socket s"
      "string_queue_inv (q_worker_to_listener s)" "string_queue_items (q_worker_to_listener s) = []"
      "\<not> full_queue string_queue_items cid (get_connected_IDs s) s"
    and sender: "client_of cid s = Some c" "cd_init_state c = INIT_DONE_STATE" "0 \<le> cd_fd c"
    and turn: "check_event (wk_em w) (cd_fd c) EPOLLIN ret = Inr True" "check_event (wk_em w) (cd_fd c) EPOLLOUT ret = Inr False"
      "frame_wf f" "wk_frame w = clear_msg f" "evfd_spec os" "0 \<le> wk_listener_evfd w"
      "sys_recv os (hist s) (cd_fd c) (int MAX_LEN) = (int (length (line_bytes a line)), line_bytes a line, e)"
    and other: "client_of j s = Some d" "j \<noteq> cid" "cd_init_state d = INIT_DONE_STATE" "0 \<le> cd_fd d"
      "\<And>h x. 0 \<le> sys_send os h (cd_fd d) x"
    and reader: "frame_wf g" "0 \<le> cl_socket b" "cl_init_req b" "cl_init_done b"
      "sys_recv osB (hist b) (cl_socket b) (int MAX_LEN) = (int (length (line_bytes a line)), line_bytes a line, e')"
      "0 \<le> cl_color_id b \<and> cl_color_id b \<le> 14"
  shows "\<exists>a' r w' t u k v r' b'. send_msg_from_stdin osA empty_message a = (Inr empty_message, a') \<and>
      last (hist a') = Ev_send (cl_socket a) (line_bytes a line) r \<and>
      client_events os (string_queue_ops mv) ret (cd_fd c, cid) w s = (Inr w', t) \<and>
      listener_process_worker_to_listener_q os (string_queue_ops mv) (wk_listener_evfd w) t = (Inr (), u) \<and>
      get_client_ref j u = Some k \<and> process_output os (string_queue_ops mv) empty_message k u = (Inr empty_message, v) \<and>
      last (hist v) = Ev_send (cd_fd d) (line_bytes a line) r' \<and>
      receive_msg_from_sv osB (clear_msg g) b = (Inr (clear_msg g), b') \<and>
      last (hist b') = Ev_print (Cout (get_color COL_END @ COLOR_ARR ! nat (cl_color_id a) @ cl_name a @ '': '' @ line
         @ get_color COL_END @ COLOR_ARR ! nat (cl_color_id b) @ [CHR 0x0A]))"
proof -
  let ?m = "client_chat_message a line empty_message"
  have m: "sm_action ?m = get_action UNICAST_REPEATED" "sm_color_id ?m = to_string (cl_color_id a)" "stoi (sm_id ?m) = Inr cid"
    "sm_name ?m = cl_name a" "sm_msg_content ?m = line"
    using stoi_to_string [of cid] user(6,7) by (simp_all add: client_chat_message_def)
  have ok: "sendable ?m" using plain(1,2) user(6) split_token_simps
    by (auto simp: sendable_iff client_chat_message_def empty_message_def split_token_def)
  note bytes = line_bytes_def [of a line]
  have "sm_thread_number empty_message = [] \<and> sm_fd empty_message = [] \<and> sm_init_done empty_message = []"
    by (simp add: empty_message_def)
  from typed_line_outcome [OF user(1-5) this, of empty_message] obtain a' r where
    a': "send_msg_from_stdin osA empty_message a = (Inr empty_message, a')" "last (hist a') = Ev_send (cl_socket a) (line_bytes a line) r"
    by (auto simp: bytes)
  obtain w' t u v k rs where srv: "client_events os (string_queue_ops mv) ret (cd_fd c, cid) w s = (Inr w', t)"
    "listener_process_worker_to_listener_q os (string_queue_ops mv) (wk_listener_evfd w) t = (Inr (), u)"
    "get_client_ref j u = Some k" "process_output os (string_queue_ops mv) empty_message k u = (Inr empty_message, v)"
    "length rs = Suc (length (string_queue_items (cd_send_queue d)))"
    "hist v = hist u @ map2 (Ev_send (cd_fd d)) (string_queue_items (cd_send_queue d) @ [line_bytes a line]) rs"
    using line_crosses_server [OF server(1-3) sender turn(1-4) turn(7) [unfolded bytes] ok plain(3,4) [unfolded bytes]
        m(1,3) server(4,5) turn(5,6) other(5) other(1-4) server(6), of mv] by (auto simp: bytes)
  obtain rs' r' where "rs = rs' @ [r']" using srv(5) by (cases rs rule: rev_cases) auto
  with srv(5,6) have "last (hist v) = Ev_send (cd_fd d) (line_bytes a line) r'" by simp
  moreover obtain b' where "receive_msg_from_sv osB (clear_msg g) b = (Inr (clear_msg g), b')"
    "last (hist b') = Ev_print (Cout (get_color COL_END @ COLOR_ARR ! nat (cl_color_id a) @ cl_name a @ '': '' @ line
         @ get_color COL_END @ COLOR_ARR ! nat (cl_color_id b) @ [CHR 0x0A]))"
    using received_line_outcome [OF reader(1-4) reader(5) [unfolded bytes] ok plain(3,4) [unfolded bytes] m(1,2) user(8) reader(6)]
    by (auto simp: m)
  ultimately show ?thesis using a' srv(1-4) by blast
qed

definition sample_line_client :: client where
  "sample_line_client = (chatting_client [])\<lparr>cl_id := to_string 4\<rparr>"

definition sample_bytes :: string where
  "sample_bytes = ''`UNICAST_REPEATED``4`ann`4``hi`''"

lemma sample_line_bytes: "line_bytes sample_line_client ''hi'' = sample_bytes"
  by (simp add: line_bytes_def sample_bytes_def sample_line_client_def client_chat_message_def chatting_client_def
      get_concatenated_msg_def empty_message_def split_token_def to_string_samples)

theorem typed_line_appears_on_other_screens_witness:
  "\<exists>b'. receive_msg_from_sv (delivering_os sample_bytes) (clear_msg blank_frame) (chatting_client []) =
      (Inr (clear_msg blank_frame), b') \<and>
    last (hist b') = Ev_print (Cout (get_color COL_END @ COLOR_ARR ! 4 @ ''ann: hi'' @ get_color COL_END @ COLOR_ARR ! 4 @ [CHR 0x0A]))"
proof -
  let ?a = sample_line_client and ?s = "busy_server [4, 7] [] []" and ?b = "chatting_client []"
  let ?w = "(sample_worker 0 [(14, 4)])\<lparr>wk_em := \<lparr>epfd = 5, events = [(14, 1)]\<rparr>\<rparr>" and ?Q = "string_queue_ops (\<lambda>s. s)"
  have cl: "client_of 4 ?s = Some (table_client ?Q 4)" "client_of 7 ?s = Some (table_client ?Q 7)"
    using same_table_client_of [OF busy_server_table, of _ "[4, 7]"] by (simp_all add: table_with_two_client)
  have q: "string_queue_inv (q_worker_to_listener ?s)" "string_queue_items (q_worker_to_listener ?s) = []"
    using busy_server_queue [of "[]" "[4, 7]" "[]"] by simp_all
  have evfd: "evfd_spec (delivering_os sample_bytes)"
    using quiet_os_specs(2) by (simp add: delivering_os_def evfd_spec_def)
  have line: "sys_stdin_line (typing_os ''hi'') (hist ?a) = Some ''hi''" by (simp add: typing_os_def)
  have plain: "CHR 0x00 \<notin> set sample_bytes" "length sample_bytes < MAX_LEN" by (simp_all add: sample_bytes_def)
  have user: "''hi'' \<noteq> []" "''hi'' \<noteq> QUIT_MSG" "0 \<le> cl_socket ?a" "\<forall>h x. 0 \<le> sys_send (typing_os ''hi'') h (cl_socket ?a) x"
    "cl_id ?a = to_string 4" "INT_MIN \<le> 4 \<and> 4 \<le> INT_MAX" "0 \<le> cl_color_id ?a \<and> cl_color_id ?a \<le> 14"
    "split_token \<notin> set (cl_name ?a)" "split_token \<notin> set ''hi''"
    by (simp_all add: QUIT_MSG_def typing_os_def quiet_os_def sample_line_client_def chatting_client_def INT_MIN_def INT_MAX_def split_token_def)
  have sender: "0 \<le> sv_socket ?s" "cd_init_state (table_client ?Q i) = INIT_DONE_STATE" "0 \<le> cd_fd (table_client ?Q 4)"
    "0 \<le> cd_fd (table_client ?Q 7)" for i
    by (simp_all add: busy_server_def table_client_def)
  have turn: "check_event (wk_em ?w) (cd_fd (table_client ?Q 4)) EPOLLIN 1 = Inr True"
    "check_event (wk_em ?w) (cd_fd (table_client ?Q 4)) EPOLLOUT 1 = Inr False"
    by (simp_all add: table_client_def check_event_def event_matches_def EPOLLIN_def EPOLLOUT_def)
  have w: "wk_frame ?w = clear_msg blank_frame" "0 \<le> wk_listener_evfd ?w" by (simp_all add: sample_worker_def blank_frame_def clear_msg_def)
  have recv: "sys_recv (delivering_os sample_bytes) h fd n = (int (length sample_bytes), sample_bytes, EAGAIN)"
    "0 \<le> sys_send (delivering_os sample_bytes) h fd x" for h fd n x by (simp_all add: delivering_os_def quiet_os_def)
  have b: "0 \<le> cl_socket ?b" "cl_init_req ?b" "cl_init_done ?b" "0 \<le> cl_color_id ?b \<and> cl_color_id ?b \<le> 14"
    by (simp_all add: chatting_client_def)
  have out: "cl_color_id ?a = 4" "cl_color_id ?b = 4" "cl_name ?a = ''ann''" by (simp_all add: sample_line_client_def chatting_client_def)
  show ?thesis
    using typed_line_appears_on_other_screens [where line = "''hi''" and a = ?a and b = ?b and mv = "\<lambda>s. s" and cid = 4 and w = ?w and ret = 1 and f = blank_frame
        and e = EAGAIN and e' = EAGAIN and osB = "delivering_os sample_bytes" and os = "delivering_os sample_bytes",
        unfolded sample_line_bytes,
        OF line user plain busy_server_wf busy_server_queues sender(1) q busy_server_room cl(1) sender(2,3) turn blank_frame_wf w(1) evfd w(2) recv(1)
          cl(2) _ sender(2,4) recv(2) blank_frame_wf b(1-3) recv(1) b(4)]
    by (auto simp: out)
qed


subsection \<open>A client joins\<close>

definition join_bytes :: "'z client_scheme \<Rightarrow> string" where
  "join_bytes a = get_concatenated_msg (init_req_message a empty_message)"

definition confirm_bytes :: "string \<Rightarrow> 'q client_data \<Rightarrow> string" where
  "confirm_bytes name c = get_concatenated_msg (confirm_message (c\<lparr>cd_name := name\<rparr>) empty_message)"

definition done_bytes :: string where
  "done_bytes = get_concatenated_msg (empty_message\<lparr>sm_action := get_action INIT_DONE\<rparr>)"

text \<open>C2: joining, end to end. The first turn of a new client's sending loop sends the join
  request. Both the worker and the client read into a frame that has never been initialised, so
  each read depends on what happens to stand behind the bytes. When in both frames a zero byte
  comes there before any separator, the worker parses the request and, finding the socket
  writable, answers with a confirmation; the client that reads it takes over the id and the colour
  of its slot in the server's table, answers \<open>INIT_DONE\<close> and clears its frame; and the worker that
  parses this answer puts the slot into the chatting state under the name of the user, without
  touching another slot. Otherwise the join fails: the worker's parse throws or reads past the end
  of the frame, or the client's does and leaves the client unconfirmed, with nothing sent.\<close>

theorem client_joins:
  fixes s :: "(string state_cells queue_common, 'z) manager_state_scheme" and a :: "'y client_scheme"
  assumes user: "\<not> cl_init_req a" "\<not> cl_init_done a" "cl_name a \<noteq> []" "st_msg st = empty_message" "0 \<le> cl_socket a"
      "\<forall>h x. 0 \<le> sys_send osC h (cl_socket a) x"
      "\<forall>h. sys_recv osC h (cl_socket a) (int MAX_LEN) = (int (length (confirm_bytes (cl_name a) c)), confirm_bytes (cl_name a) c, e)"
    and plain: "split_token \<notin> set (cl_name a)" "CHR 0x00 \<notin> set (cl_name a)" "length (confirm_bytes (cl_name a) c) < MAX_LEN"
      "frame_wf f"
    and slot: "get_client_ref (cd_personal_id c) s = Some i" "clients s ! i = Some c" "cd_init_state c = INITIAL_STATE"
      "0 \<le> cd_color_id c \<and> cd_color_id c \<le> 14"
    and os: "0 \<le> sv_socket s" "0 \<le> cd_fd c" "\<And>h m. 0 \<le> sys_send os h (cd_fd c) m" "evfd_spec os" "0 \<le> levfd"
    and q: "string_queue_inv (q_worker_to_listener s)" "length (string_queue_items (q_worker_to_listener s)) < QUEUE_SIZE"
  shows "\<exists>st' a1 r1. send_turn osC st a = (Inr st', a1) \<and> last (hist a1) = Ev_send (cl_socket a) (join_bytes a) r1 \<and>
    (if \<not> clean_behind (length (join_bytes a)) g then \<exists>x. frame_message (join_bytes a) g = Inl x
     else if \<not> clean_behind (length (confirm_bytes (cl_name a) c)) f
     then \<exists>r a2. receive_msg_from_sv osC f a1 = (r, a2) \<and> \<not> cl_init_done a2 \<and> sent (hist a2) = sent (hist a1) \<and>
       (r = Inr (recv_into (confirm_bytes (cl_name a) c) f) \<or> r = Inl (Undefined_behaviour ''read past the end of a character array''))
     else \<exists>req s1 m s2 r2 a2 r3 fin s3.
      frame_message (join_bytes a) g = Inr req \<and>
      process_input os (string_queue_ops mv) req i levfd s = (Inr empty_message, s1) \<and>
      process_output os (string_queue_ops mv) empty_message i s1 = (Inr m, s2) \<and>
      last (hist s2) = Ev_send (cd_fd c) (confirm_bytes (cl_name a) c) r2 \<and>
      receive_msg_from_sv osC f a1 = (Inr (clear_msg f), a2) \<and> cl_init_done a2 \<and> cl_name a2 = cl_name a \<and>
      cl_id a2 = to_string (cd_personal_id c) \<and> cl_color_id a2 = cd_color_id c \<and>
      last (hist a2) = Ev_send (cl_socket a) done_bytes r3 \<and>
      construct_from_string done_bytes empty_message = Inr fin \<and>
      process_input os (string_queue_ops mv) fin i levfd s2 = (Inr empty_message, s3) \<and>
      clients s3 = (clients s)[i := Some (c\<lparr>cd_name := cl_name a, cd_init_state := INIT_DONE_STATE\<rparr>)])"
proof -
  let ?Q = "string_queue_ops mv" and ?req = "init_req_message a empty_message"
  let ?fin = "empty_message\<lparr>sm_action := get_action INIT_DONE\<rparr>" and ?conf = "confirm_message (c\<lparr>cd_name := cl_name a\<rparr>) empty_message"
  have ok: "sendable ?req" "sendable ?conf" "sendable ?fin" using plain(1)
    by (simp_all add: sendable_iff init_req_message_def confirm_message_def empty_message_def split_token_simps(1) [unfolded split_token_def] split_token_def)
  have nul: "CHR 0x00 \<notin> set (get_concatenated_msg ?req)" "CHR 0x00 \<notin> set (get_concatenated_msg ?conf)"
    using plain(2) by (auto simp: get_concatenated_msg_def init_req_message_def confirm_message_def empty_message_def split_token_def
        get_action_def ACTIONS_ARR_def)
  note parse = frame_message_outcome [OF ok(1) nul(1), of g, folded join_bytes_def]
  have fin: "construct_from_string done_bytes empty_message = Inr ?fin"
    using ok by (simp add: done_bytes_def construct_of_concatenated)
  obtain st' a1 r1 where a1: "send_turn osC st a = (Inr st', a1)" "hist a1 = hist a @ [Ev_send (cl_socket a) (join_bytes a) r1]"
    "cl_init_req a1" "\<not> cl_init_done a1" "cl_socket a1 = cl_socket a" "cl_name a1 = cl_name a"
    using user by (auto simp: send_turn_def Let_def client_send_ok join_bytes_def)
  have conf: "sm_action ?conf = get_action INIT_REQ" "sm_color_id ?conf = to_string (cd_color_id c)"
    "sm_id ?conf = to_string (cd_personal_id c)" by (simp_all add: confirm_message_def)
  note client = user(5-7) plain(3) nul(2)
  have spoiled: "\<exists>r a2. receive_msg_from_sv osC f a1 = (r, a2) \<and> \<not> cl_init_done a2 \<and> sent (hist a2) = sent (hist a1) \<and>
      (r = Inr (recv_into (confirm_bytes (cl_name a) c) f) \<or> r = Inl (Undefined_behaviour ''read past the end of a character array''))"
    if "\<not> clean_behind (length (confirm_bytes (cl_name a) c)) f"
    using client_read_spoiled [OF plain(4) _ a1(3) _ ok(2) nul(2), of osC e] client that a1(4)
    unfolding confirm_bytes_def a1(5,6) by (auto simp: Let_def split: if_splits)
  have joined: "\<exists>a2 r3. receive_msg_from_sv osC f a1 = (Inr (clear_msg f), a2) \<and> cl_init_done a2 \<and> cl_name a2 = cl_name a \<and>
      cl_id a2 = to_string (cd_personal_id c) \<and> cl_color_id a2 = cd_color_id c \<and> last (hist a2) = Ev_send (cl_socket a) done_bytes r3"
    if "clean_behind (length (confirm_bytes (cl_name a) c)) f"
    using confirmation_outcome [OF plain(4) _ a1(3,4) _ ok(2) nul(2) _ conf(1,2) slot(4), of osC e] client that
    unfolding confirm_bytes_def a1(5,6) conf(3) done_bytes_def by fastforce
  have acts: "sm_action ?req = get_action INIT_REQ" "sm_action ?fin = get_action INIT_DONE" by (simp_all add: init_req_message_def)
  have slotted: "confirm_message (c\<lparr>cd_name := cl_name a, cd_init_state := INIT_DONE_STATE\<rparr>) empty_message = ?conf"
    "chatting_as ?req c = c\<lparr>cd_name := cl_name a, cd_init_state := INIT_DONE_STATE\<rparr>"
    by (simp_all add: confirm_message_def chatting_as_def init_req_message_def)
  obtain m s1 s2 s3 r2 where srv: "process_input os ?Q ?req i levfd s = (Inr empty_message, s1)"
    "process_output os ?Q empty_message i s1 = (Inr m, s2)" "last (hist s2) = Ev_send (cd_fd c) (confirm_bytes (cl_name a) c) r2"
    "process_input os ?Q ?fin i levfd s2 = (Inr empty_message, s3)"
    "clients s3 = (clients s)[i := Some (c\<lparr>cd_name := cl_name a, cd_init_state := INIT_DONE_STATE\<rparr>)]"
    using handshake_steps [OF slot(1-3) acts os q, of mv] unfolding slotted confirm_bytes_def by (metis last_snoc)
  have "last (hist a1) = Ev_send (cl_socket a) (join_bytes a) r1" using a1(2) by simp
  note sent = a1(1) this
  show ?thesis
  proof (cases "clean_behind (length (join_bytes a)) g")
    case g: True
    show ?thesis
    proof (cases "clean_behind (length (confirm_bytes (cl_name a) c)) f")
      case True
      with joined obtain a2 r3 where "receive_msg_from_sv osC f a1 = (Inr (clear_msg f), a2)"
        "cl_init_done a2" "cl_name a2 = cl_name a" "cl_id a2 = to_string (cd_personal_id c)" "cl_color_id a2 = cd_color_id c"
        "last (hist a2) = Ev_send (cl_socket a) done_bytes r3" by blast
      moreover have "frame_message (join_bytes a) g = Inr ?req" using parse g by simp
      ultimately show ?thesis using sent srv fin by (simp only: g True simp_thms if_False) blast
    next
      case False
      with spoiled sent show ?thesis by (simp only: g simp_thms if_False if_True) blast
    qed
  next
    case False
    then have "\<exists>x. frame_message (join_bytes a) g = Inl x" using parse by simp
    with False sent show ?thesis by (simp only: simp_thms if_True) blast
  qed
qed

definition joining_client :: "history \<Rightarrow> client" where
  "joining_client h = (client_members 7 h)\<lparr>cl_name := ''ann'', cl_socket := 3\<rparr>"

definition littered_frame :: message_frame where
  "littered_frame = \<lparr>mf_msg = replicate 511 (CHR ''x'') @ [CHR 0x00], mf_msg_len = 512\<rparr>"

lemma littered_frame_clean: "frame_wf littered_frame" "n < 512 \<Longrightarrow> clean_behind n littered_frame"
  by (auto simp: frame_wf_def littered_frame_def clean_behind_def split_token_def takeWhile_append)

theorem client_joins_witness:
  "\<exists>a1 a2 st'. send_turn (delivering_os ''`INIT_REQ``4`ann`2```'') \<lparr>st_em = \<lparr>epfd = 5, events = []\<rparr>, st_msg = empty_message\<rparr>
      (joining_client []) = (Inr st', a1) \<and>
    receive_msg_from_sv (delivering_os ''`INIT_REQ``4`ann`2```'') littered_frame a1 = (Inr (clear_msg littered_frame), a2) \<and>
    cl_id a2 = ''4'' \<and> cl_init_done a2"
proof -
  let ?c = "(table_client (string_queue_ops (\<lambda>s. s)) 4)\<lparr>cd_init_state := INITIAL_STATE\<rparr>"
  let ?a = "joining_client []" and ?st = "\<lparr>st_em = \<lparr>epfd = 5, events = []\<rparr>, st_msg = empty_message\<rparr>"
  define b where "b = ''`INIT_REQ``4`ann`2```''"
  have user: "\<not> cl_init_req ?a" "\<not> cl_init_done ?a" "cl_name ?a \<noteq> []" "st_msg ?st = empty_message" "0 \<le> cl_socket ?a"
    "\<forall>h x. 0 \<le> sys_send (delivering_os b) h (cl_socket ?a) x"
    "\<forall>h. sys_recv (delivering_os b) h (cl_socket ?a) (int MAX_LEN) = (int (length b), b, EAGAIN)"
    by (simp_all add: joining_client_def client_members_def delivering_os_def quiet_os_def)
  have bytes: "confirm_bytes (cl_name ?a) ?c = b"
    by (simp add: b_def joining_client_def client_members_def confirm_bytes_def confirm_message_def table_client_def get_concatenated_msg_def
        empty_message_def split_token_def to_string_samples)
  have plain: "split_token \<notin> set (cl_name ?a)" "CHR 0x00 \<notin> set (cl_name ?a)" "length b < MAX_LEN"
    by (simp_all add: b_def joining_client_def client_members_def split_token_def)
  have slot: "get_client_ref (cd_personal_id ?c) fresh_string_server = Some 0" "clients fresh_string_server ! 0 = Some ?c"
    "cd_init_state ?c = INITIAL_STATE" "0 \<le> cd_color_id ?c \<and> cd_color_id ?c \<le> 14" "0 \<le> sv_socket fresh_string_server" "0 \<le> cd_fd ?c"
    by (simp_all add: fresh_string_server_def get_client_ref_def table_client_def)
  have q: "string_queue_inv (q_worker_to_listener fresh_string_server)"
    "length (string_queue_items (q_worker_to_listener fresh_string_server)) < QUEUE_SIZE"
    by (simp_all add: fresh_string_server_def new_string_queue_inv new_string_queue_items)
  have clean: "clean_behind (length b) littered_frame" "clean_behind (length (join_bytes ?a)) littered_frame"
    by (rule littered_frame_clean(2), simp add: b_def join_bytes_def init_req_message_def joining_client_def client_members_def
        get_concatenated_msg_def empty_message_def to_string_samples)+
  have "to_string (cd_personal_id ?c) = ''4''" by (simp add: table_client_def to_string_samples)
  with client_joins [where a = ?a and c = ?c, unfolded bytes, OF user plain littered_frame_clean(1) slot quiet_send quiet_os_specs(2) _ q,
      of 5 littered_frame "\<lambda>s. s", simplified clean simp_thms if_False]
  show ?thesis unfolding b_def by fastforce
qed

end
